(* ===== verification/Go_Prelude.thy ===== *)
theory Go_Prelude
  imports Main "HOL-Library.Word"
begin

section \<open>The Go runtime the programs rely on\<close>

text \<open>
  Shared by every component: outcomes that may panic, checked indexing and slicing, byte
  strings, buffered channels, timers, and the generic list lemmas.  A Go run-time panic (or
  \<open>log.Fatal\<close>) is a value of \<open>go_stop\<close>; it ends the whole process, so an operation
  returns either \<open>Inl\<close> of the reason or \<open>Inr\<close> of its result.
\<close>

named_theorems go_defs \<open>the definitions of the Go run-time operations\<close>

subsection \<open>Outcomes\<close>

datatype go_stop =
    Nil_deref
  | Index_range
  | Slice_bounds
  | Fatal string

type_synonym 'a go = "go_stop + 'a"

definition go_bind :: "'a go \<Rightarrow> ('a \<Rightarrow> 'b go) \<Rightarrow> 'b go" where
  "go_bind m f = (case m of Inl e \<Rightarrow> Inl e | Inr x \<Rightarrow> f x)"

lemma go_bind_simps [simp]:
  "go_bind (Inl e) f = Inl e"
  "go_bind (Inr x) f = f x"
  by (simp_all add: go_bind_def)

lemma go_bind_Inr_iff:
  "go_bind m f = Inr y \<longleftrightarrow> (\<exists>x. m = Inr x \<and> f x = Inr y)"
  by (cases m) auto

lemma go_bind_assoc: "go_bind (go_bind m f) g = go_bind m (\<lambda>x. go_bind (f x) g)"
  by (cases m) auto

lemma go_bind_cong [fundef_cong]:
  "m = m' \<Longrightarrow> (\<And>x. m' = Inr x \<Longrightarrow> f x = g x) \<Longrightarrow> go_bind m f = go_bind m' g"
  by (cases m') auto

text \<open>Following a pointer, indexing a slice, storing into a slice, and re-slicing.\<close>

definition deref :: "'a option \<Rightarrow> 'a go" where
  "deref p = (case p of None \<Rightarrow> Inl Nil_deref | Some x \<Rightarrow> Inr x)"

lemma deref_simps [simp]:
  "deref None = Inl Nil_deref"
  "deref (Some x) = Inr x"
  by (simp_all add: deref_def)

definition go_index :: "'a list \<Rightarrow> nat \<Rightarrow> 'a go" where
  "go_index xs i = (if i < length xs then Inr (xs ! i) else Inl Index_range)"

definition go_store :: "'a list \<Rightarrow> nat \<Rightarrow> 'a \<Rightarrow> 'a list go" where
  "go_store xs i v = (if i < length xs then Inr (xs[i := v]) else Inl Index_range)"

definition go_slice :: "'a list \<Rightarrow> nat \<Rightarrow> nat \<Rightarrow> 'a list go" where
  "go_slice xs lo hi =
     (if lo \<le> hi \<and> hi \<le> length xs then Inr (take (hi - lo) (drop lo xs)) else Inl Slice_bounds)"

declare go_index_def [go_defs] go_store_def [go_defs] go_slice_def [go_defs]

lemma go_index_in [simp]: "i < length xs \<Longrightarrow> go_index xs i = Inr (xs ! i)"
  and go_store_in [simp]: "i < length xs \<Longrightarrow> go_store xs i v = Inr (xs[i := v])"
  by (simp_all add: go_defs)

lemma go_index_out [simp]: "length xs \<le> i \<Longrightarrow> go_index xs i = Inl Index_range"
  and go_store_out [simp]: "length xs \<le> i \<Longrightarrow> go_store xs i v = Inl Index_range"
  by (simp_all add: go_defs)

subsection \<open>Bytes and strings\<close>

type_synonym byte = "8 word"
type_synonym bytes = "byte list"

text \<open>The conversions \<open>[]byte(s)\<close> and \<open>string(b)\<close>.\<close>

definition bytes_of :: "string \<Rightarrow> bytes" where
  "bytes_of s = map (\<lambda>c. word_of_nat (of_char c)) s"

definition string_of :: "bytes \<Rightarrow> string" where
  "string_of b = map (\<lambda>x. char_of (unat x)) b"

lemma char_of_unat_of_char [simp]:
  "char_of (unat (word_of_nat (of_char c) :: byte)) = c"
proof -
  have "(of_char c :: nat) < 256"
    by (cases c) (simp add: of_char_def)
  then show ?thesis by (simp add: unat_of_nat)
qed

lemma unat_byte_mod [simp]: "word_of_nat (unat (b :: byte) mod 256) = b"
proof -
  have "unat b < 2 ^ LENGTH(8)"
    by (rule unsigned_less)
  then show ?thesis by simp
qed

lemma string_of_bytes_of [simp]: "string_of (bytes_of s) = s"
  by (induction s) (simp_all add: string_of_def bytes_of_def)

lemma bytes_of_string_of [simp]: "bytes_of (string_of b) = b"
  by (induction b) (simp_all add: string_of_def bytes_of_def)

lemma length_bytes_of [simp]: "length (bytes_of s) = length s"
  and length_string_of [simp]: "length (string_of b) = length b"
  by (simp_all add: bytes_of_def string_of_def)

lemma string_of_append: "string_of (a @ b) = string_of a @ string_of b"
  and bytes_of_append: "bytes_of (s @ t) = bytes_of s @ bytes_of t"
  by (simp_all add: string_of_def bytes_of_def)

lemma bytes_of_inject [simp]: "bytes_of s = bytes_of t \<longleftrightarrow> s = t"
  by (metis string_of_bytes_of)

subsection \<open>Decimal numbers\<close>

text \<open>\<open>strconv.Itoa\<close>, \<open>fmt.Sprint\<close> and \<open>%d\<close> on a number that is not negative.\<close>

definition digit_char :: "nat \<Rightarrow> char" where
  "digit_char d = char_of (48 + d)"

fun itoa :: "nat \<Rightarrow> string" where
  "itoa n = (if n < 10 then [digit_char n] else itoa (n div 10) @ [digit_char (n mod 10)])"

declare itoa.simps [simp del]

definition is_digit :: "char \<Rightarrow> bool" where
  "is_digit c \<longleftrightarrow> 48 \<le> (of_char c :: nat) \<and> (of_char c :: nat) \<le> 57"

definition digit_val :: "char \<Rightarrow> nat" where
  "digit_val c = of_char c - 48"

text \<open>Reading decimal digits, \<open>None\<close> at anything that is not a digit.\<close>

fun parse_dec :: "nat \<Rightarrow> string \<Rightarrow> nat option" where
  "parse_dec acc [] = Some acc"
| "parse_dec acc (c # cs) =
     (if is_digit c then parse_dec (10 * acc + digit_val c) cs else None)"

lemma digit_char_props [simp]:
  assumes "d < 10"
  shows "is_digit (digit_char d)" and "digit_val (digit_char d) = d"
  using assms by (simp_all add: is_digit_def digit_val_def digit_char_def)

lemma parse_dec_append:
  "parse_dec acc (xs @ ys) = Option.bind (parse_dec acc xs) (\<lambda>a. parse_dec a ys)"
  by (induction xs arbitrary: acc) auto

lemma parse_dec_itoa [simp]: "parse_dec 0 (itoa n) = Some n"
proof (induction n rule: itoa.induct)
  case (1 n)
  then show ?case
    by (cases "n < 10") (simp_all add: itoa.simps [of n] parse_dec_append)
qed

lemma itoa_inject [simp]: "itoa m = itoa n \<longleftrightarrow> m = n"
  by (metis option.inject parse_dec_itoa)

lemma itoa_not_Nil [simp]: "itoa n \<noteq> []" "[] \<noteq> itoa n"
  by (simp_all add: itoa.simps [of n])

lemma itoa_digits: "c \<in> set (itoa n) \<Longrightarrow> is_digit c"
proof (induction n rule: itoa.induct)
  case (1 n)
  then show ?case
    by (cases "n < 10") (auto simp: itoa.simps [of n])
qed

lemma itoa_hd: "n \<noteq> 0 \<Longrightarrow> hd (itoa n) \<noteq> CHR ''0''"
proof (induction n rule: itoa.induct)
  case (1 n)
  show ?case
  proof (cases "n < 10")
    case True
    then have "(of_char (digit_char n) :: nat) = 48 + n"
      by (simp add: digit_char_def)
    with 1 have "digit_char n \<noteq> CHR ''0''" by fastforce
    with True show ?thesis by (simp add: itoa.simps [of n])
  next
    case False
    with 1 show ?thesis by (simp add: itoa.simps [of n])
  qed
qed

subsection \<open>Splitting strings\<close>

fun split_on :: "'a \<Rightarrow> 'a list \<Rightarrow> 'a list list" where
  "split_on c [] = [[]]"
| "split_on c (x # xs) =
     (if x = c then [] # split_on c xs
      else (case split_on c xs of [] \<Rightarrow> [[x]] | f # fs \<Rightarrow> (x # f) # fs))"

lemma split_on_not_Nil [simp]: "split_on c xs \<noteq> []"
  by (induction xs) (auto split: list.splits)

lemma split_on_single: "c \<notin> set xs \<Longrightarrow> split_on c xs = [xs]"
  by (induction xs) auto

lemma split_on_field: "c \<notin> set xs \<Longrightarrow> split_on c (xs @ c # ys) = xs # split_on c ys"
  by (induction xs) auto

text \<open>\<open>strings.Index\<close>: the first position of a substring; \<open>strings.Contains\<close>.\<close>

fun str_index :: "'a list \<Rightarrow> 'a list \<Rightarrow> nat option" where
  "str_index [] sub = (if sub = [] then Some 0 else None)"
| "str_index (x # xs) sub =
     (if take (length sub) (x # xs) = sub then Some 0
      else map_option Suc (str_index xs sub))"

definition str_contains :: "'a list \<Rightarrow> 'a list \<Rightarrow> bool" where
  "str_contains s sub \<longleftrightarrow> str_index s sub \<noteq> None"

lemma str_index_SomeD:
  "str_index s sub = Some i \<Longrightarrow>
     i + length sub \<le> length s \<and> take (length sub) (drop i s) = sub"
proof (induction s arbitrary: i)
  case Nil
  then show ?case by (auto split: if_splits)
next
  case (Cons x xs)
  show ?case
  proof (cases "take (length sub) (x # xs) = sub")
    case True
    then have "length sub \<le> length (x # xs)"
      by (metis length_take min.cobounded1)
    with True Cons.prems show ?thesis by auto
  next
    case False
    with Cons.prems obtain j where "str_index xs sub = Some j" and "i = Suc j" by auto
    with Cons.IH show ?thesis by fastforce
  qed
qed

lemma str_index_NoneD: "str_index s sub = None \<Longrightarrow> s \<noteq> xs @ sub @ ys"
proof (induction s arbitrary: xs)
  case Nil
  then show ?case by (auto split: if_splits)
next
  case (Cons x s)
  then show ?case
    by (cases xs) (auto split: if_splits)
qed

lemma str_contains_iff: "str_contains s sub \<longleftrightarrow> (\<exists>xs ys. s = xs @ sub @ ys)"
proof
  assume "str_contains s sub"
  then obtain i where "str_index s sub = Some i" by (auto simp: str_contains_def)
  then have "take (length sub) (drop i s) = sub" by (simp add: str_index_SomeD)
  then have "s = take i s @ sub @ drop (length sub) (drop i s)"
    by (metis append_take_drop_id)
  then show "\<exists>xs ys. s = xs @ sub @ ys" by blast
next
  assume "\<exists>xs ys. s = xs @ sub @ ys"
  then show "str_contains s sub" using str_index_NoneD by (fastforce simp: str_contains_def)
qed

subsection \<open>Buffered channels\<close>

text \<open>
  A channel made with \<open>make(chan T, n)\<close>: a bounded first-in first-out buffer.  Sending to a
  full channel and receiving from an empty one block; a blocked operation is \<open>None\<close>.
\<close>

record 'a chan =
  chan_cap :: nat
  chan_buf :: "'a list"

definition make_chan :: "nat \<Rightarrow> 'a chan" where
  "make_chan n = \<lparr>chan_cap = n, chan_buf = []\<rparr>"

definition chan_len :: "'a chan \<Rightarrow> nat" where
  "chan_len c = length (chan_buf c)"

definition chan_send :: "'a \<Rightarrow> 'a chan \<Rightarrow> 'a chan option" where
  "chan_send x c =
     (if length (chan_buf c) < chan_cap c then Some (c\<lparr>chan_buf := chan_buf c @ [x]\<rparr>) else None)"

definition chan_recv :: "'a chan \<Rightarrow> ('a \<times> 'a chan) option" where
  "chan_recv c = (case chan_buf c of [] \<Rightarrow> None | x # xs \<Rightarrow> Some (x, c\<lparr>chan_buf := xs\<rparr>))"

text \<open>
  What a goroutine may assume of a channel, and the idiom both programs use throughout:
  \<open>if len(c) == 0 { c <- x }\<close>.
\<close>

locale bounded_channel =
  fixes len :: "'c \<Rightarrow> nat"
    and send :: "'a \<Rightarrow> 'c \<Rightarrow> 'c option"
    and recv :: "'c \<Rightarrow> ('a \<times> 'c) option"
    and items :: "'c \<Rightarrow> 'a list"
    and room :: "'c \<Rightarrow> nat"
  assumes len_items: "len c = length (items c)"
    and send_ok: "len c < room c \<Longrightarrow> \<exists>c'. send x c = Some c'"
    and send_items: "send x c = Some c' \<Longrightarrow> items c' = items c @ [x]"
    and send_room: "send x c = Some c' \<Longrightarrow> room c' = room c \<and> len c < room c"
    and recv_items: "recv c = Some (x, c') \<Longrightarrow> items c = x # items c' \<and> room c' = room c"
    and recv_blocks: "recv c = None \<longleftrightarrow> items c = []"
begin

lemma guarded_send_never_blocks:
  assumes "0 < room c"
  shows "\<exists>c'. (if len c = 0 then send x c else Some c) = Some c'"
  using assms send_ok [of c x] by auto

lemma guarded_send_keeps_first:
  assumes "items c = y # ys"
    and "(if len c = 0 then send x c else Some c) = Some c'"
  shows "c' = c"
  using assms by (simp add: len_items)

lemma guarded_send_recv:
  assumes "items c = []" and "send x c = Some c'"
  shows "\<exists>c''. recv c' = Some (x, c'') \<and> items c'' = []"
proof -
  have i: "items c' = [x]" using assms send_items by fastforce
  then obtain y c'' where r: "recv c' = Some (y, c'')"
    using recv_blocks [of c'] by (cases "recv c'") auto
  with recv_items [OF r] i show ?thesis by auto
qed

lemma capacity_respected:
  assumes "len c \<le> room c" and "send x c = Some c'"
  shows "len c' \<le> room c'"
  using send_items [OF assms(2)] send_room [OF assms(2)] by (simp add: len_items)

end

interpretation go_chan: bounded_channel chan_len chan_send chan_recv chan_buf chan_cap
  by unfold_locales
    (auto simp: chan_len_def chan_send_def chan_recv_def split: if_splits list.splits)

lemma make_chan_simps [simp]:
  "chan_buf (make_chan n) = []" "chan_cap (make_chan n) = n" "chan_len (make_chan n) = 0"
  by (simp_all add: make_chan_def chan_len_def)

lemma chan_send_len:
  "chan_send x ch = Some ch' \<Longrightarrow> chan_cap ch' = chan_cap ch \<and> (chan_len ch \<le> chan_cap ch \<longrightarrow> chan_len ch' \<le> chan_cap ch)"
  by (auto simp: chan_send_def chan_len_def split: if_splits)

lemma chan_recv_len: "chan_recv ch = Some (x, ch') \<Longrightarrow> chan_cap ch' = chan_cap ch \<and> chan_len ch' \<le> chan_len ch"
  by (auto simp: chan_recv_def chan_len_def split: list.splits)

subsection \<open>Timers\<close>

text \<open>
  A \<open>time.Timer\<close>: armed while it counts down, and \<open>timer_C\<close> is \<open>len(t.C)\<close>, 1 from
  the moment it fires until the tick is received.  The modules declare \<open>go 1.17\<close>, so the
  channel of a timer is buffered and \<open>Stop\<close> and \<open>Reset\<close> do not drain it.
\<close>

record timer =
  timer_armed :: bool
  timer_C :: nat

definition new_timer :: timer where
  "new_timer = \<lparr>timer_armed = True, timer_C = 0\<rparr>"

definition timer_fire :: "timer \<Rightarrow> timer" where
  "timer_fire t = (if timer_armed t then t\<lparr>timer_armed := False, timer_C := 1\<rparr> else t)"

definition timer_stop :: "timer \<Rightarrow> timer" where
  "timer_stop t = t\<lparr>timer_armed := False\<rparr>"

definition timer_drain :: "timer \<Rightarrow> timer option" where
  "timer_drain t = (if timer_C t = 0 then None else Some (t\<lparr>timer_C := timer_C t - 1\<rparr>))"

definition timer_reset :: "timer \<Rightarrow> timer" where
  "timer_reset t = t\<lparr>timer_armed := True\<rparr>"

subsection \<open>Lists\<close>

text \<open>A loop over a slice that may stop with a panic at any element.\<close>

fun go_fold :: "('a \<Rightarrow> 's \<Rightarrow> 's go) \<Rightarrow> 'a list \<Rightarrow> 's \<Rightarrow> 's go" where
  "go_fold f [] s = Inr s"
| "go_fold f (x # xs) s = go_bind (f x s) (go_fold f xs)"

lemma go_fold_append: "go_fold f (xs @ ys) s = go_bind (go_fold f xs s) (go_fold f ys)"
proof (induction xs arbitrary: s)
  case Nil
  then show ?case by simp
next
  case (Cons x xs)
  then show ?case by (cases "f x s") simp_all
qed

lemma go_fold_inv:
  assumes "go_fold f xs s = Inr t" and "I s"
    and "\<And>x u v. \<lbrakk>x \<in> set xs; I u; f x u = Inr v\<rbrakk> \<Longrightarrow> I v"
  shows "I t"
  using assms
proof (induction xs arbitrary: s)
  case Nil
  then show ?case by simp
next
  case (Cons x xs)
  from Cons.prems(1) obtain u where u: "f x s = Inr u" and t: "go_fold f xs u = Inr t"
    by (auto simp: go_bind_Inr_iff)
  from Cons.prems(2) u have "I u" by (rule Cons.prems(3) [rotated]) simp
  with t show ?case by (rule Cons.IH) (rule Cons.prems(3), auto)
qed

end
