(* ===== verification/Net_Addr.thy ===== *)
theory Net_Addr
  imports Go_Prelude
begin

unbundle bit_operations_syntax

section \<open>Byte order and network addresses\<close>

text \<open>
  What the sources use of \<open>encoding/binary\<close> and \<open>net\<close>: big-endian 16- and 32-bit numbers,
  \<open>net.IP\<close> with \<open>To4\<close> and \<open>IsLoopback\<close>, and \<open>net.ResolveUDPAddr\<close> on an address written
  as an IPv4 literal and a port number, the only form the packet code builds.  Anything else
  (a host name, an IPv6 literal) is answered with an error here.
\<close>

subsection \<open>Big-endian numbers\<close>

definition PutUint16 :: "16 word \<Rightarrow> bytes" where
  "PutUint16 w = [ucast (drop_bit 8 w), ucast w]"

definition PutUint32 :: "32 word \<Rightarrow> bytes" where
  "PutUint32 w = [ucast (drop_bit 24 w), ucast (drop_bit 16 w), ucast (drop_bit 8 w), ucast w]"

definition BE_Uint16 :: "bytes \<Rightarrow> 16 word" where
  "BE_Uint16 b = ucast (b ! 1) OR push_bit 8 (ucast (b ! 0))"

definition BE_Uint32 :: "bytes \<Rightarrow> 32 word" where
  "BE_Uint32 b =
     ucast (b ! 3) OR push_bit 8 (ucast (b ! 2)) OR push_bit 16 (ucast (b ! 1))
       OR push_bit 24 (ucast (b ! 0))"

lemma length_PutUint [simp]: "length (PutUint16 w) = 2" "length (PutUint32 v) = 4"
  by (simp_all add: PutUint16_def PutUint32_def)

lemma Uint16_PutUint16 [simp]: "BE_Uint16 (PutUint16 w) = w"
  by (rule bit_word_eqI) (auto simp: BE_Uint16_def PutUint16_def bit_simps)

lemma Uint32_PutUint32 [simp]: "BE_Uint32 (PutUint32 w) = w"
proof (rule bit_word_eqI)
  fix n
  assume "n < LENGTH(32)"
  then consider "n < 8" | "8 \<le> n" "n < 16" | "16 \<le> n" "n < 24" | "24 \<le> n" "n < 32"
    by fastforce
  then show "bit (BE_Uint32 (PutUint32 w)) n = bit w n"
    by cases (auto simp: BE_Uint32_def PutUint32_def bit_simps)
qed

lemma bit_byte_high [simp]: "8 \<le> n \<Longrightarrow> \<not> bit (b :: byte) n"
  using bit_imp_le_length [of b n] by auto

lemma PutUint16_Uint16:
  assumes "length b = 2"
  shows "PutUint16 (BE_Uint16 b) = b"
proof -
  from assms obtain x y where "b = [x, y]"
    by (auto simp: numeral_2_eq_2 length_Suc_conv)
  then show ?thesis
    by (auto simp: BE_Uint16_def PutUint16_def bit_simps intro!: bit_word_eqI)
qed

lemma PutUint32_Uint32:
  assumes "length b = 4"
  shows "PutUint32 (BE_Uint32 b) = b"
proof -
  from assms obtain w x y z where "b = [w, x, y, z]"
    by (auto simp: numeral_eq_Suc length_Suc_conv)
  then show ?thesis
    by (auto simp: BE_Uint32_def PutUint32_def bit_simps intro!: bit_word_eqI)
qed

subsection \<open>net.IP\<close>

type_synonym ip = bytes

definition v4InV6Prefix :: bytes where
  "v4InV6Prefix = replicate 10 0 @ [0xff, 0xff]"

definition IPv4 :: "bytes \<Rightarrow> ip" where
  "IPv4 b = v4InV6Prefix @ b"

definition To4 :: "ip \<Rightarrow> ip" where
  "To4 a =
     (if length a = 4 then a
      else if length a = 16 \<and> take 12 a = v4InV6Prefix then drop 12 a
      else [])"

definition IPv6loopback :: ip where
  "IPv6loopback = replicate 15 0 @ [1]"

definition IsLoopback :: "ip \<Rightarrow> bool" where
  "IsLoopback a = (if To4 a \<noteq> [] then To4 a ! 0 = 127 else a = IPv6loopback)"

lemma To4_4 [simp]: "length a = 4 \<Longrightarrow> To4 a = a"
  by (simp add: To4_def)

lemma length_To4: "length (To4 a) = 4 \<or> To4 a = []"
  by (auto simp: To4_def)

lemma To4_IPv4 [simp]: "length b = 4 \<Longrightarrow> To4 (IPv4 b) = b"
  by (simp add: To4_def IPv4_def v4InV6Prefix_def)

lemma length_IPv4 [simp]: "length (IPv4 b) = 12 + length b"
  by (simp add: IPv4_def v4InV6Prefix_def)

lemma IPv4_inject [simp]: "IPv4 a = IPv4 b \<longleftrightarrow> a = b"
  by (simp add: IPv4_def)

lemma IPv4_To4: "length a = 16 \<Longrightarrow> To4 a \<noteq> [] \<Longrightarrow> IPv4 (To4 a) = a"
  by (auto simp: To4_def IPv4_def split: if_splits) (metis append_take_drop_id)

subsection \<open>UDP addresses\<close>

record udp_addr =
  IP :: ip
  Port :: int

text \<open>\<open>%s\<close> of a 4-byte \<open>net.IP\<close>, and \<open>net.parseIPv4\<close>: four fields, no leading zero, at
  most 255.\<close>

fun join_dots :: "string list \<Rightarrow> string" where
  "join_dots [] = []"
| "join_dots [x] = x"
| "join_dots (x # xs) = x @ CHR ''.'' # join_dots xs"

definition IP_String4 :: "bytes \<Rightarrow> string" where
  "IP_String4 b = join_dots (map (\<lambda>x. itoa (unat x)) b)"

definition parse_octet :: "string \<Rightarrow> byte option" where
  "parse_octet s =
     (if s = [] \<or> (1 < length s \<and> hd s = CHR ''0'') then None
      else (case parse_dec 0 s of
              None \<Rightarrow> None
            | Some n \<Rightarrow> if n \<le> 255 then Some (word_of_nat n) else None))"

definition parseIPv4 :: "string \<Rightarrow> ip option" where
  "parseIPv4 s =
     (case map parse_octet (split_on CHR ''.'' s) of
        [Some a, Some b, Some c, Some d] \<Rightarrow> Some (IPv4 [a, b, c, d])
      | _ \<Rightarrow> None)"

definition parsePort :: "string \<Rightarrow> int option" where
  "parsePort s =
     (case parse_dec 0 s of
        None \<Rightarrow> None
      | Some n \<Rightarrow> if n \<le> 65535 then Some (int n) else None)"

definition ResolveUDPAddr :: "string \<Rightarrow> string + udp_addr" where
  "ResolveUDPAddr s =
     (case split_on CHR '':'' s of
        [host, port] \<Rightarrow>
          (case parseIPv4 host of
             None \<Rightarrow> Inl (''lookup '' @ host)
           | Some a \<Rightarrow>
               (case parsePort port of
                  None \<Rightarrow> Inl (''lookup port '' @ port)
                | Some n \<Rightarrow> Inr \<lparr>IP = a, Port = n\<rparr>))
      | _ \<Rightarrow> Inl (''address '' @ s))"

lemma itoa_no_sep [simp]:
  "CHR ''.'' \<notin> set (itoa n)" "CHR '':'' \<notin> set (itoa n)"
  using itoa_digits [of "CHR ''.''" n] itoa_digits [of "CHR '':''" n]
  by (auto simp: is_digit_def)

lemma parse_octet_itoa [simp]: "parse_octet (itoa (unat (x :: byte))) = Some x"
proof -
  have "unat x < 2 ^ LENGTH(8)" by (rule unsigned_less)
  then have "unat x \<le> 255" by simp
  moreover have "\<not> (1 < length (itoa (unat x)) \<and> hd (itoa (unat x)) = CHR ''0'')"
    by (cases "unat x = 0") (auto simp: itoa_hd itoa.simps [of 0])
  ultimately show ?thesis by (simp add: parse_octet_def)
qed

lemma parseIPv4_String4:
  assumes "length b = 4"
  shows "parseIPv4 (IP_String4 b) = Some (IPv4 b)"
proof -
  from assms obtain w x y z where "b = [w, x, y, z]"
    by (auto simp: numeral_eq_Suc length_Suc_conv)
  then show ?thesis
    by (simp add: parseIPv4_def IP_String4_def split_on_field split_on_single)
qed

lemma IP_String4_no_colon:
  assumes "length b = 4"
  shows "CHR '':'' \<notin> set (IP_String4 b)"
proof -
  from assms obtain w x y z where "b = [w, x, y, z]"
    by (auto simp: numeral_eq_Suc length_Suc_conv)
  then show ?thesis by (simp add: IP_String4_def)
qed

text \<open>\<open>fmt.Sprintf("%s:%d", ip, port)\<close>, and its resolution: never an error on four bytes and
  a 16-bit port, and the address comes back in the 16-byte form.\<close>

definition addr_string :: "bytes \<Rightarrow> 16 word \<Rightarrow> string" where
  "addr_string ip port = IP_String4 ip @ '':'' @ itoa (unat port)"

lemma ResolveUDPAddr_addr_string:
  assumes "length b = 4"
  shows "ResolveUDPAddr (addr_string b p) = Inr \<lparr>IP = IPv4 b, Port = int (unat p)\<rparr>"
proof -
  have "unat p < 2 ^ LENGTH(16)" by (rule unsigned_less)
  then have "unat p \<le> 65535" by simp
  with assms show ?thesis
    by (simp add: ResolveUDPAddr_def addr_string_def split_on_field split_on_single
        IP_String4_no_colon parseIPv4_String4 parsePort_def)
qed

subsection \<open>Normal addresses\<close>

text \<open>
  A UDP address the wire format can carry: an IPv4 address and a 16-bit port.  \<open>canon\<close> is the
  form in which \<open>ResolveUDPAddr\<close> gives it back.
\<close>

definition wire_addr :: "udp_addr \<Rightarrow> bool" where
  "wire_addr a \<longleftrightarrow> To4 (IP a) \<noteq> [] \<and> 0 \<le> Port a \<and> Port a < 65536"

definition canon :: "udp_addr \<Rightarrow> udp_addr" where
  "canon a = \<lparr>IP = IPv4 (To4 (IP a)), Port = Port a\<rparr>"

lemma wire_addr_To4: "wire_addr a \<Longrightarrow> length (To4 (IP a)) = 4"
  using length_To4 [of "IP a"] by (auto simp: wire_addr_def)

lemma wire_addr_port: "wire_addr a \<Longrightarrow> uint (word_of_int (Port a) :: 16 word) = Port a"
  by (simp add: wire_addr_def unsigned_of_int take_bit_int_eq_self)

lemma canon_idem [simp]: "wire_addr a \<Longrightarrow> canon (canon a) = canon a"
  using wire_addr_To4 [of a] by (simp add: canon_def)

lemma wire_addr_canon [simp]: "wire_addr (canon a) \<longleftrightarrow> wire_addr a"
  using length_To4 [of "IP a"] by (auto simp: wire_addr_def canon_def To4_def IPv4_def v4InV6Prefix_def)

subsection \<open>The programs' address constants\<close>

text \<open>The address constants: where the router and the client listen, and the default server.\<close>

definition RouterAddr :: udp_addr where
  "RouterAddr = \<lparr>IP = IPv4 [127, 0, 0, 1], Port = 3000\<rparr>"

definition ClientAddr :: udp_addr where
  "ClientAddr = \<lparr>IP = IPv4 [127, 0, 0, 1], Port = 55341\<rparr>"

definition ServerAddr :: udp_addr where
  "ServerAddr = \<lparr>IP = IPv4 [127, 0, 0, 1], Port = 8007\<rparr>"

lemma address_constants:
  "ResolveUDPAddr ''127.0.0.1:3000'' = Inr RouterAddr"
  "ResolveUDPAddr ''127.0.0.1:55341'' = Inr ClientAddr"
  "ResolveUDPAddr ''127.0.0.1:8007'' = Inr ServerAddr"
  by (simp_all add: ResolveUDPAddr_def RouterAddr_def ClientAddr_def ServerAddr_def parseIPv4_def
      parse_octet_def parsePort_def is_digit_def digit_val_def)

lemma address_constants_wire [simp]:
  "wire_addr RouterAddr" "wire_addr ClientAddr" "wire_addr ServerAddr"
  "canon RouterAddr = RouterAddr" "canon ClientAddr = ClientAddr" "canon ServerAddr = ServerAddr"
  by (simp_all add: wire_addr_def canon_def RouterAddr_def ClientAddr_def ServerAddr_def)

end
