(* ===== verification/Packet_Wire.thy ===== *)
theory Packet_Wire
  imports Net_Addr
begin

section \<open>The packet and its wire format (lab3/lib/packet.go)\<close>

text \<open>
  \<open>packet\<close> is the struct shared by the client and the server, \<open>Raw\<close> its encoding and
  \<open>ParsePacket\<close> the decoding.  The encoding writes \<open>ToAddr\<close>; the decoding reads the same six
  bytes into \<open>FromAddr\<close>, because the router in between swaps the two.  The contract of a codec
  is the locale \<open>packet_codec\<close>; the router's own copy of the two routines is a second
  interpretation of it (theory Router).
\<close>

subsection \<open>Constants and data\<close>

definition minLen :: nat where "minLen = 11"
definition maxLen :: nat where "maxLen = 1024"
definition MaxPayload :: nat where "MaxPayload = maxLen - minLen"

definition DATA :: byte where "DATA = 0"
definition SYN :: byte where "SYN = 1"
definition ACK :: byte where "ACK = 2"
definition SYNACK :: byte where "SYNACK = 3"
definition FIN :: byte where "FIN = 4"
definition DELIVER :: byte where "DELIVER = 5"

lemmas packet_types = DATA_def SYN_def ACK_def SYNACK_def FIN_def DELIVER_def

lemma packet_types_distinct [simp]:
  "DATA \<noteq> SYN" "DATA \<noteq> ACK" "DATA \<noteq> SYNACK" "DATA \<noteq> DELIVER"
  "SYN \<noteq> DATA" "SYN \<noteq> ACK" "SYN \<noteq> SYNACK" "SYN \<noteq> DELIVER"
  "ACK \<noteq> DATA" "ACK \<noteq> SYN" "ACK \<noteq> SYNACK" "ACK \<noteq> DELIVER"
  "SYNACK \<noteq> DATA" "SYNACK \<noteq> SYN" "SYNACK \<noteq> ACK" "SYNACK \<noteq> DELIVER"
  "DELIVER \<noteq> DATA" "DELIVER \<noteq> SYN" "DELIVER \<noteq> ACK" "DELIVER \<noteq> SYNACK"
  by (simp_all add: packet_types)

lemma lens [simp]: "minLen = 11" "maxLen = 1024" "MaxPayload = 1013"
  by (simp_all add: minLen_def maxLen_def MaxPayload_def)

record packet =
  Type :: byte
  SeqNum :: "32 word"
  ToAddr :: "udp_addr option"
  FromAddr :: "udp_addr option"
  Payload :: bytes

subsection \<open>Encoding and decoding\<close>

definition Raw :: "packet \<Rightarrow> bytes go" where
  "Raw p =
     go_bind (deref (ToAddr p)) (\<lambda>to.
       Inr ([Type p] @ PutUint32 (SeqNum p) @ To4 (IP to) @ PutUint16 (word_of_int (Port to))
            @ Payload p))"

text \<open>The closure \<open>next\<close> of the parser: the next \<open>n\<close> bytes, and the cursor after them.\<close>

definition next_bytes :: "bytes \<Rightarrow> nat \<Rightarrow> nat \<Rightarrow> bytes \<times> nat" where
  "next_bytes data cur n = (take n (drop cur data), cur + n)"

definition too_short :: "bytes \<Rightarrow> string" where
  "too_short data = ''packet is too short: '' @ itoa (length data) @ '' bytes''"

definition too_long :: "bytes \<Rightarrow> string" where
  "too_long data = ''packet is exceeded max length: '' @ itoa (length data) @ '' bytes''"

definition ParsePacket :: "bytes \<Rightarrow> packet option \<times> string option" where
  "ParsePacket data =
     (if length data < minLen then (None, Some (too_short data))
      else if maxLen < length data then (None, Some (too_long data))
      else
        let (t, c1) = next_bytes data 0 1;
            (s, c2) = next_bytes data c1 4;
            (a, c3) = next_bytes data c2 4;
            (pt, c4) = next_bytes data c3 2;
            r = ResolveUDPAddr (addr_string a (BE_Uint16 pt))
        in (Some \<lparr>Type = t ! 0, SeqNum = BE_Uint32 s, ToAddr = None,
                  FromAddr = (case r of Inl _ \<Rightarrow> None | Inr f \<Rightarrow> Some f),
                  Payload = drop c4 data\<rparr>,
            case r of Inl e \<Rightarrow> Some e | Inr _ \<Rightarrow> None))"

lemma Raw_Some:
  "ToAddr p = Some a \<Longrightarrow>
     Raw p = Inr ([Type p] @ PutUint32 (SeqNum p) @ To4 (IP a) @ PutUint16 (word_of_int (Port a))
                  @ Payload p)"
  by (simp add: Raw_def)

lemma Raw_None: "ToAddr p = None \<Longrightarrow> Raw p = Inl Nil_deref"
  by (simp add: Raw_def)

text \<open>A datagram cut into its fields.\<close>

definition frame :: "byte \<Rightarrow> bytes \<Rightarrow> bytes \<Rightarrow> bytes \<Rightarrow> bytes \<Rightarrow> bytes" where
  "frame t s a pt d = [t] @ s @ a @ pt @ d"

lemma split_frame:
  assumes "11 \<le> length data"
  obtains t s a pt d where "data = frame t s a pt d" "length s = 4" "length a = 4" "length pt = 2"
proof -
  define xs where "xs = take 11 data"
  with assms have "length xs = 11" by simp
  then obtain x1 x2 x3 x4 x5 x6 x7 x8 x9 x10 x11 where
    "xs = [x1, x2, x3, x4, x5, x6, x7, x8, x9, x10, x11]"
    by (auto simp: numeral_eq_Suc length_Suc_conv)
  then have "data = frame x1 [x2, x3, x4, x5] [x6, x7, x8, x9] [x10, x11] (drop 11 data)"
    unfolding frame_def xs_def by (metis append_take_drop_id append_Cons append_Nil)
  then show ?thesis by (intro that) auto
qed

lemma length_frame:
  "length s = 4 \<Longrightarrow> length a = 4 \<Longrightarrow> length pt = 2 \<Longrightarrow>
     length (frame t s a pt d) = 11 + length d"
  by (simp add: frame_def)

text \<open>The parser on a datagram given by its fields.\<close>

lemma next_bytes_frame:
  assumes "length s = 4" "length a = 4" "length pt = 2"
  shows "next_bytes (frame t s a pt d) 0 (Suc 0) = ([t], Suc 0)"
    and "next_bytes (frame t s a pt d) (Suc 0) 4 = (s, 5)"
    and "next_bytes (frame t s a pt d) 5 4 = (a, 9)"
    and "next_bytes (frame t s a pt d) 9 2 = (pt, 11)"
    and "drop 11 (frame t s a pt d) = d"
  using assms by (simp_all add: next_bytes_def frame_def)

lemma ParsePacket_frame:
  assumes "length s = 4" "length a = 4" "length pt = 2" "length d \<le> MaxPayload"
  shows "ParsePacket (frame t s a pt d) =
    (Some \<lparr>Type = t, SeqNum = BE_Uint32 s, ToAddr = None,
           FromAddr = Some \<lparr>IP = IPv4 a, Port = int (unat (BE_Uint16 pt))\<rparr>, Payload = d\<rparr>, None)"
  using assms
  by (simp add: ParsePacket_def next_bytes_frame length_frame ResolveUDPAddr_addr_string)

lemma ParsePacket_short: "length data < 11 \<Longrightarrow> ParsePacket data = (None, Some (too_short data))"
  and ParsePacket_long: "1024 < length data \<Longrightarrow> ParsePacket data = (None, Some (too_long data))"
  by (simp_all add: ParsePacket_def)

lemma Raw_frame:
  "ToAddr p = Some a \<Longrightarrow>
     Raw p = Inr (frame (Type p) (PutUint32 (SeqNum p)) (To4 (IP a))
                    (PutUint16 (word_of_int (Port a))) (Payload p))"
  by (simp add: Raw_Some frame_def)

text \<open>Parsing either fails with an error and no packet, or succeeds with a packet and none.\<close>

lemma ParsePacket_cases:
  obtains (bad) e where "ParsePacket data = (None, Some e)" "length data < 11 \<or> 1024 < length data"
  | (ok) t s a pt d where "data = frame t s a pt d" "length s = 4" "length a = 4" "length pt = 2"
      "length d \<le> 1013"
      "ParsePacket data =
        (Some \<lparr>Type = t, SeqNum = BE_Uint32 s, ToAddr = None,
           FromAddr = Some \<lparr>IP = IPv4 a, Port = int (unat (BE_Uint16 pt))\<rparr>, Payload = d\<rparr>, None)"
proof (cases "length data < 11 \<or> 1024 < length data")
  case True
  then show ?thesis using bad ParsePacket_short ParsePacket_long by blast
next
  case False
  then have "11 \<le> length data" by simp
  then obtain t s a pt d where f: "data = frame t s a pt d" "length s = 4" "length a = 4" "length pt = 2"
    by (rule split_frame)
  with False have "length d \<le> MaxPayload" by (simp add: length_frame)
  with f show ?thesis by (intro ok) (simp_all add: ParsePacket_frame)
qed

lemma ParsePacket_Some_take:
  "ParsePacket b = (Some p, None) \<Longrightarrow> take 2048 b = b"
  by (cases b rule: ParsePacket_cases) (auto simp: length_frame)

lemma ParsePacket_FromAddr: "ParsePacket b = (Some p, None) \<Longrightarrow> FromAddr p \<noteq> None"
  by (cases b rule: ParsePacket_cases) auto

lemma ParsePacket_None_iff:
  "fst (ParsePacket data) = None \<longleftrightarrow> length data < 11 \<or> 1024 < length data"
  by (cases data rule: ParsePacket_cases) (auto simp: length_frame)

subsection \<open>What a packet codec promises\<close>

text \<open>
  \<open>out_addr\<close> is the address the encoder writes, \<open>in_addr\<close> the one the decoder fills in, and
  \<open>seen a\<close> how an address \<open>a\<close> that was written is read.
\<close>

locale packet_codec =
  fixes enc :: "packet \<Rightarrow> bytes go"
    and dec :: "bytes \<Rightarrow> packet option \<times> string option"
    and out_addr :: "packet \<Rightarrow> udp_addr option"
    and in_addr :: "packet \<Rightarrow> udp_addr option"
    and seen :: "udp_addr \<Rightarrow> udp_addr"
  assumes enc_nil: "out_addr p = None \<Longrightarrow> enc p = Inl Nil_deref"
    and enc_ok: "out_addr p = Some a \<Longrightarrow> \<exists>b. enc p = Inr b"
    and enc_size: "out_addr p = Some a \<Longrightarrow> wire_addr a \<Longrightarrow> enc p = Inr b \<Longrightarrow>
          length b = minLen + length (Payload p)"
    and enc_dec: "out_addr p = Some a \<Longrightarrow> wire_addr a \<Longrightarrow> length (Payload p) \<le> MaxPayload \<Longrightarrow>
          enc p = Inr b \<Longrightarrow>
          \<exists>q. dec b = (Some q, None) \<and> Type q = Type p \<and> SeqNum q = SeqNum p
              \<and> Payload q = Payload p \<and> in_addr q = Some (seen a)"
    and dec_reject: "fst (dec b) = None \<longleftrightarrow> length b < minLen \<or> maxLen < length b"
    and dec_error: "snd (dec b) = None \<longleftrightarrow> fst (dec b) \<noteq> None"
begin

lemma enc_accepted_iff:
  assumes "out_addr p = Some a" "wire_addr a" "enc p = Inr b"
  shows "fst (dec b) \<noteq> None \<longleftrightarrow> length (Payload p) \<le> MaxPayload"
  using enc_size [OF assms] dec_reject [of b] by (simp add: not_less)

lemma enc_inject:
  assumes "out_addr p = Some a" "wire_addr a" "length (Payload p) \<le> MaxPayload" "enc p = Inr b"
    and "out_addr q = Some a'" "wire_addr a'" "length (Payload q) \<le> MaxPayload" "enc q = Inr b"
  shows "Type p = Type q \<and> SeqNum p = SeqNum q \<and> Payload p = Payload q \<and> seen a = seen a'"
  using enc_dec [OF assms(1-4)] enc_dec [OF assms(5-8)] by auto

end

interpretation lib_codec: packet_codec Raw ParsePacket ToAddr FromAddr canon
proof
  fix p a b
  assume a: "ToAddr p = Some a" "wire_addr a" and b: "Raw p = Inr b"
  then show "length b = minLen + length (Payload p)"
    by (auto simp: Raw_frame length_frame wire_addr_To4)
  assume "length (Payload p) \<le> MaxPayload"
  with a b show "\<exists>q. ParsePacket b = (Some q, None) \<and> Type q = Type p \<and> SeqNum q = SeqNum p
      \<and> Payload q = Payload p \<and> FromAddr q = Some (canon a)"
    by (auto simp: Raw_frame ParsePacket_frame wire_addr_To4 wire_addr_port canon_def)
next
  fix b
  show "fst (ParsePacket b) = None \<longleftrightarrow> length b < minLen \<or> maxLen < length b"
    by (simp add: ParsePacket_None_iff)
  show "snd (ParsePacket b) = None \<longleftrightarrow> fst (ParsePacket b) \<noteq> None"
    by (cases b rule: ParsePacket_cases) auto
qed (auto simp: Raw_def)

subsection \<open>Properties\<close>

text \<open>
  C12. Encoding and decoding: a packet whose destination is an IPv4 address with a 16-bit port and
  whose payload is at most \<open>MaxPayload\<close> bytes is encoded in 11 to 1024 bytes, and parsing them
  gives back its type, sequence number and payload, with the destination (in 16-byte form) as
  \<open>FromAddr\<close>.
\<close>

theorem packet_roundtrip:
  assumes "ToAddr p = Some a" "wire_addr a" "length (Payload p) \<le> MaxPayload"
  shows "\<exists>b. Raw p = Inr b \<and> minLen \<le> length b \<and> length b \<le> maxLen
     \<and> ParsePacket b = (Some \<lparr>Type = Type p, SeqNum = SeqNum p, ToAddr = None,
                               FromAddr = Some (canon a), Payload = Payload p\<rparr>, None)"
  using assms
  by (simp add: Raw_frame ParsePacket_frame wire_addr_To4 wire_addr_port canon_def length_frame)

theorem packet_roundtrip_witness:
  "\<exists>b. Raw \<lparr>Type = SYN, SeqNum = 258, ToAddr = Some \<lparr>IP = [127, 0, 0, 1], Port = 8007\<rparr>,
             FromAddr = None, Payload = [1, 2, 3]\<rparr> = Inr b
     \<and> minLen \<le> length b \<and> length b \<le> maxLen
     \<and> ParsePacket b = (Some \<lparr>Type = SYN, SeqNum = 258, ToAddr = None,
          FromAddr = Some (canon \<lparr>IP = [127, 0, 0, 1], Port = 8007\<rparr>), Payload = [1, 2, 3]\<rparr>, None)"
  using packet_roundtrip [of "\<lparr>Type = SYN, SeqNum = 258,
      ToAddr = Some \<lparr>IP = [127, 0, 0, 1], Port = 8007\<rparr>, FromAddr = None, Payload = [1, 2, 3]\<rparr>"
      "\<lparr>IP = [127, 0, 0, 1], Port = 8007\<rparr>"]
  by (simp add: wire_addr_def)

text \<open>
  Decoding and encoding: every datagram of 11 to 1024 bytes parses, and encoding the packet
  with its \<open>FromAddr\<close> as destination reproduces the datagram byte for byte: nothing is lost
  and no two datagrams parse to the same packet.
\<close>

theorem packet_reencode:
  assumes "minLen \<le> length data" "length data \<le> maxLen"
  shows "\<exists>p. ParsePacket data = (Some p, None) \<and> Raw (p\<lparr>ToAddr := FromAddr p\<rparr>) = Inr data"
proof (cases data rule: ParsePacket_cases)
  case (ok t s a pt d)
  then have "To4 (IPv4 a) = a" "PutUint32 (BE_Uint32 s) = s" "PutUint16 (BE_Uint16 pt) = pt"
    by (simp_all add: PutUint32_Uint32 PutUint16_Uint16)
  with ok show ?thesis by (simp add: Raw_frame)
qed (use assms in auto)

theorem packet_reencode_witness:
  "\<exists>p. ParsePacket (replicate 20 65) = (Some p, None)
     \<and> Raw (p\<lparr>ToAddr := FromAddr p\<rparr>) = Inr (replicate 20 65)"
  by (rule packet_reencode) simp_all

text \<open>
  The errors of the parser: the packet is missing exactly when the datagram is shorter than
  11 or longer than 1024 bytes, an error is returned exactly then, and its text names the length.
\<close>

theorem parse_outcomes:
  "(fst (ParsePacket data) = None) = (length data < minLen \<or> maxLen < length data)
   \<and> snd (ParsePacket data) =
       (if length data < minLen then Some (''packet is too short: '' @ itoa (length data) @ '' bytes'')
        else if maxLen < length data
          then Some (''packet is exceeded max length: '' @ itoa (length data) @ '' bytes'')
        else None)"
  using ParsePacket_short [of data] ParsePacket_long [of data]
  by (cases data rule: ParsePacket_cases) (auto simp: length_frame too_short_def too_long_def)

end
