(* ===== verification/Window.thy ===== *)
theory Window
  imports Packet_Wire
begin

section \<open>Windows (lab3/lib/windownElement.go and the loops over the two windows)\<close>

text \<open>
  A sender window element is a packet with its retransmission timer and the channel its
  acknowledgement arrives on; a receiver window is an array of packet pointers indexed by
  sequence number.  The client and the server contain the same loops over the two arrays
  (\<open>checkForDeliver\<close>, \<open>getPackets\<close>, the body of \<open>retransmission\<close>, the acknowledgement
  branch of \<open>receive\<close>); they are modelled here over the arrays, and the two programs' theories
  apply them to their own fields.
\<close>

definition WindowSize :: nat where "WindowSize = 1024"

lemma WindowSize_simp [simp]: "WindowSize = 1024"
  by (simp add: WindowSize_def)

type_synonym recv_window = "packet option list"

subsection \<open>Sender window elements\<close>

record window_element =
  el_Packet :: "packet option"
  el_Timer :: "timer option"
  el_Ack :: "packet chan"

type_synonym send_window = "window_element option list"

definition NewWindowElement :: "packet \<Rightarrow> window_element" where
  "NewWindowElement p = \<lparr>el_Packet = Some p, el_Timer = Some new_timer, el_Ack = make_chan 1\<rparr>"

text \<open>
  The acknowledgement branch of \<open>receive\<close> on an element that is there: stop the timer and put the
  packet on the channel, once.  A send on the full channel would block; the guard excludes it.
\<close>

definition ack_element :: "packet \<Rightarrow> window_element \<Rightarrow> window_element" where
  "ack_element p w =
     (case el_Timer w of
        None \<Rightarrow> w
      | Some t \<Rightarrow>
          if chan_len (el_Ack w) = 0 then
            (case chan_send p (el_Ack w) of
               None \<Rightarrow> w\<lparr>el_Timer := Some (timer_stop t)\<rparr>
             | Some a \<Rightarrow> w\<lparr>el_Timer := Some (timer_stop t), el_Ack := a\<rparr>)
          else w)"

text \<open>The condition under which \<open>retransmission\<close> resends an element (\<open>Timer.C\<close> of a nil timer
  panics; Go evaluates the conjunction from the left).\<close>

definition must_resend :: "window_element option \<Rightarrow> bool go" where
  "must_resend slot =
     (case slot of
        None \<Rightarrow> Inr False
      | Some w \<Rightarrow>
          if el_Packet w \<noteq> None \<and> chan_len (el_Ack w) = 0
          then go_bind (deref (el_Timer w)) (\<lambda>t. Inr (timer_C t \<noteq> 0))
          else Inr False)"

text \<open>\<open><-Timer.C\<close> and \<open>Timer.Reset\<close>, after the packet was written again.\<close>

definition rearm :: "window_element \<Rightarrow> window_element" where
  "rearm w =
     (case el_Timer w of
        None \<Rightarrow> w
      | Some t \<Rightarrow>
          (case timer_drain t of
             None \<Rightarrow> w
           | Some t' \<Rightarrow> w\<lparr>el_Timer := Some (timer_reset t')\<rparr>))"

definition fire_slot :: "nat \<Rightarrow> send_window \<Rightarrow> send_window" where
  "fire_slot i ws =
     (if i < length ws
      then ws[i := map_option (\<lambda>w. w\<lparr>el_Timer := map_option timer_fire (el_Timer w)\<rparr>) (ws ! i)]
      else ws)"

definition acked :: "window_element \<Rightarrow> bool" where
  "acked w \<longleftrightarrow> chan_len (el_Ack w) \<noteq> 0"

text \<open>Elements as the code makes and changes them: packet and timer there, at most one
  acknowledgement, and the timer of an unacknowledged element either runs or has ticked.\<close>

definition element_ok :: "window_element \<Rightarrow> bool" where
  "element_ok w \<longleftrightarrow>
     el_Packet w \<noteq> None \<and> chan_cap (el_Ack w) = 1 \<and> chan_len (el_Ack w) \<le> 1
     \<and> (\<exists>t. el_Timer w = Some t \<and> timer_C t \<le> 1
          \<and> (\<not> acked w \<longrightarrow> timer_armed t \<noteq> (timer_C t = 1))
          \<and> (acked w \<longrightarrow> \<not> timer_armed t))"

lemma NewWindowElement_ok: "element_ok (NewWindowElement p)"
  by (simp add: element_ok_def NewWindowElement_def new_timer_def acked_def)

lemma ack_element_ok:
  assumes "element_ok w"
  shows "element_ok (ack_element p w)" and "acked (ack_element p w)"
    and "el_Packet (ack_element p w) = el_Packet w"
  using assms
  by (auto simp: element_ok_def ack_element_def acked_def chan_send_def chan_len_def timer_stop_def
      split: option.splits)

lemma rearm_ok:
  assumes "element_ok w" "must_resend (Some w) = Inr True"
  shows "element_ok (rearm w)" and "must_resend (Some (rearm w)) = Inr False"
    and "acked (rearm w) = acked w" and "el_Packet (rearm w) = el_Packet w"
  using assms
  by (auto simp: element_ok_def rearm_def must_resend_def acked_def timer_drain_def timer_reset_def
      split: if_splits)

lemma must_resend_ok:
  assumes "element_ok w"
  shows "must_resend (Some w) = Inr (\<not> acked w \<and> (\<exists>t. el_Timer w = Some t \<and> timer_C t = 1))"
  using assms by (auto simp: element_ok_def must_resend_def acked_def)

lemma fire_element_ok:
  assumes "element_ok w"
  shows "element_ok (w\<lparr>el_Timer := map_option timer_fire (el_Timer w)\<rparr>)"
  using assms by (auto simp: element_ok_def timer_fire_def acked_def)

text \<open>The loop at the end of the server's \<open>send\<close>: is a slot below \<open>n\<close> unacknowledged?\<close>

definition slot_blocks :: "window_element option \<Rightarrow> bool" where
  "slot_blocks slot =
     (case slot of None \<Rightarrow> False | Some w \<Rightarrow> el_Packet w \<noteq> None \<and> chan_len (el_Ack w) = 0)"

fun blocked_below :: "send_window \<Rightarrow> nat \<Rightarrow> bool go" where
  "blocked_below ws 0 = Inr False"
| "blocked_below ws (Suc i) =
     go_bind (blocked_below ws i) (\<lambda>blocked.
     go_bind (go_index ws i) (\<lambda>slot. Inr (blocked \<or> slot_blocks slot)))"

lemma blocked_below_eq:
  "n \<le> length ws \<Longrightarrow> blocked_below ws n = Inr (\<exists>i < n. slot_blocks (ws ! i))"
  by (induction n) (auto simp: less_Suc_eq)

subsection \<open>checkForDeliver\<close>

text \<open>
  The search for the first delivery notice, and the test that no slot from it down to 1 is empty
  (slot 0 is not looked at).  One round of the polling loop returns the new value of
  \<open>deliverSeqNum\<close> and whether the window is ready.
\<close>

fun scan_deliver :: "nat \<Rightarrow> recv_window \<Rightarrow> int" where
  "scan_deliver i [] = -1"
| "scan_deliver i (slot # ws) =
     (case slot of
        Some p \<Rightarrow> if Type p = DELIVER then int i else scan_deliver (Suc i) ws
      | None \<Rightarrow> scan_deliver (Suc i) ws)"

fun filled_down :: "recv_window \<Rightarrow> nat \<Rightarrow> bool go" where
  "filled_down ws 0 = Inr True"
| "filled_down ws (Suc i) =
     go_bind (go_index ws (Suc i)) (\<lambda>slot.
     go_bind (filled_down ws i) (\<lambda>ready. Inr (slot \<noteq> None \<and> ready)))"

definition check_round :: "recv_window \<Rightarrow> int \<Rightarrow> (int \<times> bool) go" where
  "check_round ws d =
     (if d = -1 then Inr (scan_deliver 0 ws, False)
      else go_bind (filled_down ws (nat d)) (\<lambda>ready. Inr (d, ready)))"

subsection \<open>getPackets\<close>

fun collect :: "bytes \<Rightarrow> recv_window \<Rightarrow> bytes go" where
  "collect payload [] = Inr payload"
| "collect payload (slot # ws) =
     go_bind (deref slot) (\<lambda>p.
       let payload' = (if Type p = DATA then payload @ Payload p else payload)
       in if Type p = DELIVER then Inr payload' else collect payload' ws)"

definition window_packets :: "recv_window \<Rightarrow> bytes go" where
  "window_packets ws = collect [] (drop 1 ws)"

subsection \<open>Storing a packet\<close>

definition window_save :: "packet \<Rightarrow> recv_window \<Rightarrow> recv_window go" where
  "window_save p ws =
     go_bind (go_index ws (unat (SeqNum p))) (\<lambda>slot.
       if slot = None then go_store ws (unat (SeqNum p)) (Some p) else Inr ws)"

lemma window_save_eq:
  "window_save p ws =
     (if unat (SeqNum p) < length ws
      then Inr (if ws ! unat (SeqNum p) = None then ws[unat (SeqNum p) := Some p] else ws)
      else Inl Index_range)"
  by (simp add: window_save_def)

text \<open>A slot that is taken is never overwritten; saving twice changes nothing.\<close>

lemma window_save_keeps:
  assumes "window_save p ws = Inr ws'" "i < length ws" "ws ! i = Some q"
  shows "ws' ! i = Some q"
  using assms by (auto simp: window_save_eq nth_list_update split: if_splits)

subsection \<open>Segmentation\<close>

text \<open>The payloads \<open>send\<close> cuts a message into, and the packets of a whole message: the chunks as
  DATA from sequence number \<open>n\<close> on, then the delivery notice.\<close>

function chunks :: "bytes \<Rightarrow> bytes list" where
  "chunks req = (if req = [] then [] else take MaxPayload req # chunks (drop MaxPayload req))"
  by pat_completeness auto
termination
  by (relation "measure length") auto

declare chunks.simps [simp del]

lemma chunks_Nil [simp]: "chunks [] = []"
  by (simp add: chunks.simps)

lemma concat_chunks [simp]: "concat (chunks req) = req"
  by (induction req rule: chunks.induct) (subst chunks.simps, simp)

lemma chunk_size: "c \<in> set (chunks req) \<Longrightarrow> 0 < length c \<and> length c \<le> MaxPayload"
proof (induction req rule: chunks.induct)
  case (1 req)
  then show ?case by (auto simp: chunks.simps [of req] split: if_splits)
qed

lemma length_chunks: "length (chunks req) = (length req + 1012) div 1013"
proof (induction req rule: chunks.induct)
  case (1 req)
  show ?case
  proof (cases "req = []")
    case False
    have "length (chunks req) = Suc ((length req - 1013 + 1012) div 1013)"
      using 1 False by (simp add: chunks.simps [of req])
    also have "\<dots> = (length req + 1012) div 1013"
    proof (cases "length req \<le> 1013")
      case True
      with False have "1013 \<le> length req + 1012" by (cases req) auto
      with True show ?thesis by (simp add: le_div_geq)
    next
      case False
      then show ?thesis by (simp add: le_div_geq)
    qed
    finally show ?thesis .
  qed simp
qed

end
