(* ===== verification/Router.thy ===== *)
theory Router
  imports Packet_Wire Complex_Main "HOL-Library.Signed_Division" "HOL-Library.Multiset"
begin

section \<open>The router (handout/router/source/router.go)\<close>

text \<open>
  The router receives datagrams, drops or forwards them, at once or after a delay, and swaps
  the peer address: it parses the destination out of the datagram and writes the sender in its
  place.  Its state is the atomic counter \<open>queueSize\<close> and the set of running
  \<open>time.AfterFunc\<close> timers; random numbers and the command-line settings are arguments.
\<close>

subsection \<open>Its copy of the packet routines\<close>

type_synonym router_packet = packet

definition router_Raw :: "router_packet \<Rightarrow> bytes go" where
  "router_Raw p =
     go_bind (deref (FromAddr p)) (\<lambda>src.
       Inr ([Type p] @ PutUint32 (SeqNum p) @ To4 (IP src) @ PutUint16 (word_of_int (Port src))
            @ Payload p))"

text \<open>
  The destination is read from the wire; a loopback destination is taken to be on the sender's
  host.  \<open>toAddr.IP\<close> is followed before the error is looked at, so a failed resolution would
  panic (\<open>Inl\<close>); on four bytes and a port it never fails.
\<close>

definition router_parsePacket :: "udp_addr \<Rightarrow> bytes \<Rightarrow> (router_packet option \<times> string option) go" where
  "router_parsePacket src data =
     (if length data < minLen then Inr (None, Some (too_short data))
      else if maxLen < length data then Inr (None, Some (too_long data))
      else
        let (t, c1) = next_bytes data 0 1;
            (s, c2) = next_bytes data c1 4;
            (a, c3) = next_bytes data c2 4;
            (pt, c4) = next_bytes data c3 2;
            r = ResolveUDPAddr (addr_string a (BE_Uint16 pt))
        in (case r of
              Inl e \<Rightarrow> Inl Nil_deref
            | Inr to \<Rightarrow>
                Inr (Some \<lparr>Type = t ! 0, SeqNum = BE_Uint32 s,
                           ToAddr = Some (if IsLoopback (IP to) then to\<lparr>IP := IP src\<rparr> else to),
                           FromAddr = Some src, Payload = drop c4 data\<rparr>,
                     None)))"

definition route_addr :: "udp_addr \<Rightarrow> udp_addr \<Rightarrow> udp_addr" where
  "route_addr src to = (if IsLoopback (IP (canon to)) then (canon to)\<lparr>IP := IP src\<rparr> else canon to)"

lemma router_Raw_frame:
  "FromAddr p = Some a \<Longrightarrow>
     router_Raw p = Inr (frame (Type p) (PutUint32 (SeqNum p)) (To4 (IP a))
                    (PutUint16 (word_of_int (Port a))) (Payload p))"
  by (simp add: router_Raw_def frame_def)

lemma router_parsePacket_frame:
  assumes "length s = 4" "length a = 4" "length pt = 2" "length d \<le> MaxPayload"
  shows "router_parsePacket src (frame t s a pt d) =
    Inr (Some \<lparr>Type = t, SeqNum = BE_Uint32 s,
               ToAddr = Some (route_addr src \<lparr>IP = a, Port = uint (BE_Uint16 pt)\<rparr>),
               FromAddr = Some src, Payload = d\<rparr>, None)"
  using assms
  by (simp add: router_parsePacket_def next_bytes_frame length_frame ResolveUDPAddr_addr_string
      route_addr_def canon_def)

lemma router_parsePacket_cases:
  obtains (bad) e where "router_parsePacket src data = Inr (None, Some e)"
      "length data < 11 \<or> 1024 < length data"
  | (ok) t s a pt d where "data = frame t s a pt d" "length s = 4" "length a = 4" "length pt = 2"
      "length d \<le> 1013"
      "router_parsePacket src data =
        Inr (Some \<lparr>Type = t, SeqNum = BE_Uint32 s,
               ToAddr = Some (route_addr src \<lparr>IP = a, Port = uint (BE_Uint16 pt)\<rparr>),
               FromAddr = Some src, Payload = d\<rparr>, None)"
proof (cases "length data < 11 \<or> 1024 < length data")
  case True
  then show ?thesis using bad by (auto simp: router_parsePacket_def)
next
  case False
  then have "11 \<le> length data" by simp
  then obtain t s a pt d where f: "data = frame t s a pt d" "length s = 4" "length a = 4" "length pt = 2"
    by (rule split_frame)
  with False have "length d \<le> MaxPayload" by (simp add: length_frame)
  with f show ?thesis by (intro ok) (simp_all add: router_parsePacket_frame)
qed

text \<open>What the main loop gets of a datagram: the parse as a pair, when it does not panic.\<close>

definition router_decode :: "udp_addr \<Rightarrow> bytes \<Rightarrow> packet option \<times> string option" where
  "router_decode src data = (case router_parsePacket src data of Inr r \<Rightarrow> r | Inl _ \<Rightarrow> (None, None))"

lemma router_parsePacket_total: "router_parsePacket src data = Inr (router_decode src data)"
  by (cases rule: router_parsePacket_cases [of src data]) (simp_all add: router_decode_def)

interpretation router_codec:
  packet_codec router_Raw "router_decode src" FromAddr ToAddr "route_addr src" for src
proof
  fix p a b
  assume a: "FromAddr p = Some a" "wire_addr a" and b: "router_Raw p = Inr b"
  then show "length b = minLen + length (Payload p)"
    by (auto simp: router_Raw_frame length_frame wire_addr_To4)
  assume "length (Payload p) \<le> MaxPayload"
  with a b show "\<exists>q. router_decode src b = (Some q, None) \<and> Type q = Type p \<and> SeqNum q = SeqNum p
      \<and> Payload q = Payload p \<and> ToAddr q = Some (route_addr src a)"
    by (auto simp: router_Raw_frame router_decode_def router_parsePacket_frame wire_addr_To4
        wire_addr_port route_addr_def canon_def)
next
  fix b
  show "fst (router_decode src b) = None \<longleftrightarrow> length b < minLen \<or> maxLen < length b"
    by (cases rule: router_parsePacket_cases [of src b]) (auto simp: router_decode_def length_frame)
  show "snd (router_decode src b) = None \<longleftrightarrow> fst (router_decode src b) \<noteq> None"
    by (cases rule: router_parsePacket_cases [of src b]) (auto simp: router_decode_def)
qed (auto simp: router_Raw_def)

subsection \<open>Settings and state\<close>

text \<open>
  The flags: \<open>dropRate\<close> is a probability, \<open>maxDelay\<close> a \<open>time.Duration\<close> (64-bit signed).
  \<open>pending\<close> holds the packets whose \<open>AfterFunc\<close> has not run yet, each with its delay.
\<close>

record router_flags =
  dropRate :: rat
  maxDelay :: "64 word"

record router =
  queueSize :: "32 word"
  pending :: "(64 word \<times> router_packet) list"

type_synonym datagram = "bytes \<times> udp_addr"

definition incrQueue :: "router \<Rightarrow> router" where
  "incrQueue r = r\<lparr>queueSize := queueSize r + 1\<rparr>"

definition decrQueue :: "router \<Rightarrow> router" where
  "decrQueue r = r\<lparr>queueSize := queueSize r + (-1)\<rparr>"

definition currQueue :: "router \<Rightarrow> 32 word" where
  "currQueue r = queueSize r"

text \<open>\<open>send\<close>: the counter first, then the write; a write error is only logged.\<close>

definition router_send :: "router_packet \<Rightarrow> router \<Rightarrow> (router \<times> datagram list) go" where
  "router_send p r =
     (let r1 = decrQueue r in
      go_bind (router_Raw p) (\<lambda>b.
      go_bind (deref (ToAddr p)) (\<lambda>to.
        Inr (r1, [(b, to)]))))"

definition router_delay :: "router_flags \<Rightarrow> nat \<Rightarrow> 64 word" where
  "router_delay f k = word_of_int (sint (word_of_nat k * maxDelay f) sdiv 100)"

text \<open>\<open>process\<close>, with the two random numbers it draws: \<open>rand.Float64()\<close> and \<open>rand.Intn(100)\<close>.\<close>

definition router_process ::
    "router_flags \<Rightarrow> rat \<Rightarrow> nat \<Rightarrow> router_packet \<Rightarrow> router \<Rightarrow> (router \<times> datagram list) go" where
  "router_process f u k p r =
     (if u < dropRate f then Inr (r, [])
      else
        let r1 = incrQueue r in
        if sint (maxDelay f) \<le> 0 then router_send p r1
        else Inr (r1\<lparr>pending := pending r1 @ [(router_delay f k, p)]\<rparr>, []))"

text \<open>One round of the main loop, and the run of the function a timer was given.\<close>

definition router_receive ::
    "router_flags \<Rightarrow> rat \<Rightarrow> nat \<Rightarrow> udp_addr \<Rightarrow> bytes \<Rightarrow> router \<Rightarrow> (router \<times> datagram list) go" where
  "router_receive f u k src data r =
     go_bind (router_parsePacket src (take 2048 data)) (\<lambda>(p, err).
       case err of
         Some e \<Rightarrow> Inr (r, [])
       | None \<Rightarrow> go_bind (deref p) (\<lambda>p. router_process f u k p r))"

definition router_fire :: "nat \<Rightarrow> router \<Rightarrow> (router \<times> datagram list) go" where
  "router_fire i r =
     go_bind (go_index (pending r) i) (\<lambda>(d, p).
       router_send p (r\<lparr>pending := take i (pending r) @ drop (Suc i) (pending r)\<rparr>))"

definition router_init :: router where
  "router_init = \<lparr>queueSize = 0, pending = []\<rparr>"

datatype router_event =
    Datagram rat nat udp_addr bytes
  | Timer_runs nat

fun router_step :: "router_flags \<Rightarrow> router_event \<Rightarrow> router \<Rightarrow> (router \<times> datagram list) go" where
  "router_step f (Datagram u k src data) r = router_receive f u k src data r"
| "router_step f (Timer_runs i) r = (if i < length (pending r) then router_fire i r else Inr (r, []))"

fun router_run :: "router_flags \<Rightarrow> router_event list \<Rightarrow> router \<Rightarrow> (router \<times> datagram list) go" where
  "router_run f [] r = Inr (r, [])"
| "router_run f (e # es) r =
     go_bind (router_step f e r) (\<lambda>(r1, out1).
     go_bind (router_run f es r1) (\<lambda>(r2, out2). Inr (r2, out1 @ out2)))"

subsection \<open>Every packet in the router has both its addresses\<close>

definition router_ok :: "router \<Rightarrow> bool" where
  "router_ok r \<longleftrightarrow>
     queueSize r = of_nat (length (pending r))
     \<and> (\<forall>(d, p) \<in> set (pending r). FromAddr p \<noteq> None \<and> ToAddr p \<noteq> None)"

text \<open>The datagram \<open>send\<close> writes for a packet, and the packet an event brings in.\<close>

definition forwarded :: "router_packet \<Rightarrow> datagram" where
  "forwarded p = (case router_Raw p of Inr b \<Rightarrow> (b, the (ToAddr p)) | Inl _ \<Rightarrow> ([], the (ToAddr p)))"

definition accepted :: "router_flags \<Rightarrow> router_event \<Rightarrow> router_packet option" where
  "accepted f e =
     (case e of
        Datagram u k src data \<Rightarrow>
          if u < dropRate f then None else fst (router_decode src (take 2048 data))
      | Timer_runs i \<Rightarrow> None)"

fun accepted_packets :: "router_flags \<Rightarrow> router_event list \<Rightarrow> router_packet list" where
  "accepted_packets f [] = []"
| "accepted_packets f (e # es) =
     (case accepted f e of None \<Rightarrow> accepted_packets f es | Some p \<Rightarrow> p # accepted_packets f es)"

definition in_router :: "router \<Rightarrow> datagram multiset" where
  "in_router r = mset (map (\<lambda>(d, p). forwarded p) (pending r))"

lemma router_init_ok [simp]: "router_ok router_init" "in_router router_init = {#}"
  by (simp_all add: router_ok_def router_init_def in_router_def)

lemma router_send_ok:
  assumes "FromAddr p \<noteq> None" "ToAddr p \<noteq> None"
  shows "router_send p r = Inr (decrQueue r, [forwarded p])"
  using assms by (auto simp: router_send_def forwarded_def router_Raw_def)

lemma decr_incr [simp]: "decrQueue (incrQueue r) = r"
  by (simp add: decrQueue_def incrQueue_def)

lemma router_decode_addrs:
  assumes "fst (router_decode src data) = Some p"
  shows "FromAddr p = Some src \<and> ToAddr p \<noteq> None \<and> snd (router_decode src data) = None"
  using assms
  by (cases rule: router_parsePacket_cases [of src data]) (auto simp: router_decode_def)

lemma router_process_ok:
  assumes "FromAddr p \<noteq> None" "ToAddr p \<noteq> None" "router_ok r" "\<not> u < dropRate f"
  shows "\<exists>r' out. router_process f u k p r = Inr (r', out) \<and> router_ok r'
           \<and> mset out + in_router r' = in_router r + {#forwarded p#}"
proof (cases "sint (maxDelay f) \<le> 0")
  case True
  with assms show ?thesis
    by (auto simp: router_process_def Let_def router_send_ok)
next
  case False
  with assms show ?thesis
    by (auto simp: router_process_def router_ok_def in_router_def incrQueue_def)
qed

lemma router_receive_eq:
  "router_receive f u k src data r =
     (case fst (router_decode src (take 2048 data)) of
        None \<Rightarrow> Inr (r, [])
      | Some p \<Rightarrow> router_process f u k p r)"
proof (cases "fst (router_decode src (take 2048 data))")
  case None
  with router_codec.dec_error [of src "take 2048 data"] show ?thesis
    by (cases "router_decode src (take 2048 data)")
      (auto simp: router_receive_def router_parsePacket_total)
next
  case (Some p)
  with router_decode_addrs [OF Some] show ?thesis
    by (cases "router_decode src (take 2048 data)")
      (auto simp: router_receive_def router_parsePacket_total)
qed

lemma router_fire_ok:
  assumes "router_ok r" "i < length (pending r)"
  shows "\<exists>r' out. router_fire i r = Inr (r', out) \<and> router_ok r'
           \<and> mset out + in_router r' = in_router r"
proof -
  obtain d p where dp: "pending r ! i = (d, p)" by fastforce
  then have "(d, p) \<in> set (pending r)" using assms(2) nth_mem by fastforce
  with assms(1) have p: "FromAddr p \<noteq> None" "ToAddr p \<noteq> None"
    by (auto simp: router_ok_def)
  have split: "pending r = take i (pending r) @ (d, p) # drop (Suc i) (pending r)"
    using assms(2) dp by (metis id_take_nth_drop)
  define rest where "rest = take i (pending r) @ drop (Suc i) (pending r)"
  have len: "length (pending r) = Suc (length rest)"
    and sub: "set rest \<subseteq> set (pending r)"
    and ms: "mset (pending r) = add_mset (d, p) (mset rest)"
    using assms(2) split
    by (auto simp: rest_def dest: in_set_takeD in_set_dropD)
      (metis mset_append union_mset_add_mset_right mset.simps(2))
  have "in_router r = add_mset (forwarded p) (mset (map (\<lambda>(d, p). forwarded p) rest))"
    by (simp add: in_router_def ms)
  with assms p dp len sub show ?thesis
    by (auto simp: router_fire_def router_send_ok router_ok_def in_router_def decrQueue_def
        simp flip: rest_def)
qed

lemma router_step_ok:
  assumes "router_ok r"
  shows "\<exists>r' out. router_step f e r = Inr (r', out) \<and> router_ok r'
           \<and> mset out + in_router r' =
             in_router r + mset (map forwarded (accepted_packets f [e]))"
proof (cases e)
  case (Datagram u k src data)
  show ?thesis
  proof (cases "fst (router_decode src (take 2048 data))")
    case None
    with Datagram assms show ?thesis
      by (simp add: router_receive_eq accepted_def)
  next
    case (Some p)
    note a = router_decode_addrs [OF Some]
    show ?thesis
    proof (cases "u < dropRate f")
      case True
      with Datagram Some assms show ?thesis
        by (simp add: router_receive_eq router_process_def accepted_def)
    next
      case False
      with Datagram Some a assms router_process_ok [of p r u f k] show ?thesis
        by (simp add: router_receive_eq accepted_def)
    qed
  qed
next
  case (Timer_runs i)
  with assms router_fire_ok [of r i] show ?thesis
    by (auto simp: accepted_def)
qed

lemma accepted_packets_Cons:
  "accepted_packets f (e # es) = accepted_packets f [e] @ accepted_packets f es"
  by (simp split: option.splits)

lemma router_run_ok:
  assumes "router_ok r"
  shows "\<exists>r' out. router_run f es r = Inr (r', out) \<and> router_ok r'
           \<and> mset out + in_router r' =
             in_router r + mset (map forwarded (accepted_packets f es))"
  using assms
proof (induction es arbitrary: r)
  case Nil
  then show ?case by simp
next
  case (Cons e es)
  obtain r1 o1 where 1: "router_step f e r = Inr (r1, o1)" "router_ok r1"
    "mset o1 + in_router r1 = in_router r + mset (map forwarded (accepted_packets f [e]))"
    using router_step_ok [OF Cons.prems, of f e] by blast
  obtain r2 o2 where 2: "router_run f es r1 = Inr (r2, o2)" "router_ok r2"
    "mset o2 + in_router r2 = in_router r1 + mset (map forwarded (accepted_packets f es))"
    using Cons.IH [OF 1(2)] by blast
  let ?acc = "\<lambda>es. mset (map forwarded (accepted_packets f es))"
  have "mset (o1 @ o2) + in_router r2 = mset o1 + (in_router r1 + ?acc es)"
    by (simp only: mset_append add.assoc 2(3))
  also have "\<dots> = in_router r + (?acc [e] + ?acc es)"
    by (simp only: 1(3) flip: add.assoc)
  also have "?acc [e] + ?acc es = ?acc (e # es)"
    by (simp only: accepted_packets_Cons [of f e es] map_append mset_append)
  finally have "mset (o1 @ o2) + in_router r2 = in_router r + ?acc (e # es)" .
  with 1 2 show ?case by auto
qed

subsection \<open>Properties\<close>

text \<open>
  C11. The router's accounting: whatever datagrams arrive, from whatever addresses, and in
  whatever order its timers run, the main loop never panics, the counter \<open>queueSize\<close> is the
  number of packets waiting for a timer, and the datagrams written together with the waiting
  ones are exactly the accepted ones, each once (a datagram is accepted when it is well formed
  and not dropped).
\<close>

theorem router_accounting:
  "\<exists>r out. router_run f es router_init = Inr (r, out)
     \<and> queueSize r = of_nat (length (pending r))
     \<and> mset out + in_router r = mset (map forwarded (accepted_packets f es))"
  using router_run_ok [OF router_init_ok(1), of f es] by (auto simp: router_ok_def)

text \<open>
  Immediate delivery, used when \<open>--max-delay\<close> is zero or negative, keeps the order.
\<close>

lemma router_run_immediate:
  assumes "sint (maxDelay f) \<le> 0" "pending r = []" "router_ok r"
  shows "router_run f es r = Inr (r, map forwarded (accepted_packets f es))"
proof (induction es)
  case Nil
  then show ?case by simp
next
  case (Cons e es)
  show ?case
  proof (cases e)
    case (Timer_runs i)
    with Cons assms(2) show ?thesis by (simp add: accepted_def)
  next
    case (Datagram u k src data)
    show ?thesis
    proof (cases "fst (router_decode src (take 2048 data))")
      case None
      with Cons Datagram show ?thesis by (simp add: router_receive_eq accepted_def)
    next
      case (Some p)
      with router_decode_addrs [OF Some] Cons Datagram assms show ?thesis
        by (simp add: router_receive_eq accepted_def router_process_def router_send_ok Let_def)
    qed
  qed
qed

text \<open>
  The comment "if maxDelay 0 or negative, we should guarantee the order" holds: without a
  positive maximum delay nothing ever waits for a timer, and the datagrams written are those
  accepted, in the order in which they arrived.
\<close>

theorem router_keeps_order:
  assumes "sint (maxDelay f) \<le> 0"
  shows "router_run f es router_init = Inr (router_init, map forwarded (accepted_packets f es))"
  by (rule router_run_immediate) (use assms in \<open>simp_all add: router_init_def router_ok_def\<close>)

theorem router_keeps_order_witness:
  "router_run \<lparr>dropRate = 0, maxDelay = 0\<rparr>
     [Datagram 0 0 \<lparr>IP = [127, 0, 0, 1], Port = 9\<rparr> (replicate 11 1)] router_init =
   Inr (router_init, map forwarded (accepted_packets \<lparr>dropRate = 0, maxDelay = 0\<rparr>
     [Datagram 0 0 \<lparr>IP = [127, 0, 0, 1], Port = 9\<rparr> (replicate 11 1)]))"
  by (rule router_keeps_order) simp

text \<open>
  The delay of a packet: with a positive maximum delay small enough that a hundred times it
  fits 64 bits (about 2.9 years), the drawn delay is at least 0 and below the maximum.  (Above
  that, \<open>time.Duration(rand.Intn(100)) * *maxDelay\<close> wraps around.)
\<close>

theorem router_delay_bounds:
  assumes "k < 100" and "0 < sint (maxDelay f)" and "100 * sint (maxDelay f) < 2 ^ 63"
  shows "0 \<le> sint (router_delay f k) \<and> sint (router_delay f k) < sint (maxDelay f)"
proof -
  define m where "m = sint (maxDelay f)"
  have m: "maxDelay f = word_of_int m" by (simp add: m_def)
  have m0: "0 < m" "100 * m < 2 ^ 63" using assms(2,3) by (simp_all only: m_def)
  have k99: "int k * m \<le> 99 * m"
    using assms(1) m0(1) by (intro mult_right_mono) auto
  have km: "0 \<le> int k * m" "int k * m < 2 ^ 63" "int k * m < 100 * m"
    using m0 k99 by (simp, linarith, linarith)
  have prod: "word_of_nat k * maxDelay f = word_of_int (int k * m)"
    by (simp add: m)
  have "signed_take_bit 63 (int k * m) = int k * m"
    using km by (intro signed_take_bit_int_eq_self) auto
  with prod have s: "sint (word_of_nat k * maxDelay f) = int k * m"
    by (simp only: prod signed_of_int) simp
  have q: "(int k * m) sdiv 100 = (int k * m) div 100"
    using km(1) by (simp add: signed_divide_int_def sgn_if)
  have b0: "0 \<le> (int k * m) div 100" "(int k * m) div 100 < m"
  proof -
    have "100 * ((int k * m) div 100) \<le> int k * m"
      using pos_mod_sign [of 100 "int k * m"] mult_div_mod_eq [of 100 "int k * m"] by linarith
    with km(3) show "(int k * m) div 100 < m" by linarith
  qed (use km in simp)
  then have b: "0 \<le> (int k * m) div 100" "(int k * m) div 100 < m" "(int k * m) div 100 < 2 ^ 63"
    using m0 by (simp, simp, linarith)
  then have "signed_take_bit 63 ((int k * m) div 100) = (int k * m) div 100"
    by (intro signed_take_bit_int_eq_self) auto
  then have "sint (router_delay f k) = (int k * m) div 100"
    by (simp only: router_delay_def s q signed_of_int) simp
  with b show ?thesis by (simp add: m_def)
qed

theorem router_delay_bounds_witness:
  "0 \<le> sint (router_delay \<lparr>dropRate = 0, maxDelay = 2000000000\<rparr> 99)
   \<and> sint (router_delay \<lparr>dropRate = 0, maxDelay = 2000000000\<rparr> 99) < 2000000000"
  using router_delay_bounds [of 99 "\<lparr>dropRate = 0, maxDelay = 2000000000\<rparr>"] by simp

text \<open>
  C29. What a hop through the router does to a packet: the bytes a peer at address \<open>src\<close> writes
  with \<open>Raw\<close> for destination \<open>to\<close>, if not dropped and sent at once, leave the router as one
  datagram for \<open>to\<close> (or, for a loopback \<open>to\<close>, that port on the sender's host), and
  \<open>ParsePacket\<close> at the other end reads the same type, sequence number and payload, with the
  sender's address as \<open>FromAddr\<close>.
\<close>

theorem router_hop:
  assumes p: "ToAddr p = Some to" "wire_addr to" "length (Payload p) \<le> MaxPayload"
    and src: "wire_addr src"
    and f: "\<not> u < dropRate f" "sint (maxDelay f) \<le> 0"
  shows "\<exists>b b' q. Raw p = Inr b
     \<and> router_receive f u k src b r = Inr (r, [(b', route_addr src to)])
     \<and> ParsePacket b' = (Some q, None)
     \<and> Type q = Type p \<and> SeqNum q = SeqNum p \<and> Payload q = Payload p
     \<and> FromAddr q = Some (canon src)"
proof -
  obtain b where b: "Raw p = Inr b" using lib_codec.enc_ok [OF p(1)] by blast
  obtain b0 where b0: "b = b0" "length b0 = 11 + length (Payload p)"
    using lib_codec.enc_size [OF p(1,2) b] by simp
  have frame: "b = frame (Type p) (PutUint32 (SeqNum p)) (To4 (IP to))
      (PutUint16 (word_of_int (Port to))) (Payload p)"
    using b p(1) by (simp add: Raw_frame)
  define q where "q = \<lparr>Type = Type p, SeqNum = SeqNum p, ToAddr = Some (route_addr src to),
      FromAddr = Some src, Payload = Payload p\<rparr>"
  have dec: "fst (router_decode src b) = Some q"
    using p by (simp add: frame router_decode_def router_parsePacket_frame wire_addr_To4
        wire_addr_port q_def route_addr_def canon_def)
  have trunc: "take 2048 b = b" using b0 p(3) by simp
  obtain b' where b': "router_Raw q = Inr b'"
    using router_codec.enc_ok [of q src] by (auto simp: q_def)
  have rcv: "router_receive f u k src b r = Inr (r, [(b', route_addr src to)])"
    using dec trunc f b'
    by (simp add: router_receive_eq router_process_def router_send_def Let_def)
      (simp add: q_def)
  have "ParsePacket b' = (Some \<lparr>Type = Type p, SeqNum = SeqNum p, ToAddr = None,
      FromAddr = Some (canon src), Payload = Payload p\<rparr>, None)"
    using b' p(3) src
    by (auto simp: q_def router_Raw_frame ParsePacket_frame wire_addr_To4 wire_addr_port canon_def)
  with b rcv show ?thesis by auto
qed

theorem router_hop_witness:
  "\<exists>b b' q. Raw \<lparr>Type = DATA, SeqNum = 1, ToAddr = Some \<lparr>IP = [10, 0, 0, 2], Port = 8007\<rparr>,
                     FromAddr = None, Payload = [71, 69, 84]\<rparr> = Inr b
     \<and> router_receive \<lparr>dropRate = 0, maxDelay = 0\<rparr> 0 0 \<lparr>IP = [10, 0, 0, 1], Port = 55341\<rparr> b router_init
         = Inr (router_init, [(b', route_addr \<lparr>IP = [10, 0, 0, 1], Port = 55341\<rparr> \<lparr>IP = [10, 0, 0, 2], Port = 8007\<rparr>)])
     \<and> ParsePacket b' = (Some q, None)
     \<and> Type q = DATA \<and> SeqNum q = 1 \<and> Payload q = [71, 69, 84]
     \<and> FromAddr q = Some (canon \<lparr>IP = [10, 0, 0, 1], Port = 55341\<rparr>)"
  using router_hop [of "\<lparr>Type = DATA, SeqNum = 1, ToAddr = Some \<lparr>IP = [10, 0, 0, 2], Port = 8007\<rparr>,
        FromAddr = None, Payload = [71, 69, 84]\<rparr>" "\<lparr>IP = [10, 0, 0, 2], Port = 8007\<rparr>"
      "\<lparr>IP = [10, 0, 0, 1], Port = 55341\<rparr>" 0 "\<lparr>dropRate = 0, maxDelay = 0\<rparr>" 0 router_init]
  by (simp add: wire_addr_def)

end
