(* ===== verification/Transport.thy ===== *)
theory Transport
  imports Window Router
begin

section \<open>Sending and reassembling a message\<close>

text \<open>
  The contracts the two programs share.  \<open>packet_sender\<close> is what \<open>send\<close> needs of \<open>sendPacket\<close>
  and of its loop; \<open>packet_receiver\<close> is what reassembly needs of \<open>receive\<close>; \<open>transfer\<close>
  puts a sender, the router and a receiver in a row.  The client and the server interpret all of
  them, each in both roles (theories Httpc and Httpfs, and the root).
\<close>

subsection \<open>A message as the units that travel\<close>

type_synonym unit_msg = "byte \<times> nat \<times> bytes"

definition units :: "nat \<Rightarrow> bytes \<Rightarrow> unit_msg list" where
  "units n req =
     map (\<lambda>(i, c). (DATA, i, c)) (enumerate n (chunks req))
     @ [(DELIVER, n + length (chunks req), [])]"

definition content :: "packet \<Rightarrow> unit_msg" where
  "content p = (Type p, unat (SeqNum p), Payload p)"

definition packet_of :: "udp_addr option \<Rightarrow> unit_msg \<Rightarrow> packet" where
  "packet_of to u =
     \<lparr>Type = fst u, SeqNum = word_of_nat (fst (snd u)), ToAddr = to, FromAddr = None,
      Payload = snd (snd u)\<rparr>"

lemma length_units [simp]: "length (units n req) = Suc (length (chunks req))"
  by (simp add: units_def)

lemma units_nth:
  "i < length (chunks req) \<Longrightarrow> units n req ! i = (DATA, n + i, chunks req ! i)"
  "units n req ! length (chunks req) = (DELIVER, n + length (chunks req), [])"
  by (simp_all add: units_def nth_append nth_enumerate_eq)

lemma units_nth_any:
  assumes "i < length (units n req)"
  shows "units n req ! i =
    (if i = length (chunks req) then (DELIVER, n + i, []) else (DATA, n + i, chunks req ! i))"
  using assms by (auto simp: units_nth)

lemma in_units:
  assumes "u \<in> set (units n req)"
  obtains i where "i < length (units n req)" "u = units n req ! i" "fst (snd u) = n + i"
  using assms by (auto simp: in_set_conv_nth units_nth_any)

lemma units_payload: "u \<in> set (units n req) \<Longrightarrow> length (snd (snd u)) \<le> MaxPayload"
  using chunk_size [OF nth_mem, of _ req]
  by (force simp: units_def in_set_enumerate_eq less_diff_conv2)

lemma content_packet_of:
  "fst (snd u) < 2 ^ 32 \<Longrightarrow> content (packet_of to u) = u"
  by (cases u) (simp add: content_def packet_of_def unat_of_nat)

subsection \<open>The receiver window and the message\<close>

text \<open>
  A window holds nothing but units of the message, each in its own slot.
\<close>

definition window_agrees :: "bytes \<Rightarrow> recv_window \<Rightarrow> bool" where
  "window_agrees req ws \<longleftrightarrow>
     (\<forall>i p. i < length ws \<longrightarrow> ws ! i = Some p \<longrightarrow> content p \<in> set (units 1 req) \<and> unat (SeqNum p) = i)"

definition window_complete :: "bytes \<Rightarrow> recv_window \<Rightarrow> bool" where
  "window_complete req ws \<longleftrightarrow> (\<forall>i \<in> {1..Suc (length (chunks req))}. ws ! i \<noteq> None)"

lemma window_agrees_empty [simp]: "window_agrees req (replicate n None)"
  by (simp add: window_agrees_def)

lemma window_agrees_slot:
  assumes "window_agrees req ws" "i < length ws" "ws ! i = Some p"
  obtains j where "i = Suc j" "j < length (units 1 req)" "content p = units 1 req ! j"
proof -
  from assms have c: "content p \<in> set (units 1 req)" and s: "unat (SeqNum p) = i"
    by (auto simp: window_agrees_def)
  from c obtain j where j: "j < length (units 1 req)" "content p = units 1 req ! j"
    "fst (snd (content p)) = 1 + j"
    by (rule in_units)
  moreover from j(3) s have "i = Suc j" by (simp add: content_def)
  ultimately show ?thesis using that by blast
qed

lemma window_agrees_types:
  assumes "window_agrees req ws" "i < length ws" "ws ! i = Some p"
  shows "Type p = (if i = Suc (length (chunks req)) then DELIVER else DATA)"
    and "i \<noteq> Suc (length (chunks req)) \<Longrightarrow> Payload p = chunks req ! (i - 1)"
    and "1 \<le> i \<and> i \<le> Suc (length (chunks req))"
proof -
  obtain j where "i = Suc j" "j < length (units 1 req)" "content p = units 1 req ! j"
    using assms by (rule window_agrees_slot)
  then have "Type p = (if i = Suc (length (chunks req)) then DELIVER else DATA)
      \<and> (i \<noteq> Suc (length (chunks req)) \<longrightarrow> Payload p = chunks req ! (i - 1))
      \<and> 1 \<le> i \<and> i \<le> Suc (length (chunks req))"
    by (simp add: content_def units_nth_any split: if_splits)
  then show "Type p = (if i = Suc (length (chunks req)) then DELIVER else DATA)"
    and "i \<noteq> Suc (length (chunks req)) \<Longrightarrow> Payload p = chunks req ! (i - 1)"
    and "1 \<le> i \<and> i \<le> Suc (length (chunks req))"
    by blast+
qed

lemma window_save_agrees:
  assumes "window_agrees req ws" "content p \<in> set (units 1 req)"
    and "window_save p ws = Inr ws'"
  shows "window_agrees req ws'"
  using assms
  by (auto simp: window_agrees_def window_save_eq nth_list_update split: if_splits)

subsection \<open>The polling loop\<close>

lemma scan_deliver_range:
  "scan_deliver i ws = -1 \<or> (\<exists>j < length ws. scan_deliver i ws = int (i + j))"
proof (induction ws arbitrary: i)
  case (Cons slot ws)
  show ?case
  proof (cases "\<exists>p. slot = Some p \<and> Type p = DELIVER")
    case True
    then show ?thesis by (intro disjI2 exI [of _ 0]) auto
  next
    case False
    then have rec: "scan_deliver i (slot # ws) = scan_deliver (Suc i) ws"
      by (auto split: option.splits)
    from Cons.IH [of "Suc i"] consider "scan_deliver (Suc i) ws = -1"
      | j where "j < length ws" "scan_deliver (Suc i) ws = int (Suc i + j)"
      by blast
    then show ?thesis
    proof cases
      case 1
      with rec show ?thesis by simp
    next
      case (2 j)
      with rec show ?thesis by (intro disjI2 exI [of _ "Suc j"]) simp
    qed
  qed
qed simp

lemma scan_deliver_found:
  "scan_deliver i ws = int (i + j) \<Longrightarrow> j < length ws \<Longrightarrow> \<exists>p. ws ! j = Some p \<and> Type p = DELIVER"
proof (induction ws arbitrary: i j)
  case (Cons slot ws)
  show ?case
  proof (cases "\<exists>p. slot = Some p \<and> Type p = DELIVER")
    case True
    with Cons.prems show ?thesis by auto
  next
    case False
    then have rec: "scan_deliver (Suc i) ws = int (i + j)"
      using Cons.prems(1) by (auto split: option.splits if_splits)
    with scan_deliver_range [of "Suc i" ws] obtain j' where j': "j = Suc j'"
      by (cases j) auto
    with Cons.IH [of "Suc i" j'] rec Cons.prems(2) show ?thesis by simp
  qed
qed simp

lemma scan_deliver_None:
  "scan_deliver i ws = -1 \<Longrightarrow> j < length ws \<Longrightarrow> ws ! j = Some p \<Longrightarrow> Type p \<noteq> DELIVER"
proof (induction ws arbitrary: i j)
  case (Cons slot ws)
  then show ?case
    by (cases j) (auto split: option.splits if_splits)
qed simp

lemma filled_down_eq:
  "d < length ws \<Longrightarrow> filled_down ws d = Inr (\<forall>i \<in> {1..d}. ws ! i \<noteq> None)"
proof (induction d)
  case (Suc d)
  have "{1..Suc d} = insert (Suc d) {1..d}" by auto
  with Suc show ?case by simp
qed simp

lemma check_round_first:
  assumes "window_agrees req ws" "Suc (length (chunks req)) < length ws"
  shows "check_round ws (-1) =
    Inr (if ws ! Suc (length (chunks req)) = None then -1 else int (Suc (length (chunks req))), False)"
proof -
  let ?k = "Suc (length (chunks req))"
  show ?thesis
  proof (cases "scan_deliver 0 ws = -1")
    case True
    then have "ws ! ?k = None"
      using assms window_agrees_types(1) [OF assms] scan_deliver_None [OF True assms(2)]
      by (cases "ws ! ?k") auto
    with True show ?thesis by (simp add: check_round_def)
  next
    case False
    then obtain j where j: "j < length ws" "scan_deliver 0 ws = int j"
      using scan_deliver_range [of 0 ws] by auto
    then obtain p where p: "ws ! j = Some p" "Type p = DELIVER"
      using scan_deliver_found [of 0 ws j] by auto
    with window_agrees_types(1) [OF assms(1) j(1) p(1)] have "j = ?k" by (auto split: if_splits)
    with p j show ?thesis by (simp add: check_round_def)
  qed
qed

lemma check_round_second:
  assumes "Suc (length (chunks req)) < length ws"
  shows "check_round ws (int (Suc (length (chunks req)))) =
    Inr (int (Suc (length (chunks req))), window_complete req ws)"
  using assms filled_down_eq [OF assms]
  by (simp add: check_round_def window_complete_def del: filled_down.simps of_nat_Suc)

subsection \<open>Reassembly\<close>

lemma collect_units:
  assumes "\<And>j. j < length cs \<Longrightarrow> \<exists>p. ws ! j = Some p \<and> Type p = DATA \<and> Payload p = cs ! j"
    and "\<exists>p. ws ! length cs = Some p \<and> Type p = DELIVER"
    and "length cs < length ws"
  shows "collect acc ws = Inr (acc @ concat cs)"
  using assms
proof (induction cs arbitrary: ws acc)
  case Nil
  then obtain p ws' where "ws = Some p # ws'" "Type p = DELIVER"
    by (cases ws) auto
  then show ?case by simp
next
  case (Cons c cs)
  then obtain p ws' where ws: "ws = Some p # ws'" "Type p = DATA" "Payload p = c"
    by (cases ws) (use Cons.prems(1) [of 0] in auto)
  have "collect (acc @ c) ws' = Inr ((acc @ c) @ concat cs)"
  proof (rule Cons.IH)
    show "\<exists>q. ws' ! j = Some q \<and> Type q = DATA \<and> Payload q = cs ! j" if "j < length cs" for j
      using Cons.prems(1) [of "Suc j"] that ws by simp
  qed (use Cons.prems ws in auto)
  with ws show ?case by simp
qed

lemma reassembly:
  assumes "window_agrees req ws" "window_complete req ws" "Suc (length (chunks req)) < length ws"
  shows "window_packets ws = Inr req"
proof -
  have slot: "\<exists>p. drop 1 ws ! j = Some p \<and> Type p = (if j = length (chunks req) then DELIVER else DATA)
      \<and> (j \<noteq> length (chunks req) \<longrightarrow> Payload p = chunks req ! j)"
    if "j \<le> length (chunks req)" for j
  proof -
    from that assms(2) obtain p where p: "ws ! Suc j = Some p"
      by (fastforce simp: window_complete_def)
    from that assms(3) have "Suc j < length ws" by simp
    with window_agrees_types(1,2) [OF assms(1) this p] p that assms(3) show ?thesis
      by (auto split: if_splits)
  qed
  have "collect [] (drop 1 ws) = Inr ([] @ concat (chunks req))"
  proof (rule collect_units)
    show "\<exists>p. drop 1 ws ! j = Some p \<and> Type p = DATA \<and> Payload p = chunks req ! j"
      if "j < length (chunks req)" for j
      using slot [of j] that by simp
    show "\<exists>p. drop 1 ws ! length (chunks req) = Some p \<and> Type p = DELIVER"
      using slot [of "length (chunks req)"] by simp
    show "length (chunks req) < length (drop 1 ws)"
      using assms(3) by simp
  qed
  then show ?thesis by (simp add: window_packets_def)
qed

subsection \<open>Sending\<close>

text \<open>The payload \<open>send\<close> cuts out of the request at \<open>startByte\<close>.\<close>

definition send_payload :: "bytes \<Rightarrow> nat \<Rightarrow> bytes" where
  "send_payload req startByte =
     (if startByte + MaxPayload \<ge> length req then drop startByte req
      else take MaxPayload (drop startByte req))"

definition raw_bytes :: "packet \<Rightarrow> bytes" where
  "raw_bytes p = (case Raw p of Inr b \<Rightarrow> b | Inl _ \<Rightarrow> [])"

text \<open>The sender window after the elements of a list of packets were stored from \<open>n\<close> on.\<close>

fun put_elements :: "nat \<Rightarrow> packet list \<Rightarrow> send_window \<Rightarrow> send_window" where
  "put_elements n [] ws = ws"
| "put_elements n (p # ps) ws = put_elements (Suc n) ps (ws[n := Some (NewWindowElement p)])"

lemma length_put_elements [simp]: "length (put_elements n ps ws) = length ws"
  by (induction n ps ws rule: put_elements.induct) auto

lemma put_elements_append:
  "put_elements n (ps @ qs) ws = put_elements (n + length ps) qs (put_elements n ps ws)"
  by (induction n ps ws rule: put_elements.induct) auto

lemma put_elements_nth:
  "i < length ws \<Longrightarrow> put_elements n ps ws ! i =
     (if n \<le> i \<and> i < n + length ps then Some (NewWindowElement (ps ! (i - n))) else ws ! i)"
proof (induction n ps ws rule: put_elements.induct)
  case (2 n p ps ws)
  then have IH: "put_elements n (p # ps) ws ! i =
      (if Suc n \<le> i \<and> i < Suc n + length ps then Some (NewWindowElement (ps ! (i - Suc n)))
       else ws[n := Some (NewWindowElement p)] ! i)"
    by simp
  consider "i < n" | "i = n" | "Suc n \<le> i" by linarith
  then show ?case
  proof cases
    case 3
    then have "i - n = Suc (i - Suc n)" by simp
    with 3 show ?thesis unfolding IH by auto
  qed (use 2(2) IH in auto)
qed auto

lemma unat_small: "k \<le> 2 ^ 31 \<Longrightarrow> unat (word_of_nat k :: 32 word) = k"
  by (simp add: unat_of_nat)

lemma send_payload_chunk:
  "st < length req \<Longrightarrow> chunks (drop st req) = send_payload req st # chunks (drop (st + MaxPayload) req)"
  by (subst chunks.simps) (simp add: send_payload_def add.commute)

lemma raw_bytes_eq: "ToAddr p \<noteq> None \<Longrightarrow> Raw p = Inr (raw_bytes p)"
  by (auto simp: raw_bytes_def Raw_def)

locale packet_sender =
  fixes send_packet :: "packet \<Rightarrow> 's \<Rightarrow> ('s \<times> datagram) go"
    and send_loop :: "bytes \<Rightarrow> nat \<Rightarrow> 's \<times> datagram list \<Rightarrow> ('s \<times> datagram list) go"
    and send_all :: "bytes \<Rightarrow> 's \<Rightarrow> ('s \<times> datagram list) go"
    and seq :: "'s \<Rightarrow> 32 word"
    and swin :: "'s \<Rightarrow> send_window"
    and peer :: "'s \<Rightarrow> udp_addr option"
    and gate :: "'s \<Rightarrow> udp_addr"
    and rest :: "'s \<Rightarrow> 'r"
  assumes send_packet_ok: "ToAddr p \<noteq> None \<Longrightarrow> unat (seq s) < length (swin s) \<Longrightarrow>
      \<exists>s'. send_packet p s = Inr (s', (raw_bytes p, gate s)) \<and> seq s' = seq s + 1
         \<and> swin s' = (swin s)[unat (seq s) := Some (NewWindowElement p)]
         \<and> peer s' = peer s \<and> gate s' = gate s \<and> rest s' = rest s"
    and send_packet_full: "ToAddr p \<noteq> None \<Longrightarrow> length (swin s) \<le> unat (seq s) \<Longrightarrow>
      send_packet p s = Inl Index_range"
    and send_loop_step: "send_loop req st (s, out) =
      (if st < length req then
         go_bind (send_packet \<lparr>Type = DATA, SeqNum = seq s, ToAddr = peer s, FromAddr = None,
                               Payload = send_payload req st\<rparr> s)
           (\<lambda>(s', d). send_loop req (st + MaxPayload) (s', out @ [d]))
       else Inr (s, out))"
    and send_all_eq: "send_all req s =
      go_bind (send_loop req 0 (s, [])) (\<lambda>(s', out).
      go_bind (send_packet \<lparr>Type = DELIVER, SeqNum = seq s', ToAddr = peer s', FromAddr = None,
                            Payload = []\<rparr> s')
        (\<lambda>(s'', d). Inr (s'', out @ [d])))"
begin

lemma send_one:
  assumes "peer s = Some to" "seq s = word_of_nat n" "n < length (swin s)" "length (swin s) \<le> 2 ^ 31"
    "fst (snd u) = n" "p = packet_of (Some to) u"
  shows "\<exists>s'. send_packet p s = Inr (s', (raw_bytes p, gate s)) \<and> seq s' = word_of_nat (Suc n)
     \<and> swin s' = put_elements n [p] (swin s) \<and> peer s' = peer s \<and> gate s' = gate s
     \<and> rest s' = rest s"
proof -
  have n: "unat (seq s) = n" using assms by (simp add: unat_of_nat)
  have "ToAddr p \<noteq> None" using assms(6) by (simp add: packet_of_def)
  moreover have "unat (seq s) < length (swin s)" using assms(3) n by simp
  ultimately obtain s' where "send_packet p s = Inr (s', (raw_bytes p, gate s))" "seq s' = seq s + 1"
    "swin s' = (swin s)[unat (seq s) := Some (NewWindowElement p)]" "peer s' = peer s"
    "gate s' = gate s" "rest s' = rest s"
    using send_packet_ok by blast
  with n assms(2) show ?thesis by (intro exI [of _ s']) (simp add: add.commute)
qed

lemma send_loop_ok:
  assumes "peer s = Some to" "seq s = word_of_nat n" "length (swin s) \<le> 2 ^ 31"
    and "n + length (chunks (drop st req)) \<le> length (swin s)"
    and "ps = map (\<lambda>(i, c). packet_of (Some to) (DATA, i, c)) (enumerate n (chunks (drop st req)))"
  shows "\<exists>s'. send_loop req st (s, out) = Inr (s', out @ map (\<lambda>p. (raw_bytes p, gate s)) ps)
     \<and> seq s' = word_of_nat (n + length (chunks (drop st req)))
     \<and> swin s' = put_elements n ps (swin s) \<and> peer s' = peer s \<and> gate s' = gate s
     \<and> rest s' = rest s"
  using assms
proof (induction "length req - st" arbitrary: st s n out ps rule: less_induct)
  case less
  show ?case
  proof (cases "st < length req")
    case False
    with less.prems show ?thesis by (simp add: send_loop_step)
  next
    case True
    note ch = send_payload_chunk [OF True]
    let ?p = "packet_of (Some to) (DATA, n, send_payload req st)"
    have n: "n < length (swin s)" using less.prems(4) ch by simp
    obtain s1 where s1: "send_packet ?p s = Inr (s1, (raw_bytes ?p, gate s))"
      "seq s1 = word_of_nat (Suc n)" "swin s1 = put_elements n [?p] (swin s)" "peer s1 = peer s"
      "gate s1 = gate s" "rest s1 = rest s"
      using send_one [OF less.prems(1,2) n less.prems(3), of "(DATA, n, send_payload req st)" ?p]
      by auto
    have pre: "peer s1 = Some to" "length (swin s1) \<le> 2 ^ 31"
      "length req - (st + MaxPayload) < length req - st"
      "Suc n + length (chunks (drop (st + MaxPayload) req)) \<le> length (swin s1)"
      "tl ps = map (\<lambda>(i, c). packet_of (Some to) (DATA, i, c))
                (enumerate (Suc n) (chunks (drop (st + MaxPayload) req)))"
      using True less.prems s1(3,4) ch by simp_all
    obtain s2 where s2: "send_loop req (st + MaxPayload) (s1, out @ [(raw_bytes ?p, gate s)]) =
        Inr (s2, (out @ [(raw_bytes ?p, gate s)]) @ map (\<lambda>p. (raw_bytes p, gate s1)) (tl ps))"
      "seq s2 = word_of_nat (Suc n + length (chunks (drop (st + MaxPayload) req)))"
      "swin s2 = put_elements (Suc n) (tl ps) (swin s1)" "peer s2 = peer s1" "gate s2 = gate s1"
      "rest s2 = rest s1"
      using less.hyps [OF pre(3,1) s1(2) pre(2,4,5)] by blast
    have ps: "ps = ?p # tl ps" using less.prems(5) ch by simp
    have eq: "\<lparr>Type = DATA, SeqNum = seq s, ToAddr = peer s, FromAddr = None,
        Payload = send_payload req st\<rparr> = ?p"
      using less.prems(1,2) by (simp add: packet_of_def)
    have "send_loop req st (s, out) =
        send_loop req (st + MaxPayload) (s1, out @ [(raw_bytes ?p, gate s)])"
      using True s1(1) by (subst send_loop_step) (simp add: eq)
    also have "\<dots> = Inr (s2, out @ map (\<lambda>p. (raw_bytes p, gate s)) (?p # tl ps))"
      using s2(1) s1(5) by simp
    finally have "send_loop req st (s, out) = Inr (s2, out @ map (\<lambda>p. (raw_bytes p, gate s)) ps)"
      using ps by simp
    moreover have "swin s2 = put_elements n ps (swin s)"
      using s1(3) s2(3) by (subst ps) simp
    moreover have "seq s2 = word_of_nat (n + length (chunks (drop st req)))"
      using s2(2) ch by simp
    ultimately show ?thesis using s1(4-6) s2(4-6) by auto
  qed
qed

lemma send_loop_overflow:
  assumes "peer s = Some to" "seq s = word_of_nat n" "length (swin s) \<le> 2 ^ 31" "n \<le> length (swin s)"
    and "length (swin s) < n + length (chunks (drop st req))"
  shows "send_loop req st (s, out) = Inl Index_range"
  using assms
proof (induction "length req - st" arbitrary: st s n out rule: less_induct)
  case less
  have True: "st < length req"
    using less.prems(4,5) by (cases "st < length req") auto
  note ch = send_payload_chunk [OF True]
  let ?p = "packet_of (Some to) (DATA, n, send_payload req st)"
  have eq: "\<lparr>Type = DATA, SeqNum = seq s, ToAddr = peer s, FromAddr = None,
      Payload = send_payload req st\<rparr> = ?p"
    using less.prems(1,2) by (simp add: packet_of_def)
  show ?case
  proof (cases "n < length (swin s)")
    case False
    then have "length (swin s) \<le> unat (seq s)" using less.prems by (simp add: unat_of_nat)
    then have "send_packet ?p s = Inl Index_range"
      by (intro send_packet_full) (simp_all add: packet_of_def)
    with True show ?thesis by (subst send_loop_step) (simp add: eq)
  next
    case n: True
    obtain s1 where s1: "send_packet ?p s = Inr (s1, (raw_bytes ?p, gate s))"
      "seq s1 = word_of_nat (Suc n)" "swin s1 = put_elements n [?p] (swin s)" "peer s1 = peer s"
      using send_one [OF less.prems(1,2) n less.prems(3), of "(DATA, n, send_payload req st)" ?p]
      by auto
    have "send_loop req (st + MaxPayload) (s1, out @ [(raw_bytes ?p, gate s)]) = Inl Index_range"
      by (rule less.hyps [of "st + MaxPayload" s1 "Suc n"])
        (use True n less.prems s1(2-4) ch in simp_all)
    with True s1(1) show ?thesis by (subst send_loop_step) (simp add: eq)
  qed
qed

lemma send_all_ok:
  assumes "peer s = Some to" "seq s = word_of_nat n" "length (swin s) \<le> 2 ^ 31"
    and "n + length (chunks req) < length (swin s)"
    and "ps = map (packet_of (Some to)) (units n req)"
  shows "\<exists>s'. send_all req s = Inr (s', map (\<lambda>p. (raw_bytes p, gate s)) ps)
     \<and> seq s' = word_of_nat (n + Suc (length (chunks req)))
     \<and> swin s' = put_elements n ps (swin s) \<and> peer s' = peer s \<and> gate s' = gate s
     \<and> rest s' = rest s"
proof -
  let ?ds = "map (\<lambda>(i, c). packet_of (Some to) (DATA, i, c)) (enumerate n (chunks (drop 0 req)))"
  let ?k = "n + length (chunks req)"
  let ?f = "packet_of (Some to) (DELIVER, ?k, [])"
  obtain s1 where s1: "send_loop req 0 (s, []) = Inr (s1, map (\<lambda>p. (raw_bytes p, gate s)) ?ds)"
    "seq s1 = word_of_nat ?k" "swin s1 = put_elements n ?ds (swin s)" "peer s1 = peer s"
    "gate s1 = gate s" "rest s1 = rest s"
    using send_loop_ok [OF assms(1-3), of 0 req ?ds "[]"] assms(4) by auto
  obtain s2 where s2: "send_packet ?f s1 = Inr (s2, (raw_bytes ?f, gate s1))"
    "seq s2 = word_of_nat (Suc ?k)" "swin s2 = put_elements ?k [?f] (swin s1)" "peer s2 = peer s1"
    "gate s2 = gate s1" "rest s2 = rest s1"
    using send_one [of s1 to ?k "(DELIVER, ?k, [])" ?f] s1 assms by auto
  have eq: "\<lparr>Type = DELIVER, SeqNum = seq s1, ToAddr = peer s1, FromAddr = None, Payload = []\<rparr> = ?f"
    using s1 assms(1) by (simp add: packet_of_def)
  have ps: "ps = ?ds @ [?f]"
    using assms(5) by (simp add: units_def case_prod_unfold comp_def)
  have "send_all req s = Inr (s2, map (\<lambda>p. (raw_bytes p, gate s)) ps)"
    using s1(1,5) s2(1) by (simp add: send_all_eq eq ps)
  moreover have "swin s2 = put_elements n ps (swin s)"
    unfolding ps s2(3) s1(3) by (simp add: put_elements_append)
  ultimately show ?thesis using s1 s2 by simp
qed

lemma send_all_overflow:
  assumes "peer s = Some to" "seq s = word_of_nat n" "length (swin s) \<le> 2 ^ 31" "n \<le> length (swin s)"
    and "length (swin s) \<le> n + length (chunks req)"
  shows "send_all req s = Inl Index_range"
proof (cases "length (swin s) = n + length (chunks req)")
  case False
  with assms show ?thesis by (simp add: send_all_eq send_loop_overflow)
next
  case True
  let ?ds = "map (\<lambda>(i, c). packet_of (Some to) (DATA, i, c)) (enumerate n (chunks (drop 0 req)))"
  obtain s1 where s1: "send_loop req 0 (s, []) = Inr (s1, map (\<lambda>p. (raw_bytes p, gate s)) ?ds)"
    "seq s1 = word_of_nat (n + length (chunks req))" "swin s1 = put_elements n ?ds (swin s)"
    "peer s1 = peer s"
    using send_loop_ok [OF assms(1-3), of 0 req ?ds "[]"] True by auto
  have "unat (seq s1) = n + length (chunks req)"
    unfolding s1(2) using True assms(3) by (intro unat_small) simp
  then have "length (swin s1) \<le> unat (seq s1)"
    using s1(3) True by simp
  then have "send_packet \<lparr>Type = DELIVER, SeqNum = seq s1, ToAddr = peer s1, FromAddr = None,
      Payload = []\<rparr> s1 = Inl Index_range"
    using s1(4) assms(1) by (intro send_packet_full) simp_all
  with s1(1) show ?thesis by (simp add: send_all_eq)
qed

end

subsection \<open>Receiving\<close>

text \<open>A loop whose body writes datagrams, over the values it is given one after the other: the
  receive loop over the datagrams read, the retransmission loop over the slots.\<close>

fun run_all :: "('a \<Rightarrow> 's \<Rightarrow> ('s \<times> datagram list) go) \<Rightarrow> 'a list \<Rightarrow> 's \<Rightarrow> ('s \<times> datagram list) go"
where
  "run_all step [] s = Inr (s, [])"
| "run_all step (x # xs) s =
     go_bind (step x s) (\<lambda>(s1, out1).
     go_bind (run_all step xs s1) (\<lambda>(s2, out2). Inr (s2, out1 @ out2)))"

lemma run_all_append:
  "run_all step (xs @ ys) s =
     go_bind (run_all step xs s) (\<lambda>(s1, out1).
     go_bind (run_all step ys s1) (\<lambda>(s2, out2). Inr (s2, out1 @ out2)))"
proof (induction xs arbitrary: s)
  case Nil
  show ?case by (cases "run_all step ys s") auto
next
  case (Cons x xs)
  show ?case
  proof (cases "step x s")
    case (Inr r)
    then show ?thesis
      by (cases "run_all step xs (fst r)"; cases "run_all step ys (fst (projr (run_all step xs (fst r))))")
        (auto simp: Cons.IH case_prod_unfold)
  qed simp
qed

definition carries :: "bytes \<Rightarrow> unit_msg \<Rightarrow> bool" where
  "carries b u = (case fst (ParsePacket b) of None \<Rightarrow> False | Some q \<Rightarrow> content q = u)"

text \<open>Slot \<open>i\<close> is served by one of the datagrams.\<close>

definition covers :: "bytes \<Rightarrow> bytes list \<Rightarrow> nat \<Rightarrow> bool" where
  "covers req bs i \<longleftrightarrow> (\<exists>b \<in> set bs. \<exists>u \<in> set (units 1 req). carries b u \<and> fst (snd u) = i)"

lemma covers_Nil [simp]: "\<not> covers req [] i"
  by (simp add: covers_def)

lemma carries_unique: "carries b u \<Longrightarrow> carries b u' \<Longrightarrow> u = u'"
  by (auto simp: carries_def split: option.splits)

lemma covers_Cons:
  assumes "u \<in> set (units 1 req)" "carries b u"
  shows "covers req (b # bs) i \<longleftrightarrow> i = fst (snd u) \<or> covers req bs i"
proof -
  have "(\<exists>v \<in> set (units 1 req). carries b v \<and> fst (snd v) = i) \<longleftrightarrow> i = fst (snd u)"
    using assms carries_unique by blast
  then show ?thesis by (simp only: covers_def set_simps bex_simps(5))
qed

lemma units_seq_inject:
  assumes "u \<in> set (units 1 req)" "u' \<in> set (units 1 req)" "fst (snd u) = fst (snd u')"
  shows "u = u'"
proof -
  obtain j where j: "u = units 1 req ! j" "fst (snd u) = 1 + j"
    using assms(1) by (rule in_units)
  obtain j' where j': "u' = units 1 req ! j'" "fst (snd u') = 1 + j'"
    using assms(2) by (rule in_units)
  from j(2) j'(2) assms(3) have "j = j'" by linarith
  with j(1) j'(1) show ?thesis by simp
qed

lemma covers_all_iff:
  "(\<forall>i \<in> {1..Suc (length (chunks req))}. covers req bs i)
    \<longleftrightarrow> (\<forall>u \<in> set (units 1 req). \<exists>b \<in> set bs. carries b u)" (is "?l \<longleftrightarrow> ?r")
proof
  assume l: ?l
  show ?r
  proof
    fix u assume u: "u \<in> set (units 1 req)"
    obtain j where "j < length (units 1 req)" "fst (snd u) = 1 + j"
      using u by (rule in_units)
    then have "fst (snd u) \<in> {1..Suc (length (chunks req))}" by simp
    with l have "covers req bs (fst (snd u))" by blast
    then obtain b u' where "b \<in> set bs" "u' \<in> set (units 1 req)" "carries b u'"
      "fst (snd u') = fst (snd u)"
      unfolding covers_def by blast
    moreover have "u' = u" by (rule units_seq_inject) fact+
    ultimately show "\<exists>b \<in> set bs. carries b u" by blast
  qed
next
  assume r: ?r
  show ?l
  proof
    fix i assume i: "i \<in> {1..Suc (length (chunks req))}"
    then obtain j where "i = 1 + j" by (cases i) auto
    with i have j: "i = 1 + j" "j < length (units 1 req)" by auto
    then have "units 1 req ! j \<in> set (units 1 req)" "fst (snd (units 1 req ! j)) = i"
      using nth_mem [OF j(2)] by (simp_all add: units_nth_any)
    with r show "covers req bs i" unfolding covers_def by blast
  qed
qed

text \<open>Two rounds of \<open>checkForDeliver\<close> on the same window signal the delivery.\<close>

definition polls_ready :: "recv_window \<Rightarrow> bool" where
  "polls_ready ws =
     (case check_round ws (-1) of
        Inl e \<Rightarrow> False
      | Inr (d, _) \<Rightarrow> d \<noteq> -1 \<and> check_round ws d = Inr (d, True))"

lemma polls_ready_iff:
  assumes "window_agrees req ws" "Suc (length (chunks req)) < length ws"
  shows "polls_ready ws \<longleftrightarrow> window_complete req ws"
proof (cases "ws ! Suc (length (chunks req)) = None")
  case True
  then have "\<not> window_complete req ws"
    unfolding window_complete_def by (metis One_nat_def Suc_le_mono atLeastAtMost_iff le_refl zero_le)
  with True assms show ?thesis by (simp add: polls_ready_def check_round_first)
next
  case False
  have "int (Suc (length (chunks req))) \<noteq> -1" by linarith
  with False assms show ?thesis
    by (auto simp: polls_ready_def check_round_first check_round_second simp del: of_nat_Suc)
qed

locale packet_receiver =
  fixes receive :: "bytes \<Rightarrow> 's \<Rightarrow> ('s \<times> datagram list) go"
    and rwin :: "'s \<Rightarrow> recv_window"
    and gate :: "'s \<Rightarrow> udp_addr"
  assumes receive_unit: "ParsePacket b = (Some p, None) \<Longrightarrow> Type p = DATA \<or> Type p = DELIVER \<Longrightarrow>
      unat (SeqNum p) < length (rwin s) \<Longrightarrow>
      \<exists>s'. receive b s =
           Inr (s', [(raw_bytes \<lparr>Type = ACK, SeqNum = SeqNum p, ToAddr = FromAddr p,
                                 FromAddr = None, Payload = []\<rparr>, gate s)])
         \<and> window_save p (rwin s) = Inr (rwin s') \<and> gate s' = gate s"
begin

lemma rx_all_ok:
  assumes "window_agrees req (rwin s)" "Suc (length (chunks req)) < length (rwin s)"
    and "length (rwin s) = WindowSize"
    and "\<forall>b \<in> set bs. \<exists>u \<in> set (units 1 req). carries b u"
  shows "\<exists>s' acks. run_all receive bs s = Inr (s', acks) \<and> length acks = length bs
     \<and> window_agrees req (rwin s') \<and> length (rwin s') = WindowSize
     \<and> (\<forall>i < WindowSize. rwin s' ! i \<noteq> None \<longleftrightarrow>
          rwin s ! i \<noteq> None \<or> covers req bs i)"
  using assms
proof (induction bs arbitrary: s)
  case Nil
  then show ?case by simp
next
  case (Cons b bs)
  from Cons.prems(4) obtain u where u: "u \<in> set (units 1 req)" "carries b u" by auto
  then obtain p where p: "ParsePacket b = (Some p, None)" "content p = u"
    by (cases b rule: ParsePacket_cases) (auto simp: carries_def)
  obtain j where j: "j < length (units 1 req)" "u = units 1 req ! j" "fst (snd u) = 1 + j"
    using u(1) by (rule in_units)
  have seq: "unat (SeqNum p) = fst (snd u)" using p(2) by (auto simp: content_def)
  have lt: "unat (SeqNum p) < length (rwin s)" using seq j Cons.prems(2) by simp
  have ty: "Type p = DATA \<or> Type p = DELIVER"
    using p(2) j(1,2) by (auto simp: content_def units_nth_any split: if_splits)
  obtain s1 a where s1: "receive b s = Inr (s1, [a])" "window_save p (rwin s) = Inr (rwin s1)"
    using receive_unit [OF p(1) ty lt] by blast
  have agr: "window_agrees req (rwin s1)"
    using window_save_agrees [OF Cons.prems(1) _ s1(2)] u(1) p(2) by simp
  have rw: "rwin s1 = (if rwin s ! unat (SeqNum p) = None then (rwin s)[unat (SeqNum p) := Some p] else rwin s)"
    using s1(2) lt by (simp add: window_save_eq split: if_splits)
  then have len: "length (rwin s1) = length (rwin s)" by simp
  have filled: "rwin s1 ! i \<noteq> None \<longleftrightarrow> rwin s ! i \<noteq> None \<or> i = fst (snd u)"
    if "i < WindowSize" for i
    using that Cons.prems(3) by (cases "i = fst (snd u)") (auto simp: rw seq)
  obtain s2 acks where s2: "run_all receive bs s1 = Inr (s2, acks)" "length acks = length bs"
    "window_agrees req (rwin s2)" "length (rwin s2) = WindowSize"
    "\<forall>i < WindowSize. rwin s2 ! i \<noteq> None \<longleftrightarrow>
       rwin s1 ! i \<noteq> None \<or> covers req bs i"
    using Cons.IH [OF agr] Cons.prems len by auto
  have "run_all receive (b # bs) s = Inr (s2, a # acks)"
    using s1(1) s2(1) by simp
  moreover have "\<forall>i < WindowSize. rwin s2 ! i \<noteq> None \<longleftrightarrow> rwin s ! i \<noteq> None \<or> covers req (b # bs) i"
    using s2(5) filled by (simp only: covers_Cons [OF u]) blast
  ultimately show ?case using s2(2-4) by auto
qed

lemma window_from_empty:
  assumes "rwin s = replicate WindowSize None" "Suc (length (chunks req)) < WindowSize"
    and "\<forall>b \<in> set bs. \<exists>u \<in> set (units 1 req). carries b u"
  shows "\<exists>s' acks. run_all receive bs s = Inr (s', acks) \<and> length acks = length bs
     \<and> (polls_ready (rwin s') \<longleftrightarrow> (\<forall>u \<in> set (units 1 req). \<exists>b \<in> set bs. carries b u))
     \<and> (polls_ready (rwin s') \<longrightarrow> window_packets (rwin s') = Inr req)"
proof -
  have "window_agrees req (rwin s)" using assms(1) by simp
  then obtain s' acks where s': "run_all receive bs s = Inr (s', acks)" "length acks = length bs"
    "window_agrees req (rwin s')" "length (rwin s') = WindowSize"
    "\<forall>i < WindowSize. rwin s' ! i \<noteq> None \<longleftrightarrow>
       rwin s ! i \<noteq> None \<or> covers req bs i"
    using rx_all_ok [of req s bs] assms by auto
  have k: "Suc (length (chunks req)) < length (rwin s')" using s'(4) assms(2) by simp
  have "window_complete req (rwin s') \<longleftrightarrow> (\<forall>i \<in> {1..Suc (length (chunks req))}. covers req bs i)"
    unfolding window_complete_def
  proof (rule ball_cong [OF refl])
    fix i assume "i \<in> {1..Suc (length (chunks req))}"
    with assms(2) have "i < WindowSize" by simp
    with s'(5) assms(1) show "rwin s' ! i \<noteq> None \<longleftrightarrow> covers req bs i" by simp
  qed
  then have all: "window_complete req (rwin s') \<longleftrightarrow> (\<forall>u \<in> set (units 1 req). \<exists>b \<in> set bs. carries b u)"
    by (simp only: covers_all_iff)
  show ?thesis
    using s'(1-3) all polls_ready_iff [OF s'(3) k] reassembly [OF s'(3) _ k] by auto
qed

end

subsection \<open>Retransmitting\<close>

text \<open>An element is due when it is unacknowledged and its timer has ticked.\<close>

definition due :: "window_element option \<Rightarrow> bool" where
  "due slot =
     (case slot of
        None \<Rightarrow> False
      | Some w \<Rightarrow> \<not> acked w \<and> (case el_Timer w of None \<Rightarrow> False | Some t \<Rightarrow> timer_C t \<noteq> 0))"

definition resent_slot :: "window_element option \<Rightarrow> window_element option" where
  "resent_slot slot = (if due slot then map_option rearm slot else slot)"

definition resend_of :: "udp_addr \<Rightarrow> window_element option \<Rightarrow> datagram list" where
  "resend_of g slot =
     (case slot of
        None \<Rightarrow> []
      | Some w \<Rightarrow>
          if due slot then (case el_Packet w of None \<Rightarrow> [] | Some p \<Rightarrow> [(raw_bytes p, g)]) else [])"

text \<open>Every element of the window is well formed, with a packet that can be sent.\<close>

definition send_window_ok :: "send_window \<Rightarrow> bool" where
  "send_window_ok ws \<longleftrightarrow>
     (\<forall>w. Some w \<in> set ws \<longrightarrow>
        element_ok w \<and> (case el_Packet w of None \<Rightarrow> False | Some p \<Rightarrow> ToAddr p \<noteq> None))"

lemma send_window_ok_empty [simp]: "send_window_ok (replicate n None)"
  by (simp add: send_window_ok_def)

lemma send_window_ok_slot:
  assumes "send_window_ok ws" "i < length ws" "ws ! i = Some w"
  shows "element_ok w \<and> (\<exists>p. el_Packet w = Some p \<and> ToAddr p \<noteq> None)"
  using assms nth_mem [OF assms(2)]
  by (fastforce simp: send_window_ok_def split: option.splits)

lemma send_window_ok_update:
  assumes "send_window_ok ws" "element_ok w" "el_Packet w = Some p" "ToAddr p \<noteq> None"
  shows "send_window_ok (ws[i := Some w])"
  unfolding send_window_ok_def
proof (intro allI impI)
  fix v assume "Some v \<in> set (ws[i := Some w])"
  then consider "v = w" | "Some v \<in> set ws"
    using set_update_subset_insert [of ws i "Some w"] by auto
  then show "element_ok v \<and> (case el_Packet v of None \<Rightarrow> False | Some p \<Rightarrow> ToAddr p \<noteq> None)"
    using assms by cases (auto simp: send_window_ok_def)
qed

lemma ack_slot_ok:
  assumes "send_window_ok ws" "i < length ws" "ws ! i = Some w"
  shows "send_window_ok (ws[i := Some (ack_element p w)])"
proof -
  from send_window_ok_slot [OF assms] obtain q where "element_ok w" "el_Packet w = Some q" "ToAddr q \<noteq> None"
    by blast
  with ack_element_ok [of w p] assms(1) show ?thesis by (intro send_window_ok_update) auto
qed

lemma send_window_ok_fire:
  assumes "send_window_ok ws"
  shows "send_window_ok (fire_slot i ws)"
proof (cases "i < length ws \<and> ws ! i \<noteq> None")
  case False
  then have "fire_slot i ws = ws" by (auto simp: fire_slot_def list_update_same_conv)
  with assms show ?thesis by simp
next
  case True
  then obtain w where w: "ws ! i = Some w" "i < length ws" by auto
  from send_window_ok_slot [OF assms w(2,1)] obtain p where
    "element_ok w" "el_Packet w = Some p" "ToAddr p \<noteq> None" by blast
  with w assms fire_element_ok [of w] show ?thesis
    by (auto simp: fire_slot_def intro!: send_window_ok_update)
qed

lemma must_resend_due:
  assumes "send_window_ok ws" "i < length ws"
  shows "must_resend (ws ! i) = Inr (due (ws ! i))"
proof (cases "ws ! i")
  case (Some w)
  with send_window_ok_slot [OF assms] have "element_ok w" by blast
  with Some show ?thesis
    by (auto simp: must_resend_ok due_def element_ok_def split: option.splits)
qed (simp add: must_resend_def due_def)

lemma resent_not_due:
  assumes "send_window_ok ws" "i < length ws"
  shows "\<not> due (resent_slot (ws ! i))"
proof (cases "due (ws ! i)")
  case True
  then obtain w where w: "ws ! i = Some w" by (auto simp: due_def split: option.splits)
  with send_window_ok_slot [OF assms w] have e: "element_ok w" by blast
  have "must_resend (Some w) = Inr True" using must_resend_due [OF assms] w True by simp
  note r = rearm_ok [OF e this]
  from r(1,2) must_resend_ok [OF r(1)] have "\<not> due (Some (rearm w))"
    by (auto simp: due_def element_ok_def split: option.splits)
  with True w show ?thesis by (simp add: resent_slot_def)
next
  case False
  then show ?thesis by (simp add: resent_slot_def)
qed

locale retransmitter =
  fixes resend_at :: "nat \<Rightarrow> 's \<Rightarrow> ('s \<times> datagram list) go"
    and swin :: "'s \<Rightarrow> send_window"
    and gate :: "'s \<Rightarrow> udp_addr"
    and rest :: "'s \<Rightarrow> 'r"
  assumes resend_ok: "send_window_ok (swin s) \<Longrightarrow> i < length (swin s) \<Longrightarrow>
      \<exists>s'. resend_at i s = Inr (s', resend_of (gate s) (swin s ! i))
         \<and> swin s' = (swin s)[i := resent_slot (swin s ! i)] \<and> gate s' = gate s \<and> rest s' = rest s"
begin

lemma resent_ok:
  assumes "send_window_ok (swin s)" "i < length (swin s)"
  shows "send_window_ok ((swin s)[i := resent_slot (swin s ! i)])"
proof (cases "swin s ! i")
  case None
  then have "resent_slot (swin s ! i) = swin s ! i" by (simp add: resent_slot_def)
  with assms show ?thesis by simp
next
  case (Some w)
  from send_window_ok_slot [OF assms Some] obtain p
    where w: "element_ok w" "el_Packet w = Some p" "ToAddr p \<noteq> None" by blast
  show ?thesis
  proof (cases "due (Some w)")
    case True
    then have "must_resend (Some w) = Inr True"
      using must_resend_due [OF assms] Some by simp
    with True Some w rearm_ok [OF w(1)] show ?thesis
      by (auto simp: resent_slot_def intro!: send_window_ok_update [OF assms(1), of _ p])
  next
    case False
    with Some have "resent_slot (swin s ! i) = swin s ! i" by (simp add: resent_slot_def)
    with assms show ?thesis by simp
  qed
qed

lemma pass_ok:
  assumes "send_window_ok (swin s)" "n \<le> length (swin s)"
  shows "\<exists>s'. run_all resend_at [0..<n] s =
        Inr (s', concat (map (\<lambda>i. resend_of (gate s) (swin s ! i)) [0..<n]))
     \<and> swin s' = map (\<lambda>i. if i < n then resent_slot (swin s ! i) else swin s ! i) [0..<length (swin s)]
     \<and> send_window_ok (swin s') \<and> gate s' = gate s \<and> rest s' = rest s"
  using assms(2)
proof (induction n)
  case 0
  show ?case using assms(1) by (simp add: map_nth)
next
  case (Suc n)
  then obtain s1 where s1: "run_all resend_at [0..<n] s =
        Inr (s1, concat (map (\<lambda>i. resend_of (gate s) (swin s ! i)) [0..<n]))"
    "swin s1 = map (\<lambda>i. if i < n then resent_slot (swin s ! i) else swin s ! i) [0..<length (swin s)]"
    "send_window_ok (swin s1)" "gate s1 = gate s" "rest s1 = rest s"
    by auto
  have n: "n < length (swin s1)" "swin s1 ! n = swin s ! n" using s1(2) Suc.prems by simp_all
  obtain s2 where s2: "resend_at n s1 = Inr (s2, resend_of (gate s1) (swin s1 ! n))"
    "swin s2 = (swin s1)[n := resent_slot (swin s1 ! n)]" "gate s2 = gate s1" "rest s2 = rest s1"
    using resend_ok [OF s1(3) n(1)] by blast
  have "swin s2 = map (\<lambda>i. if i < Suc n then resent_slot (swin s ! i) else swin s ! i)
      [0..<length (swin s)]"
    unfolding s2(2) n(2)
  proof (rule nth_equalityI)
    fix i assume "i < length ((swin s1)[n := resent_slot (swin s ! n)])"
    then have i: "i < length (swin s)" by (simp add: s1(2))
    then show "(swin s1)[n := resent_slot (swin s ! n)] ! i =
        map (\<lambda>i. if i < Suc n then resent_slot (swin s ! i) else swin s ! i) [0..<length (swin s)] ! i"
      using s1(2) by (cases "i = n") auto
  qed (simp add: s1(2))
  moreover have "send_window_ok (swin s2)"
    unfolding s2(2) by (rule resent_ok [OF s1(3) n(1)])
  moreover have "run_all resend_at [0..<Suc n] s =
      Inr (s2, concat (map (\<lambda>i. resend_of (gate s) (swin s ! i)) [0..<Suc n]))"
    using s1(1,4) s2(1) n(2) by (simp add: run_all_append)
  ultimately show ?case using s1 s2 by auto
qed

end

subsection \<open>A sender, the router, and a receiver\<close>

definition event_from :: "udp_addr \<Rightarrow> bytes set \<Rightarrow> router_event \<Rightarrow> bool" where
  "event_from src sent e =
     (case e of Datagram u k a data \<Rightarrow> a = src \<and> data \<in> sent | Timer_runs i \<Rightarrow> True)"

lemma accepted_packets_from:
  assumes "p \<in> set (accepted_packets f es)" "\<forall>e \<in> set es. event_from src sent e"
  shows "\<exists>data \<in> sent. fst (router_decode src (take 2048 data)) = Some p"
  using assms
  by (induction es) (auto simp: accepted_def event_from_def split: option.splits router_event.splits if_splits)

lemma forward_msg:
  assumes wire: "wire_addr to" "wire_addr src"
    and u: "length (snd (snd u)) \<le> MaxPayload" "fst (snd u) < 2 ^ 32"
  shows "\<exists>p q. fst (router_decode src (take 2048 (raw_bytes (packet_of (Some to) u)))) = Some p
    \<and> FromAddr p = Some src \<and> ToAddr p = Some (route_addr src to)
    \<and> snd (forwarded p) = route_addr src to
    \<and> ParsePacket (fst (forwarded p)) = (Some q, None)
    \<and> content q = u \<and> FromAddr q = Some (canon src)"
proof -
  define r where "r = packet_of (Some to) u"
  have r: "ToAddr r = Some to" "length (Payload r) \<le> MaxPayload" "content r = u"
    unfolding r_def using u content_packet_of by (simp_all add: packet_of_def)
  have raw: "Raw r = Inr (raw_bytes r)" using r(1) by (simp add: raw_bytes_eq)
  have trunc: "take 2048 (raw_bytes r) = raw_bytes r"
    using lib_codec.enc_size [OF r(1) wire(1) raw] r(2) by simp
  have frame: "raw_bytes r = frame (Type r) (PutUint32 (SeqNum r)) (To4 (IP to))
      (PutUint16 (word_of_int (Port to))) (Payload r)"
    using raw r(1) by (simp add: Raw_frame)
  obtain p where dec: "fst (router_decode src (raw_bytes r)) = Some p"
    and p: "FromAddr p = Some src" "content p = u" "length (Payload p) \<le> MaxPayload"
      "ToAddr p = Some (route_addr src to)"
    using r wire
    by (auto simp: frame router_decode_def router_parsePacket_frame wire_addr_To4 content_def
        wire_addr_port route_addr_def canon_def)
  have "fst (forwarded p) = frame (Type p) (PutUint32 (SeqNum p)) (To4 (IP src))
      (PutUint16 (word_of_int (Port src))) (Payload p)" "snd (forwarded p) = route_addr src to"
    using p(1,4) by (simp_all add: forwarded_def router_Raw_frame)
  with p wire dec trunc show ?thesis
    by (auto simp: ParsePacket_frame wire_addr_To4 wire_addr_port content_def canon_def r_def)
qed

lemma unit_seq_bound:
  assumes "u \<in> set (units 1 req)" "Suc (length (chunks req)) < 2 ^ 31"
  shows "fst (snd u) < 2 ^ 32"
  using in_units [OF assms(1)] assms(2) by fastforce

lemma forward_unit:
  assumes wire: "wire_addr to" "wire_addr src"
    and size: "Suc (length (chunks req)) < 2 ^ 31"
    and u: "u \<in> set (units 1 req)"
  shows "\<exists>p. fst (router_decode src (take 2048 (raw_bytes (packet_of (Some to) u)))) = Some p
    \<and> carries (fst (forwarded p)) u"
  using forward_msg [OF wire units_payload [OF u] unit_seq_bound [OF u size]]
  by (auto simp: carries_def)

lemma relayed_unit:
  assumes wire: "wire_addr to" "wire_addr src"
    and size: "Suc (length (chunks req)) < 2 ^ 31"
    and es: "\<forall>e \<in> set es. event_from src (raw_bytes ` packet_of (Some to) ` set (units 1 req)) e"
    and run: "router_run f es router_init = Inr (r, out)"
    and b: "b \<in> fst ` set out"
  shows "\<exists>u \<in> set (units 1 req). carries b u"
proof -
  have "mset out + in_router r = mset (map forwarded (accepted_packets f es))"
    using router_run_ok [OF router_init_ok(1), of f es] run by auto
  then have "set out \<subseteq> set (map forwarded (accepted_packets f es))"
    by (metis mset_subset_eq_add_left set_mset_mono set_mset_mset)
  with b obtain p where p: "p \<in> set (accepted_packets f es)" "b = fst (forwarded p)" by auto
  from accepted_packets_from [OF p(1) es] obtain u where u: "u \<in> set (units 1 req)"
    and dec: "fst (router_decode src (take 2048 (raw_bytes (packet_of (Some to) u)))) = Some p"
    by auto
  with forward_unit [OF wire size u] p(2) show ?thesis by auto
qed

lemma accepted_packets_map:
  assumes "\<not> v < dropRate f"
  shows "accepted_packets f (map (Datagram v k src) bs) =
    concat (map (\<lambda>b. case fst (router_decode src (take 2048 b)) of None \<Rightarrow> [] | Some p \<Rightarrow> [p]) bs)"
  using assms by (induction bs) (auto simp: accepted_def split: option.splits)

locale transfer =
  tx: packet_sender send_packet send_loop send_all seq swin peer tx_gate rest
  + rx: packet_receiver receive rwin rx_gate
  for send_packet send_loop send_all seq swin peer tx_gate rest receive rwin rx_gate
begin

lemma delivery:
  assumes tx: "peer s = Some to" "seq s = 1" "length (swin s) = WindowSize"
    and wire: "wire_addr to" "wire_addr src"
    and size: "length req \<le> 1022 * MaxPayload"
    and sent: "send_all req s = Inr (s', sent)"
    and es: "\<forall>e \<in> set es. event_from src (set (map fst sent)) e"
    and run: "router_run f es router_init = Inr (r, out)"
    and bs: "set bs \<subseteq> fst ` set out"
    and rx: "rwin t = replicate WindowSize None"
  shows "\<exists>t' acks. run_all receive bs t = Inr (t', acks) \<and> length acks = length bs
     \<and> (polls_ready (rwin t') \<longleftrightarrow> (\<forall>u \<in> set (units 1 req). \<exists>b \<in> set bs. carries b u))
     \<and> (polls_ready (rwin t') \<longrightarrow> window_packets (rwin t') = Inr req)"
proof -
  have k: "length (chunks req) \<le> 1022"
    using size by (simp add: length_chunks)
  have "sent = map (\<lambda>p. (raw_bytes p, tx_gate s)) (map (packet_of (Some to)) (units 1 req))"
    using tx.send_all_ok [of s to 1 req] tx k sent by auto
  then have "set (map fst sent) = raw_bytes ` packet_of (Some to) ` set (units 1 req)"
    by (simp add: image_image)
  with es have es': "\<forall>e \<in> set es. event_from src (raw_bytes ` packet_of (Some to) ` set (units 1 req)) e"
    by simp
  from k have "Suc (length (chunks req)) < 2 ^ 31" by simp
  then have "\<forall>b \<in> set bs. \<exists>u \<in> set (units 1 req). carries b u"
    using relayed_unit [OF wire _ es' run] bs by blast
  with rx k show ?thesis by (intro rx.window_from_empty) auto
qed

lemma lossless_delivery:
  assumes tx: "peer s = Some to" "seq s = 1" "length (swin s) = WindowSize"
    and wire: "wire_addr to" "wire_addr src"
    and size: "length req \<le> 1022 * MaxPayload"
    and f: "\<not> v < dropRate f" "sint (maxDelay f) \<le> 0"
    and rx: "rwin t = replicate WindowSize None"
  shows "\<exists>s' sent out t' acks. send_all req s = Inr (s', sent)
     \<and> router_run f (map (Datagram v k src) (map fst sent)) router_init = Inr (router_init, out)
     \<and> run_all receive (map fst out) t = Inr (t', acks)
     \<and> polls_ready (rwin t') \<and> window_packets (rwin t') = Inr req"
proof -
  have k: "length (chunks req) \<le> 1022"
    using size by (simp add: length_chunks)
  let ?ps = "map (packet_of (Some to)) (units 1 req)"
  obtain s' where sent: "send_all req s = Inr (s', map (\<lambda>p. (raw_bytes p, tx_gate s)) ?ps)"
    using tx.send_all_ok [of s to 1 req ?ps] tx k by auto
  let ?bs = "map raw_bytes ?ps"
  let ?es = "map (Datagram v k src) ?bs"
  define out where "out = map forwarded (accepted_packets f ?es)"
  have run: "router_run f ?es router_init = Inr (router_init, out)"
    unfolding out_def by (rule router_run_immediate) (simp_all add: f router_init_def router_ok_def)
  have es: "\<forall>e \<in> set ?es. event_from src (raw_bytes ` packet_of (Some to) ` set (units 1 req)) e"
    by (auto simp: event_from_def)
  from k have k31: "Suc (length (chunks req)) < 2 ^ 31" by simp
  have bs: "\<forall>b \<in> set (map fst out). \<exists>u \<in> set (units 1 req). carries b u"
    using relayed_unit [OF wire k31 es run] by auto
  have all: "\<forall>u \<in> set (units 1 req). \<exists>b \<in> set (map fst out). carries b u"
  proof
    fix u assume u: "u \<in> set (units 1 req)"
    from forward_unit [OF wire k31 u] obtain p where
      p: "fst (router_decode src (take 2048 (raw_bytes (packet_of (Some to) u)))) = Some p"
      "carries (fst (forwarded p)) u" by blast
    have "p \<in> set (accepted_packets f ?es)"
      unfolding accepted_packets_map [OF f(1)] using u p(1) by (auto intro!: bexI [of _ u])
    with p(2) show "\<exists>b \<in> set (map fst out). carries b u"
      by (auto simp: out_def)
  qed
  obtain t' acks where "run_all receive (map fst out) t = Inr (t', acks)"
    "polls_ready (rwin t')" "window_packets (rwin t') = Inr req"
    using rx.window_from_empty [OF rx _ bs] k all by auto
  with sent run show ?thesis by (auto simp: comp_def)
qed

end

end
