(* ===== verification/Httpc.thy ===== *)
theory Httpc
  imports Transport
begin

section \<open>The client's transport (lab3/httpc/httpc.go)\<close>

text \<open>
  The goroutines of the client: \<open>receive\<close>, \<open>retransmission\<close>, \<open>checkForDeliver\<close> and the main
  one, which runs \<open>establishConnection\<close> and \<open>send\<close>.  Every operation takes the client and
  returns the client with the datagrams it wrote to the router.  Log output is left out, and so
  are the errors of \<open>WriteToUDP\<close>, which are only logged.
\<close>

subsection \<open>State\<close>

text \<open>
  \<open>HttpClient\<close> with its \<open>routerAddr\<close> and \<open>serverAddr\<close>, which \<open>main\<close> resolves before it starts any
  goroutine, the package variable \<open>handshakeSYNACKChannel\<close>, and the local variable
  \<open>deliverSeqNum\<close> of the goroutine \<open>checkForDeliver\<close> (\<open>None\<close> once it has returned).
\<close>

record HttpClient =
  c_proto :: string
  c_verbose :: bool
  c_seqNum :: "32 word"
  c_routerAddr :: udp_addr
  c_serverAddr :: "udp_addr option"
  c_receiverWindow :: recv_window
  c_senderWindow :: send_window
  c_deliveryMessage :: "bool chan"
  c_handshakeSYNACKChannel :: "packet chan"
  c_checker :: "int option"

definition initHttpClient :: "bool \<Rightarrow> udp_addr \<Rightarrow> udp_addr \<Rightarrow> HttpClient" where
  "initHttpClient verbose router server =
     \<lparr>c_proto = ''HTTP/1.0'', c_verbose = verbose, c_seqNum = 0,
      c_routerAddr = router, c_serverAddr = Some server,
      c_receiverWindow = replicate WindowSize None,
      c_senderWindow = replicate WindowSize None,
      c_deliveryMessage = make_chan 1, c_handshakeSYNACKChannel = make_chan 1,
      c_checker = Some (-1)\<rparr>"

subsection \<open>The handshake\<close>

definition client_send_syn :: "HttpClient \<Rightarrow> (HttpClient \<times> datagram list) go" where
  "client_send_syn c =
     go_bind (Raw \<lparr>Type = SYN, SeqNum = c_seqNum c, ToAddr = c_serverAddr c, FromAddr = None,
                   Payload = []\<rparr>) (\<lambda>b.
       Inr (c, [(b, c_routerAddr c)]))"

text \<open>The \<open>select\<close>: \<open>None\<close> while the channel is empty (then only the time-out can fire, and the
  loop sends the SYN again), otherwise the connection is established.\<close>

definition client_take_synack :: "HttpClient \<Rightarrow> HttpClient option" where
  "client_take_synack c =
     (case chan_recv (c_handshakeSYNACKChannel c) of
        None \<Rightarrow> None
      | Some (p, ch) \<Rightarrow> Some (c\<lparr>c_handshakeSYNACKChannel := ch, c_seqNum := c_seqNum c + 1\<rparr>))"

subsection \<open>receive\<close>

definition client_on_synack :: "packet \<Rightarrow> HttpClient \<Rightarrow> (HttpClient \<times> datagram list) go" where
  "client_on_synack p c =
     go_bind (Raw \<lparr>Type = ACK, SeqNum = SeqNum p, ToAddr = c_serverAddr c, FromAddr = None,
                   Payload = []\<rparr>) (\<lambda>b.
       Inr (if chan_len (c_handshakeSYNACKChannel c) = 0
            then (case chan_send p (c_handshakeSYNACKChannel c) of
                    None \<Rightarrow> c
                  | Some ch \<Rightarrow> c\<lparr>c_handshakeSYNACKChannel := ch\<rparr>)
            else c, [(b, c_routerAddr c)]))"

definition client_on_ack :: "packet \<Rightarrow> HttpClient \<Rightarrow> (HttpClient \<times> datagram list) go" where
  "client_on_ack p c =
     go_bind (go_index (c_senderWindow c) (unat (SeqNum p))) (\<lambda>slot.
     go_bind (deref slot) (\<lambda>w.
       Inr (c\<lparr>c_senderWindow := (c_senderWindow c)[unat (SeqNum p) := Some (ack_element p w)]\<rparr>, [])))"

definition client_on_data :: "packet \<Rightarrow> HttpClient \<Rightarrow> (HttpClient \<times> datagram list) go" where
  "client_on_data p c =
     go_bind (Raw \<lparr>Type = ACK, SeqNum = SeqNum p, ToAddr = FromAddr p, FromAddr = None,
                   Payload = []\<rparr>) (\<lambda>b.
     go_bind (window_save p (c_receiverWindow c)) (\<lambda>ws.
       Inr (c\<lparr>c_receiverWindow := ws\<rparr>, [(b, c_routerAddr c)])))"

text \<open>
  One round of the loop, on the datagram \<open>ReadFromUDP\<close> copied into the 2048-byte buffer (nothing,
  after a read error).  An error of \<open>ParsePacket\<close> is logged and the loop goes on with the nil
  packet, so the first look at \<open>p.Type\<close> panics.
\<close>

definition UDPBufferSize :: nat where "UDPBufferSize = 2048"

definition client_receive :: "bytes \<Rightarrow> HttpClient \<Rightarrow> (HttpClient \<times> datagram list) go" where
  "client_receive data c =
     go_bind (deref (fst (ParsePacket (take UDPBufferSize data)))) (\<lambda>p.
     go_bind (if Type p = SYNACK then client_on_synack p c else Inr (c, [])) (\<lambda>(c1, out1).
     go_bind (if Type p = ACK then client_on_ack p c1 else Inr (c1, [])) (\<lambda>(c2, out2).
     go_bind (if Type p = DATA \<or> Type p = DELIVER then client_on_data p c2 else Inr (c2, []))
       (\<lambda>(c3, out3). Inr (c3, out1 @ out2 @ out3)))))"

subsection \<open>retransmission\<close>

definition client_resend_at :: "nat \<Rightarrow> HttpClient \<Rightarrow> (HttpClient \<times> datagram list) go" where
  "client_resend_at i c =
     go_bind (go_index (c_senderWindow c) i) (\<lambda>slot.
     go_bind (must_resend slot) (\<lambda>resend.
       if resend then
         go_bind (deref slot) (\<lambda>w.
         go_bind (deref (el_Packet w)) (\<lambda>p.
         go_bind (Raw p) (\<lambda>b.
           Inr (c\<lparr>c_senderWindow := (c_senderWindow c)[i := Some (rearm w)]\<rparr>, [(b, c_routerAddr c)]))))
       else Inr (c, [])))"

definition client_retransmission :: "HttpClient \<Rightarrow> (HttpClient \<times> datagram list) go" where
  "client_retransmission c = run_all client_resend_at [0..<unat (c_seqNum c)] c"

definition client_fire :: "nat \<Rightarrow> HttpClient \<Rightarrow> HttpClient" where
  "client_fire i c = c\<lparr>c_senderWindow := fire_slot i (c_senderWindow c)\<rparr>"

subsection \<open>send\<close>

definition client_sendPacket :: "packet \<Rightarrow> HttpClient \<Rightarrow> (HttpClient \<times> datagram) go" where
  "client_sendPacket p c =
     go_bind (Raw p) (\<lambda>b.
     go_bind (go_store (c_senderWindow c) (unat (c_seqNum c)) (Some (NewWindowElement p))) (\<lambda>ws.
       Inr (c\<lparr>c_senderWindow := ws, c_seqNum := c_seqNum c + 1\<rparr>, (b, c_routerAddr c))))"

function client_send_loop ::
    "bytes \<Rightarrow> nat \<Rightarrow> HttpClient \<times> datagram list \<Rightarrow> (HttpClient \<times> datagram list) go" where
  "client_send_loop req startByte (c, out) =
     (if startByte < length req then
        go_bind (client_sendPacket \<lparr>Type = DATA, SeqNum = c_seqNum c, ToAddr = c_serverAddr c,
                                    FromAddr = None, Payload = send_payload req startByte\<rparr> c)
          (\<lambda>(c', d). client_send_loop req (startByte + MaxPayload) (c', out @ [d]))
      else Inr (c, out))"
  by pat_completeness auto
termination
  by (relation "measure (\<lambda>(req, startByte, _). length req - startByte)") auto

declare client_send_loop.simps [simp del]

definition client_send_packets :: "bytes \<Rightarrow> HttpClient \<Rightarrow> (HttpClient \<times> datagram list) go" where
  "client_send_packets req c =
     go_bind (client_send_loop req 0 (c, [])) (\<lambda>(c', out).
     go_bind (client_sendPacket \<lparr>Type = DELIVER, SeqNum = c_seqNum c', ToAddr = c_serverAddr c',
                                 FromAddr = None, Payload = []\<rparr> c')
       (\<lambda>(c'', d). Inr (c'', out @ [d])))"

subsection \<open>checkForDeliver, getPackets and the end of send\<close>

text \<open>One round of the polling goroutine.  A send on a full channel would block; it then tries
  again from the same state.\<close>

definition client_checkForDeliver :: "HttpClient \<Rightarrow> HttpClient go" where
  "client_checkForDeliver c =
     (case c_checker c of
        None \<Rightarrow> Inr c
      | Some d \<Rightarrow>
          go_bind (check_round (c_receiverWindow c) d) (\<lambda>(d', ready).
            if ready then
              (case chan_send True (c_deliveryMessage c) of
                 None \<Rightarrow> Inr c
               | Some ch \<Rightarrow> Inr (c\<lparr>c_deliveryMessage := ch, c_checker := None\<rparr>))
            else Inr (c\<lparr>c_checker := Some d'\<rparr>)))"

definition client_getPackets :: "HttpClient \<Rightarrow> bytes go" where
  "client_getPackets c = window_packets (c_receiverWindow c)"

text \<open>\<open>send\<close> after its packets are written: \<open>None\<close> while no delivery was signalled.\<close>

definition client_await_response :: "HttpClient \<Rightarrow> (HttpClient \<times> bytes) go option" where
  "client_await_response c =
     (case chan_recv (c_deliveryMessage c) of
        None \<Rightarrow> None
      | Some (b, ch) \<Rightarrow>
          (let c' = c\<lparr>c_deliveryMessage := ch\<rparr>
           in Some (go_bind (client_getPackets c') (\<lambda>rawResp. Inr (c', rawResp)))))"

subsection \<open>The contracts\<close>

lemma client_sendPacket_eq:
  assumes "ToAddr p \<noteq> None"
  shows "client_sendPacket p c =
    (if unat (c_seqNum c) < length (c_senderWindow c)
     then Inr (c\<lparr>c_senderWindow := (c_senderWindow c)[unat (c_seqNum c) := Some (NewWindowElement p)],
                 c_seqNum := c_seqNum c + 1\<rparr>, (raw_bytes p, c_routerAddr c))
     else Inl Index_range)"
  using assms by (simp add: client_sendPacket_def raw_bytes_eq)

interpretation client_tx: packet_sender client_sendPacket client_send_loop client_send_packets
  c_seqNum c_senderWindow c_serverAddr c_routerAddr
  "\<lambda>c. (c_receiverWindow c, c_deliveryMessage c, c_handshakeSYNACKChannel c)"
proof
  fix req st out and c :: HttpClient
  show "client_send_loop req st (c, out) =
      (if st < length req then
         go_bind (client_sendPacket \<lparr>Type = DATA, SeqNum = c_seqNum c, ToAddr = c_serverAddr c,
                                     FromAddr = None, Payload = send_payload req st\<rparr> c)
           (\<lambda>(s', d). client_send_loop req (st + MaxPayload) (s', out @ [d]))
       else Inr (c, out))"
    by (rule client_send_loop.simps)
qed (auto simp: client_sendPacket_eq client_send_packets_def)

interpretation client_rx: packet_receiver client_receive c_receiverWindow c_routerAddr
proof
  fix b p and c :: HttpClient
  assume p: "ParsePacket b = (Some p, None)" and ty: "Type p = DATA \<or> Type p = DELIVER"
    and lt: "unat (SeqNum p) < length (c_receiverWindow c)"
  have "FromAddr p \<noteq> None" using ParsePacket_FromAddr [OF p] .
  with p ty lt ParsePacket_Some_take [OF p]
  show "\<exists>s'. client_receive b c =
           Inr (s', [(raw_bytes \<lparr>Type = ACK, SeqNum = SeqNum p, ToAddr = FromAddr p,
                                 FromAddr = None, Payload = []\<rparr>, c_routerAddr c)])
         \<and> window_save p (c_receiverWindow c) = Inr (c_receiverWindow s')
         \<and> c_routerAddr s' = c_routerAddr c"
    by (auto simp: client_receive_def UDPBufferSize_def client_on_data_def window_save_eq raw_bytes_eq)
qed

interpretation client_rtx: retransmitter client_resend_at c_senderWindow c_routerAddr
  "\<lambda>c. (c_receiverWindow c, c_deliveryMessage c, c_handshakeSYNACKChannel c, c_seqNum c)"
proof
  fix c :: HttpClient and i
  assume ok: "send_window_ok (c_senderWindow c)" and i: "i < length (c_senderWindow c)"
  note m = must_resend_due [OF ok i]
  show "\<exists>s'. client_resend_at i c = Inr (s', resend_of (c_routerAddr c) (c_senderWindow c ! i))
     \<and> c_senderWindow s' = (c_senderWindow c)[i := resent_slot (c_senderWindow c ! i)]
     \<and> c_routerAddr s' = c_routerAddr c
     \<and> (c_receiverWindow s', c_deliveryMessage s', c_handshakeSYNACKChannel s', c_seqNum s')
       = (c_receiverWindow c, c_deliveryMessage c, c_handshakeSYNACKChannel c, c_seqNum c)"
  proof (cases "due (c_senderWindow c ! i)")
    case False
    then have "resend_of (c_routerAddr c) (c_senderWindow c ! i) = []"
      and "resent_slot (c_senderWindow c ! i) = c_senderWindow c ! i"
      by (auto simp: resend_of_def resent_slot_def split: option.splits)
    with False m i show ?thesis by (simp add: client_resend_at_def)
  next
    case True
    then obtain w where w: "c_senderWindow c ! i = Some w" by (auto simp: due_def split: option.splits)
    with send_window_ok_slot [OF ok i w] obtain p where "el_Packet w = Some p" "ToAddr p \<noteq> None"
      by blast
    with True m i w show ?thesis
      by (simp add: client_resend_at_def resend_of_def resent_slot_def raw_bytes_eq)
  qed
qed

subsection \<open>The client's invariant\<close>

text \<open>
  Both windows have \<open>WindowSize\<close> slots, the channels hold at most one item, and what the sender
  window holds can be sent again.
\<close>

definition client_inv :: "HttpClient \<Rightarrow> bool" where
  "client_inv c \<longleftrightarrow>
     length (c_receiverWindow c) = WindowSize \<and> length (c_senderWindow c) = WindowSize
     \<and> send_window_ok (c_senderWindow c)
     \<and> chan_cap (c_deliveryMessage c) = 1 \<and> chan_len (c_deliveryMessage c) \<le> 1
     \<and> chan_cap (c_handshakeSYNACKChannel c) = 1 \<and> chan_len (c_handshakeSYNACKChannel c) \<le> 1
     \<and> c_serverAddr c \<noteq> None"

lemma client_inv_init: "client_inv (initHttpClient v router server)"
  by (simp add: client_inv_def initHttpClient_def)

text \<open>The steps of the client's goroutines; one that panics has no successor.\<close>

inductive client_step :: "HttpClient \<Rightarrow> HttpClient \<Rightarrow> bool" where
  syn: "client_send_syn c = Inr (c', out) \<Longrightarrow> client_step c c'"
| synack: "client_take_synack c = Some c' \<Longrightarrow> client_step c c'"
| rx: "client_receive data c = Inr (c', out) \<Longrightarrow> client_step c c'"
| resend: "client_resend_at i c = Inr (c', out) \<Longrightarrow> client_step c c'"
| tick: "client_step c (client_fire i c)"
| tx: "client_sendPacket p c = Inr (c', d) \<Longrightarrow> client_step c c'"
| check: "client_checkForDeliver c = Inr c' \<Longrightarrow> client_step c c'"
| await: "client_await_response c = Some (Inr (c', raw)) \<Longrightarrow> client_step c c'"

lemma client_inv_on_synack:
  assumes "client_inv c" "client_on_synack p c = Inr (c', out)"
  shows "client_inv c'"
  using assms chan_send_len [of p "c_handshakeSYNACKChannel c"]
  by (auto simp: client_inv_def client_on_synack_def go_bind_Inr_iff split: if_splits option.splits)

lemma client_inv_on_ack:
  assumes "client_inv c" "client_on_ack p c = Inr (c', out)"
  shows "client_inv c'"
proof -
  let ?i = "unat (SeqNum p)"
  from assms(2) obtain w where w: "?i < length (c_senderWindow c)" "c_senderWindow c ! ?i = Some w"
    "c' = c\<lparr>c_senderWindow := (c_senderWindow c)[?i := Some (ack_element p w)]\<rparr>"
    by (cases "c_senderWindow c ! ?i")
      (auto simp: client_on_ack_def go_bind_Inr_iff go_index_def split: if_splits)
  with assms(1) ack_slot_ok [OF _ w(1,2)] show ?thesis by (simp add: client_inv_def)
qed

lemma client_inv_on_data:
  assumes "client_inv c" "client_on_data p c = Inr (c', out)"
  shows "client_inv c'"
  using assms
  by (auto simp: client_inv_def client_on_data_def go_bind_Inr_iff window_save_eq split: if_splits)

lemma client_inv_receive:
  assumes "client_inv c" "client_receive data c = Inr (c', out)"
  shows "client_inv c'"
  using assms
  by (auto simp: client_receive_def go_bind_Inr_iff split: if_splits
      intro: client_inv_on_synack client_inv_on_ack client_inv_on_data)

lemma client_inv_resend:
  assumes "client_inv c" "client_resend_at i c = Inr (c', out)"
  shows "client_inv c'"
proof (cases "i < length (c_senderWindow c)")
  case True
  with assms client_rtx.resend_ok [of c i] client_rtx.resent_ok [of c i]
  obtain c'' where c'': "client_resend_at i c = Inr (c'', resend_of (c_routerAddr c) (c_senderWindow c ! i))"
    "c_senderWindow c'' = (c_senderWindow c)[i := resent_slot (c_senderWindow c ! i)]"
    "send_window_ok (c_senderWindow c'')"
    "(c_receiverWindow c'', c_deliveryMessage c'', c_handshakeSYNACKChannel c'', c_seqNum c'')
       = (c_receiverWindow c, c_deliveryMessage c, c_handshakeSYNACKChannel c, c_seqNum c)"
    by (auto simp: client_inv_def)
  have "c_serverAddr c' = c_serverAddr c"
    using assms(2) by (auto simp: client_resend_at_def go_bind_Inr_iff split: if_splits)
  with assms c'' show ?thesis by (simp add: client_inv_def)
next
  case False
  with assms show ?thesis by (simp add: client_resend_at_def)
qed

lemma client_inv_sendPacket:
  assumes "client_inv c" "client_sendPacket p c = Inr (c', d)"
  shows "client_inv c'"
proof -
  have "ToAddr p \<noteq> None" using assms(2) by (cases "ToAddr p") (auto simp: client_sendPacket_def Raw_def)
  with assms show ?thesis
    by (auto simp: client_sendPacket_eq client_inv_def NewWindowElement_ok NewWindowElement_def
        intro!: send_window_ok_update [of _ _ p] split: if_splits)
      (use NewWindowElement_ok [of p] in \<open>simp add: NewWindowElement_def\<close>)
qed

lemma client_inv_step:
  assumes "client_step c c'" "client_inv c"
  shows "client_inv c'"
  using assms
proof (induction rule: client_step.induct)
  case (syn c c' out)
  then show ?case by (auto simp: client_send_syn_def go_bind_Inr_iff)
next
  case (synack c c')
  then show ?case
    using chan_recv_len [of "c_handshakeSYNACKChannel c"]
    by (fastforce simp: client_take_synack_def client_inv_def split: option.splits)
next
  case (tick c i)
  then show ?case
    using send_window_ok_fire [of "c_senderWindow c" i]
    by (simp add: client_fire_def client_inv_def) (simp add: fire_slot_def)
next
  case (check c c')
  then show ?case
    using chan_send_len [of True "c_deliveryMessage c"]
    by (auto simp: client_checkForDeliver_def client_inv_def go_bind_Inr_iff split: option.splits if_splits)
next
  case (await c c' raw)
  then show ?case
    using chan_recv_len [of "c_deliveryMessage c"]
    by (fastforce simp: client_await_response_def client_inv_def Let_def go_bind_Inr_iff split: option.splits)
qed (auto intro: client_inv_receive client_inv_resend client_inv_sendPacket)

inductive client_reachable :: "HttpClient \<Rightarrow> bool" where
  start: "client_reachable (initHttpClient v router server)"
| step: "client_reachable c \<Longrightarrow> client_step c c' \<Longrightarrow> client_reachable c'"

lemma client_reachable_inv: "client_reachable c \<Longrightarrow> client_inv c"
  by (induction rule: client_reachable.induct) (auto intro: client_inv_init client_inv_step)

text \<open>The receive goroutine never blocks on a channel: where a guard lets a send through, there
  is room.\<close>

lemma client_sends_have_room:
  assumes "client_inv c"
  shows "\<exists>ch. (if chan_len (c_handshakeSYNACKChannel c) = 0
               then chan_send p (c_handshakeSYNACKChannel c)
               else Some (c_handshakeSYNACKChannel c)) = Some ch"
    and "Some w \<in> set (c_senderWindow c) \<Longrightarrow>
       \<exists>ch. (if chan_len (el_Ack w) = 0 then chan_send p (el_Ack w) else Some (el_Ack w)) = Some ch"
proof -
  show "\<exists>ch. (if chan_len (c_handshakeSYNACKChannel c) = 0
               then chan_send p (c_handshakeSYNACKChannel c)
               else Some (c_handshakeSYNACKChannel c)) = Some ch"
    by (rule go_chan.guarded_send_never_blocks) (use assms in \<open>simp add: client_inv_def\<close>)
  assume "Some w \<in> set (c_senderWindow c)"
  with assms have "chan_cap (el_Ack w) = 1"
    by (auto simp: client_inv_def send_window_ok_def element_ok_def)
  then show "\<exists>ch. (if chan_len (el_Ack w) = 0 then chan_send p (el_Ack w) else Some (el_Ack w)) = Some ch"
    by (intro go_chan.guarded_send_never_blocks) simp
qed

subsection \<open>Sample states\<close>

text \<open>A client as \<open>main\<close> makes it, and one that has sent a packet whose timer has ticked.\<close>

definition example_client :: HttpClient where
  "example_client = initHttpClient False RouterAddr ServerAddr"

definition example_packet :: packet where
  "example_packet = \<lparr>Type = DATA, SeqNum = 0, ToAddr = Some ServerAddr, FromAddr = None,
     Payload = [71, 69, 84]\<rparr>"

definition example_sent :: HttpClient where
  "example_sent = client_fire 0 (example_client
     \<lparr>c_senderWindow := (c_senderWindow example_client)[0 := Some (NewWindowElement example_packet)],
      c_seqNum := 1\<rparr>)"

lemma example_client_reachable: "client_reachable example_client"
  unfolding example_client_def by (rule client_reachable.start)

lemma example_sent_reachable: "client_reachable example_sent"
proof -
  have "client_sendPacket example_packet example_client =
    Inr (example_client
     \<lparr>c_senderWindow := (c_senderWindow example_client)[0 := Some (NewWindowElement example_packet)],
      c_seqNum := 1\<rparr>, (raw_bytes example_packet, RouterAddr))"
    by (subst client_sendPacket_eq) (simp_all add: example_packet_def example_client_def initHttpClient_def)
  from client_reachable.step [OF client_reachable.step [OF example_client_reachable
        client_step.tx [OF this]] client_step.tick [of _ 0]]
  show ?thesis by (simp add: example_sent_def)
qed

subsection \<open>Properties\<close>



text \<open>
  C15. What \<open>send\<close> transmits, and its limit.  After the handshake a request of at most
  1022 * 1013 bytes is written as its chunks in DATA packets numbered from 1 on and one DELIVER
  packet, each stored in the sender window under its number; for a longer request \<open>senderWindow\<close>
  is indexed out of range and the client panics.
\<close>

theorem client_send_outcome:
  assumes "c_serverAddr c = Some server" "c_seqNum c = 1" "length (c_senderWindow c) = WindowSize"
  shows "if length req \<le> 1022 * MaxPayload
    then (\<exists>c'. client_send_packets req c =
             Inr (c', map (\<lambda>u. (raw_bytes (packet_of (Some server) u), c_routerAddr c)) (units 1 req))
           \<and> unat (c_seqNum c') = 2 + length (chunks req)
           \<and> (\<forall>i < length (units 1 req). c_senderWindow c' ! (1 + i) =
                Some (NewWindowElement (packet_of (Some server) (units 1 req ! i)))))
    else client_send_packets req c = Inl Index_range"
proof (cases "length req \<le> 1022 * MaxPayload")
  case True
  then have k: "length (chunks req) \<le> 1022" by (simp add: length_chunks)
  let ?ps = "map (packet_of (Some server)) (units 1 req)"
  obtain c' where c': "client_send_packets req c = Inr (c', map (\<lambda>p. (raw_bytes p, c_routerAddr c)) ?ps)"
    "c_seqNum c' = word_of_nat (1 + Suc (length (chunks req)))"
    "c_senderWindow c' = put_elements 1 ?ps (c_senderWindow c)"
    using client_tx.send_all_ok [of c server 1 req ?ps] assms k by auto
  have "unat (c_seqNum c') = 2 + length (chunks req)"
    unfolding c'(2) using k by (subst unat_small) auto
  moreover have "\<forall>i < length (units 1 req). c_senderWindow c' ! (1 + i) =
      Some (NewWindowElement (packet_of (Some server) (units 1 req ! i)))"
    using k assms(3) by (simp add: c'(3) put_elements_nth)
  ultimately show ?thesis using True c'(1) by (simp add: comp_def)
next
  case False
  then have "1023 \<le> length (chunks req)" by (simp add: length_chunks)
  then have "client_send_packets req c = Inl Index_range"
    using assms by (intro client_tx.send_all_overflow [of c server 1]) auto
  with False show ?thesis by simp
qed

theorem client_send_outcome_witness:
  "\<exists>c'. client_send_packets [71, 69, 84] (example_client\<lparr>c_seqNum := 1\<rparr>) =
    Inr (c', map (\<lambda>u. (raw_bytes (packet_of (Some ServerAddr) u), RouterAddr)) (units 1 [71, 69, 84]))"
  using client_send_outcome [of "example_client\<lparr>c_seqNum := 1\<rparr>" ServerAddr "[71, 69, 84]"]
  by (auto simp: example_client_def initHttpClient_def)

text \<open>
  C18. A pass of \<open>retransmission\<close> in any reachable state with at most 1024 sequence numbers used:
  it does not panic, it writes again exactly the packets that are unacknowledged and whose timer
  has ticked, in the order of their numbers, it starts their timers again, so a second pass right
  after it writes nothing, and it leaves every other slot as it was.
\<close>

theorem client_retransmission_exact:
  assumes "client_reachable c" "unat (c_seqNum c) \<le> WindowSize"
  shows "\<exists>c'. client_retransmission c =
        Inr (c', concat (map (\<lambda>i. resend_of (c_routerAddr c) (c_senderWindow c ! i))
                          [0..<unat (c_seqNum c)]))
     \<and> (\<forall>i < WindowSize. c_senderWindow c' ! i =
          (if i < unat (c_seqNum c) then resent_slot (c_senderWindow c ! i) else c_senderWindow c ! i))
     \<and> client_retransmission c' = Inr (c', [])"
proof -
  from client_reachable_inv [OF assms(1)]
  have ok: "send_window_ok (c_senderWindow c)" "length (c_senderWindow c) = WindowSize"
    by (simp_all add: client_inv_def)
  let ?n = "unat (c_seqNum c)"
  obtain c' where c': "client_retransmission c =
      Inr (c', concat (map (\<lambda>i. resend_of (c_routerAddr c) (c_senderWindow c ! i)) [0..<?n]))"
    "c_senderWindow c' = map (\<lambda>i. if i < ?n then resent_slot (c_senderWindow c ! i)
        else c_senderWindow c ! i) [0..<length (c_senderWindow c)]"
    "send_window_ok (c_senderWindow c')" "c_seqNum c' = c_seqNum c"
    using client_rtx.pass_ok [of c ?n] ok assms(2) unfolding client_retransmission_def by auto
  have quiet: "client_resend_at i c' = Inr (c', [])" if "i < ?n" for i
  proof -
    have i: "i < length (c_senderWindow c)" "i < length (c_senderWindow c')"
      using that assms(2) ok(2) c'(2) by simp_all
    have "\<not> due (resent_slot (c_senderWindow c ! i))"
      by (rule resent_not_due [OF ok(1) i(1)])
    then have "\<not> due (c_senderWindow c' ! i)" using that i c'(2) by simp
    with must_resend_due [OF c'(3) i(2)] i(2) show ?thesis
      by (simp add: client_resend_at_def)
  qed
  have "run_all client_resend_at [0..<m] c' = Inr (c', [])" if "m \<le> ?n" for m
    using that by (induction m) (simp_all add: run_all_append quiet)
  then have "client_retransmission c' = Inr (c', [])"
    by (simp add: client_retransmission_def c'(4))
  with c'(1,2) ok(2) show ?thesis by auto
qed

theorem client_retransmission_exact_witness:
  "\<exists>c'. client_retransmission example_sent = Inr (c', [(raw_bytes example_packet, RouterAddr)])
     \<and> client_retransmission c' = Inr (c', [])"
proof -
  have "unat (c_seqNum example_sent) = 1"
    by (simp add: example_sent_def client_fire_def)
  moreover have "c_senderWindow example_sent ! 0 =
      Some (NewWindowElement example_packet\<lparr>el_Timer := Some (timer_fire new_timer)\<rparr>)"
    by (simp add: example_sent_def client_fire_def fire_slot_def example_client_def
        initHttpClient_def NewWindowElement_def)
  moreover have "c_routerAddr example_sent = RouterAddr"
    by (simp add: example_sent_def client_fire_def example_client_def initHttpClient_def)
  ultimately show ?thesis
    using client_retransmission_exact [OF example_sent_reachable]
    by (auto simp: resend_of_def due_def acked_def NewWindowElement_def timer_fire_def new_timer_def)
qed

lemma client_receive_cases:
  assumes "client_reachable c"
  shows "case fst (ParsePacket (take UDPBufferSize data)) of
      None \<Rightarrow> client_receive data c = Inl Nil_deref
    | Some p \<Rightarrow>
        if Type p = ACK \<or> Type p = DATA \<or> Type p = DELIVER then
          (if WindowSize \<le> unat (SeqNum p) then client_receive data c = Inl Index_range
           else if Type p = ACK \<and> c_senderWindow c ! unat (SeqNum p) = None
             then client_receive data c = Inl Nil_deref
           else \<exists>r. client_receive data c = Inr r)
        else \<exists>r. client_receive data c = Inr r"
proof (cases "fst (ParsePacket (take UDPBufferSize data))")
  case None
  then show ?thesis by (simp add: client_receive_def)
next
  case (Some p)
  from client_reachable_inv [OF assms] have inv: "client_inv c" .
  then obtain a where a: "c_serverAddr c = Some a" by (auto simp: client_inv_def)
  have from_addr: "FromAddr p \<noteq> None"
    using Some by (cases "take UDPBufferSize data" rule: ParsePacket_cases) auto
  consider "Type p = ACK" | "Type p = DATA \<or> Type p = DELIVER" | "Type p = SYNACK"
    | "Type p \<noteq> ACK" "Type p \<noteq> DATA" "Type p \<noteq> DELIVER" "Type p \<noteq> SYNACK" by blast
  then show ?thesis
  proof cases
    case 1
    with Some inv show ?thesis
      by (auto simp: client_receive_def client_on_ack_def client_inv_def
          split: option.splits)
  next
    case 2
    with Some inv from_addr show ?thesis
      by (auto simp: client_receive_def client_on_data_def client_inv_def window_save_eq
          raw_bytes_eq)
  next
    case 3
    with Some a show ?thesis
      by (auto simp: client_receive_def client_on_synack_def raw_bytes_eq)
  next
    case 4
    with Some show ?thesis by (simp add: client_receive_def)
  qed
qed

text \<open>
  C16. When \<open>receive\<close> panics: exactly when the datagram does not parse (the error is logged and the
  nil packet used), when an acknowledgement or a data packet carries a sequence number of 1024 or
  more, or when an acknowledgement names a slot of the sender window that is still empty.  Every
  other datagram is handled.
\<close>

theorem client_receive_outcomes:
  assumes "client_reachable c"
  shows "case fst (ParsePacket (take UDPBufferSize data)) of
      None \<Rightarrow> client_receive data c = Inl Nil_deref
    | Some p \<Rightarrow>
        if Type p = ACK \<or> Type p = DATA \<or> Type p = DELIVER then
          (if WindowSize \<le> unat (SeqNum p) then client_receive data c = Inl Index_range
           else if Type p = ACK \<and> c_senderWindow c ! unat (SeqNum p) = None
             then client_receive data c = Inl Nil_deref
           else \<exists>r. client_receive data c = Inr r)
        else \<exists>r. client_receive data c = Inr r"
  using client_receive_cases [OF assms] .

theorem client_receive_outcomes_witness:
  "client_receive [1, 2, 3] example_client = Inl Nil_deref"
  using client_receive_outcomes [OF example_client_reachable, of "[1, 2, 3]"]
  by (simp add: UDPBufferSize_def ParsePacket_short)

text \<open>The steps of the goroutines that run beside the main one.\<close>

inductive client_background :: "HttpClient \<Rightarrow> HttpClient \<Rightarrow> bool" where
  bg_rx: "client_receive data c = Inr (c', out) \<Longrightarrow> client_background c c'"
| bg_resend: "client_resend_at i c = Inr (c', out) \<Longrightarrow> client_background c c'"
| bg_tick: "client_background c (client_fire i c)"
| bg_check: "client_checkForDeliver c = Inr c' \<Longrightarrow> client_background c c'"

lemma client_background_step: "client_background c c' \<Longrightarrow> client_step c c'"
  by (induction rule: client_background.induct) (auto intro: client_step.intros)

definition slot_acked :: "nat \<Rightarrow> send_window \<Rightarrow> bool" where
  "slot_acked i ws \<longleftrightarrow> i < length ws \<and> (\<exists>w. ws ! i = Some w \<and> acked w)"

lemma slot_acked_update:
  "slot_acked i ws \<Longrightarrow> (j = i \<Longrightarrow> acked w) \<Longrightarrow> slot_acked i (ws[j := Some w])"
  by (cases "j = i") (auto simp: slot_acked_def)

lemma client_background_acked:
  assumes "client_background c c'" "client_inv c" "slot_acked i (c_senderWindow c)"
  shows "slot_acked i (c_senderWindow c')"
  using assms
proof (induction rule: client_background.induct)
  case (bg_rx data c c' out)
  obtain p where p: "fst (ParsePacket (take UDPBufferSize data)) = Some p"
    using bg_rx.hyps by (cases "fst (ParsePacket (take UDPBufferSize data))") (auto simp: client_receive_def)
  show ?case
  proof (cases "Type p = ACK")
    case True
    with bg_rx.hyps p obtain w where w: "unat (SeqNum p) < length (c_senderWindow c)"
      "c_senderWindow c ! unat (SeqNum p) = Some w"
      "c' = c\<lparr>c_senderWindow := (c_senderWindow c)[unat (SeqNum p) := Some (ack_element p w)]\<rparr>"
      by (cases "c_senderWindow c ! unat (SeqNum p)")
        (auto simp: client_receive_def client_on_ack_def go_bind_Inr_iff go_index_def split: if_splits)
    have "element_ok w"
      using bg_rx.prems(1) send_window_ok_slot [OF _ w(1,2)] by (simp add: client_inv_def)
    then have "acked (ack_element p w)" by (rule ack_element_ok(2))
    with bg_rx.prems(2) w(3) show ?thesis by (simp add: slot_acked_update)
  next
    case False
    with bg_rx.hyps p have "c_senderWindow c' = c_senderWindow c"
      by (auto simp: client_receive_def client_on_synack_def client_on_data_def go_bind_Inr_iff
          split: if_splits option.splits)
    with bg_rx.prems(2) show ?thesis by simp
  qed
next
  case (bg_resend j c c' out)
  then show ?case
    by (auto simp: client_resend_at_def go_bind_Inr_iff deref_def must_resend_def acked_def
        go_index_def slot_acked_def nth_list_update split: if_splits option.splits)
next
  case (bg_tick c j)
  then show ?case
    by (auto simp: client_fire_def fire_slot_def slot_acked_def nth_list_update acked_def)
next
  case (bg_check c c')
  then show ?case
    by (auto simp: client_checkForDeliver_def go_bind_Inr_iff split: option.splits if_splits)
qed


definition example_ack :: packet where
  "example_ack = \<lparr>Type = ACK, SeqNum = 0, ToAddr = Some ClientAddr, FromAddr = None, Payload = []\<rparr>"


end
