(* ===== verification/Httpfs.thy ===== *)
theory Httpfs
  imports Transport
begin

section \<open>The server's transport (lab3/httpfs/httpfs.go)\<close>

text \<open>
  The goroutines of the server: \<open>receive\<close>, \<open>retransmission\<close>, \<open>checkForDeliver\<close> and the main
  one, which loops over \<open>establishConnection\<close>, the request, \<open>send\<close>, \<open>disconnected\<close> and
  \<open>reset\<close>.  The conventions are those of theory Httpc.
\<close>

subsection \<open>State\<close>

text \<open>
  \<open>HttpServer\<close> with its \<open>routerAddr\<close>, which \<open>main\<close> resolves first, the package variables
  \<open>handshakeSynChannel\<close> and \<open>handshakeAckChannel\<close>, and the local variable \<open>deliverSeqNum\<close> of the
  running \<open>checkForDeliver\<close> (\<open>None\<close> when there is none).  The mutex protects \<open>connect\<close>; its
  critical sections are single steps here.
\<close>

record HttpServer =
  s_seqNum :: "32 word"
  s_connect :: bool
  s_routerAddr :: udp_addr
  s_clientAddr :: "udp_addr option"
  s_receiverWindow :: recv_window
  s_senderWindow :: send_window
  s_deliveryMessage :: "bool chan"
  s_handshakeSynChannel :: "packet chan"
  s_handshakeAckChannel :: "packet chan"
  s_checker :: "int option"

definition initHttpServer :: "udp_addr \<Rightarrow> HttpServer" where
  "initHttpServer router =
     \<lparr>s_seqNum = 0, s_connect = False, s_routerAddr = router, s_clientAddr = None,
      s_receiverWindow = replicate WindowSize None, s_senderWindow = replicate WindowSize None,
      s_deliveryMessage = make_chan 1, s_handshakeSynChannel = make_chan 1,
      s_handshakeAckChannel = make_chan 1, s_checker = Some (-1)\<rparr>"

definition connected :: "HttpServer \<Rightarrow> HttpServer" where
  "connected s = s\<lparr>s_connect := True\<rparr>"

definition disconnected :: "HttpServer \<Rightarrow> HttpServer" where
  "disconnected s = s\<lparr>s_connect := False\<rparr>"

definition isConnected :: "HttpServer \<Rightarrow> bool" where
  "isConnected s = s_connect s"

subsection \<open>establishConnection\<close>

text \<open>Blocked (\<open>None\<close>) until a SYN is there; the loop sends SYN-ACKs until the ACK is there.\<close>

definition server_take_syn :: "HttpServer \<Rightarrow> HttpServer option" where
  "server_take_syn s =
     (case chan_recv (s_handshakeSynChannel s) of
        None \<Rightarrow> None
      | Some (p, ch) \<Rightarrow>
          (let s1 = s\<lparr>s_handshakeSynChannel := ch\<rparr>
           in Some (if s_clientAddr s1 = None then s1\<lparr>s_clientAddr := FromAddr p\<rparr> else s1)))"

definition server_send_synack :: "HttpServer \<Rightarrow> (HttpServer \<times> datagram list) go" where
  "server_send_synack s =
     go_bind (Raw \<lparr>Type = SYNACK, SeqNum = s_seqNum s, ToAddr = s_clientAddr s, FromAddr = None,
                   Payload = []\<rparr>) (\<lambda>b.
       Inr (s, [(b, s_routerAddr s)]))"

definition server_take_ack :: "HttpServer \<Rightarrow> HttpServer option" where
  "server_take_ack s =
     (case chan_recv (s_handshakeAckChannel s) of
        None \<Rightarrow> None
      | Some (p, ch) \<Rightarrow>
          Some (connected (s\<lparr>s_handshakeAckChannel := ch, s_seqNum := s_seqNum s + 1\<rparr>)))"

subsection \<open>receive\<close>

definition server_on_handshake :: "packet \<Rightarrow> HttpServer \<Rightarrow> HttpServer" where
  "server_on_handshake p s =
     (let s1 = (if Type p = SYN \<and> chan_len (s_handshakeSynChannel s) = 0
                then (case chan_send p (s_handshakeSynChannel s) of
                        None \<Rightarrow> s
                      | Some ch \<Rightarrow> s\<lparr>s_handshakeSynChannel := ch\<rparr>)
                else s)
      in if Type p = ACK \<and> SeqNum p = 0 \<and> chan_len (s_handshakeAckChannel s1) = 0
         then (case chan_send p (s_handshakeAckChannel s1) of
                 None \<Rightarrow> s1
               | Some ch \<Rightarrow> s1\<lparr>s_handshakeAckChannel := ch\<rparr>)
         else s1)"

definition server_on_ack :: "packet \<Rightarrow> HttpServer \<Rightarrow> (HttpServer \<times> datagram list) go" where
  "server_on_ack p s =
     go_bind (go_index (s_senderWindow s) (unat (SeqNum p))) (\<lambda>slot.
       case slot of
         None \<Rightarrow> Inr (s, [])
       | Some w \<Rightarrow>
           Inr (s\<lparr>s_senderWindow := (s_senderWindow s)[unat (SeqNum p) := Some (ack_element p w)]\<rparr>, []))"

definition server_on_data :: "packet \<Rightarrow> HttpServer \<Rightarrow> (HttpServer \<times> datagram list) go" where
  "server_on_data p s =
     go_bind (Raw \<lparr>Type = ACK, SeqNum = SeqNum p, ToAddr = FromAddr p, FromAddr = None,
                   Payload = []\<rparr>) (\<lambda>b.
     go_bind (window_save p (s_receiverWindow s)) (\<lambda>ws.
       Inr (s\<lparr>s_receiverWindow := ws\<rparr>, [(b, s_routerAddr s)])))"

definition BufferSize :: nat where "BufferSize = 2048"

definition server_receive :: "bytes \<Rightarrow> HttpServer \<Rightarrow> (HttpServer \<times> datagram list) go" where
  "server_receive data s =
     go_bind (deref (fst (ParsePacket (take BufferSize data)))) (\<lambda>p.
       let s1 = (if \<not> isConnected s then server_on_handshake p s else s) in
       go_bind (if Type p = ACK \<and> SeqNum p \<noteq> 0 then server_on_ack p s1 else Inr (s1, []))
         (\<lambda>(s2, out2).
       go_bind (if Type p = DATA \<or> Type p = DELIVER then server_on_data p s2 else Inr (s2, []))
         (\<lambda>(s3, out3). Inr (s3, out2 @ out3))))"

subsection \<open>reset\<close>

text \<open>The windows and the three channels are made anew and a new \<open>checkForDeliver\<close> is started;
  \<open>connect\<close> is not touched (\<open>disconnected\<close> runs before).\<close>

definition server_reset :: "HttpServer \<Rightarrow> HttpServer" where
  "server_reset s =
     s\<lparr>s_seqNum := 0, s_clientAddr := None,
       s_senderWindow := replicate WindowSize None,
       s_receiverWindow := replicate WindowSize None,
       s_deliveryMessage := make_chan 1,
       s_handshakeSynChannel := make_chan 1,
       s_handshakeAckChannel := make_chan 1,
       s_checker := Some (-1)\<rparr>"

subsection \<open>retransmission\<close>

definition server_resend_at :: "nat \<Rightarrow> HttpServer \<Rightarrow> (HttpServer \<times> datagram list) go" where
  "server_resend_at i s =
     go_bind (go_index (s_senderWindow s) i) (\<lambda>slot.
     go_bind (must_resend slot) (\<lambda>resend.
       if resend then
         go_bind (deref slot) (\<lambda>w.
         go_bind (deref (el_Packet w)) (\<lambda>p.
         go_bind (Raw p) (\<lambda>b.
           Inr (s\<lparr>s_senderWindow := (s_senderWindow s)[i := Some (rearm w)]\<rparr>, [(b, s_routerAddr s)]))))
       else Inr (s, [])))"

definition server_retransmission :: "HttpServer \<Rightarrow> (HttpServer \<times> datagram list) go" where
  "server_retransmission s =
     (if isConnected s then run_all server_resend_at [0..<unat (s_seqNum s)] s else Inr (s, []))"

definition server_fire :: "nat \<Rightarrow> HttpServer \<Rightarrow> HttpServer" where
  "server_fire i s = s\<lparr>s_senderWindow := fire_slot i (s_senderWindow s)\<rparr>"

subsection \<open>send\<close>

definition server_sendPacket :: "packet \<Rightarrow> HttpServer \<Rightarrow> (HttpServer \<times> datagram) go" where
  "server_sendPacket p s =
     go_bind (Raw p) (\<lambda>b.
     go_bind (go_store (s_senderWindow s) (unat (s_seqNum s)) (Some (NewWindowElement p))) (\<lambda>ws.
       Inr (s\<lparr>s_senderWindow := ws, s_seqNum := s_seqNum s + 1\<rparr>, (b, s_routerAddr s))))"

function server_send_loop ::
    "bytes \<Rightarrow> nat \<Rightarrow> HttpServer \<times> datagram list \<Rightarrow> (HttpServer \<times> datagram list) go" where
  "server_send_loop req startByte (s, out) =
     (if startByte < length req then
        go_bind (server_sendPacket \<lparr>Type = DATA, SeqNum = s_seqNum s, ToAddr = s_clientAddr s,
                                    FromAddr = None, Payload = send_payload req startByte\<rparr> s)
          (\<lambda>(s', d). server_send_loop req (startByte + MaxPayload) (s', out @ [d]))
      else Inr (s, out))"
  by pat_completeness auto
termination
  by (relation "measure (\<lambda>(req, startByte, _). length req - startByte)") auto

declare server_send_loop.simps [simp del]

definition server_send_packets :: "bytes \<Rightarrow> HttpServer \<Rightarrow> (HttpServer \<times> datagram list) go" where
  "server_send_packets req s =
     go_bind (server_send_loop req 0 (s, [])) (\<lambda>(s', out).
     go_bind (server_sendPacket \<lparr>Type = DELIVER, SeqNum = s_seqNum s', ToAddr = s_clientAddr s',
                                 FromAddr = None, Payload = []\<rparr> s')
       (\<lambda>(s'', d). Inr (s'', out @ [d])))"

text \<open>One round of the loop that blocks until every packet is acknowledged.\<close>

definition server_send_blocked :: "HttpServer \<Rightarrow> bool go" where
  "server_send_blocked s = blocked_below (s_senderWindow s) (unat (s_seqNum s))"

subsection \<open>checkForDeliver, getPackets and the wait for a request\<close>

definition server_checkForDeliver :: "HttpServer \<Rightarrow> HttpServer go" where
  "server_checkForDeliver s =
     (case s_checker s of
        None \<Rightarrow> Inr s
      | Some d \<Rightarrow>
          go_bind (check_round (s_receiverWindow s) d) (\<lambda>(d', ready).
            if ready then
              (case chan_send True (s_deliveryMessage s) of
                 None \<Rightarrow> Inr s
               | Some ch \<Rightarrow> Inr (s\<lparr>s_deliveryMessage := ch, s_checker := None\<rparr>))
            else Inr (s\<lparr>s_checker := Some d'\<rparr>)))"

definition server_getPackets :: "HttpServer \<Rightarrow> bytes go" where
  "server_getPackets s = window_packets (s_receiverWindow s)"

definition server_await_request :: "HttpServer \<Rightarrow> (HttpServer \<times> bytes) go option" where
  "server_await_request s =
     (case chan_recv (s_deliveryMessage s) of
        None \<Rightarrow> None
      | Some (b, ch) \<Rightarrow>
          (let s' = s\<lparr>s_deliveryMessage := ch\<rparr>
           in Some (go_bind (server_getPackets s') (\<lambda>request. Inr (s', request)))))"

subsection \<open>The contracts\<close>

lemma server_sendPacket_eq:
  assumes "ToAddr p \<noteq> None"
  shows "server_sendPacket p s =
    (if unat (s_seqNum s) < length (s_senderWindow s)
     then Inr (s\<lparr>s_senderWindow := (s_senderWindow s)[unat (s_seqNum s) := Some (NewWindowElement p)],
                 s_seqNum := s_seqNum s + 1\<rparr>, (raw_bytes p, s_routerAddr s))
     else Inl Index_range)"
  using assms by (simp add: server_sendPacket_def raw_bytes_eq)

interpretation server_tx: packet_sender server_sendPacket server_send_loop server_send_packets
  s_seqNum s_senderWindow s_clientAddr s_routerAddr
  "\<lambda>s. (s_receiverWindow s, s_connect s, s_deliveryMessage s, s_handshakeSynChannel s,
        s_handshakeAckChannel s)"
proof
  fix req st out and s :: HttpServer
  show "server_send_loop req st (s, out) =
      (if st < length req then
         go_bind (server_sendPacket \<lparr>Type = DATA, SeqNum = s_seqNum s, ToAddr = s_clientAddr s,
                                     FromAddr = None, Payload = send_payload req st\<rparr> s)
           (\<lambda>(s', d). server_send_loop req (st + MaxPayload) (s', out @ [d]))
       else Inr (s, out))"
    by (rule server_send_loop.simps)
qed (auto simp: server_sendPacket_eq server_send_packets_def)

lemma server_on_handshake_frame [simp]:
  "s_receiverWindow (server_on_handshake p s) = s_receiverWindow s"
  "s_senderWindow (server_on_handshake p s) = s_senderWindow s"
  "s_routerAddr (server_on_handshake p s) = s_routerAddr s"
  "s_seqNum (server_on_handshake p s) = s_seqNum s"
  "s_connect (server_on_handshake p s) = s_connect s"
  "s_clientAddr (server_on_handshake p s) = s_clientAddr s"
  "s_deliveryMessage (server_on_handshake p s) = s_deliveryMessage s"
  "s_checker (server_on_handshake p s) = s_checker s"
  by (simp_all add: server_on_handshake_def Let_def split: option.splits)

interpretation server_rx: packet_receiver server_receive s_receiverWindow s_routerAddr
proof
  fix b p and s :: HttpServer
  assume p: "ParsePacket b = (Some p, None)" and ty: "Type p = DATA \<or> Type p = DELIVER"
    and lt: "unat (SeqNum p) < length (s_receiverWindow s)"
  have "FromAddr p \<noteq> None" using ParsePacket_FromAddr [OF p] .
  with p ty lt ParsePacket_Some_take [OF p]
  show "\<exists>s'. server_receive b s =
           Inr (s', [(raw_bytes \<lparr>Type = ACK, SeqNum = SeqNum p, ToAddr = FromAddr p,
                                 FromAddr = None, Payload = []\<rparr>, s_routerAddr s)])
         \<and> window_save p (s_receiverWindow s) = Inr (s_receiverWindow s')
         \<and> s_routerAddr s' = s_routerAddr s"
    by (cases "isConnected s")
      (auto simp: server_receive_def BufferSize_def server_on_data_def window_save_eq raw_bytes_eq Let_def)
qed

interpretation server_rtx: retransmitter server_resend_at s_senderWindow s_routerAddr
  "\<lambda>s. (s_receiverWindow s, s_connect s, s_deliveryMessage s, s_clientAddr s, s_seqNum s)"
proof
  fix s :: HttpServer and i
  assume ok: "send_window_ok (s_senderWindow s)" and i: "i < length (s_senderWindow s)"
  note m = must_resend_due [OF ok i]
  show "\<exists>s'. server_resend_at i s = Inr (s', resend_of (s_routerAddr s) (s_senderWindow s ! i))
     \<and> s_senderWindow s' = (s_senderWindow s)[i := resent_slot (s_senderWindow s ! i)]
     \<and> s_routerAddr s' = s_routerAddr s
     \<and> (s_receiverWindow s', s_connect s', s_deliveryMessage s', s_clientAddr s', s_seqNum s')
       = (s_receiverWindow s, s_connect s, s_deliveryMessage s, s_clientAddr s, s_seqNum s)"
  proof (cases "due (s_senderWindow s ! i)")
    case False
    then have "resend_of (s_routerAddr s) (s_senderWindow s ! i) = []"
      and "resent_slot (s_senderWindow s ! i) = s_senderWindow s ! i"
      by (auto simp: resend_of_def resent_slot_def split: option.splits)
    with False m i show ?thesis by (simp add: server_resend_at_def)
  next
    case True
    then obtain w where w: "s_senderWindow s ! i = Some w" by (auto simp: due_def split: option.splits)
    with send_window_ok_slot [OF ok i w] obtain p where "el_Packet w = Some p" "ToAddr p \<noteq> None"
      by blast
    with True m i w show ?thesis
      by (simp add: server_resend_at_def resend_of_def resent_slot_def raw_bytes_eq)
  qed
qed

subsection \<open>The server's invariant\<close>

definition server_inv :: "HttpServer \<Rightarrow> bool" where
  "server_inv s \<longleftrightarrow>
     length (s_receiverWindow s) = WindowSize \<and> length (s_senderWindow s) = WindowSize
     \<and> send_window_ok (s_senderWindow s)
     \<and> chan_cap (s_deliveryMessage s) = 1 \<and> chan_len (s_deliveryMessage s) \<le> 1
     \<and> chan_cap (s_handshakeSynChannel s) = 1 \<and> chan_len (s_handshakeSynChannel s) \<le> 1
     \<and> chan_cap (s_handshakeAckChannel s) = 1 \<and> chan_len (s_handshakeAckChannel s) \<le> 1"

lemma server_inv_init: "server_inv (initHttpServer router)"
  by (simp add: server_inv_def initHttpServer_def)

inductive server_step :: "HttpServer \<Rightarrow> HttpServer \<Rightarrow> bool" where
  syn: "server_take_syn s = Some s' \<Longrightarrow> server_step s s'"
| synack: "server_send_synack s = Inr (s', out) \<Longrightarrow> server_step s s'"
| ack: "server_take_ack s = Some s' \<Longrightarrow> server_step s s'"
| rx: "server_receive data s = Inr (s', out) \<Longrightarrow> server_step s s'"
| resend: "isConnected s \<Longrightarrow> server_resend_at i s = Inr (s', out) \<Longrightarrow> server_step s s'"
| tick: "server_step s (server_fire i s)"
| tx: "server_sendPacket p s = Inr (s', d) \<Longrightarrow> server_step s s'"
| check: "server_checkForDeliver s = Inr s' \<Longrightarrow> server_step s s'"
| await: "server_await_request s = Some (Inr (s', raw)) \<Longrightarrow> server_step s s'"
| close: "server_step s (disconnected s)"
| reset: "server_step s (server_reset s)"

lemma server_inv_handshake: "server_inv s \<Longrightarrow> server_inv (server_on_handshake p s)"
  using chan_send_len [of p "s_handshakeSynChannel s"] chan_send_len [of p "s_handshakeAckChannel s"]
  by (auto simp: server_inv_def server_on_handshake_def Let_def split: option.splits)

lemma server_inv_on_ack:
  assumes "server_inv s" "server_on_ack p s = Inr (s', out)"
  shows "server_inv s'"
proof -
  let ?i = "unat (SeqNum p)"
  from assms(2) consider "s' = s" | w where "?i < length (s_senderWindow s)"
    "s_senderWindow s ! ?i = Some w"
    "s' = s\<lparr>s_senderWindow := (s_senderWindow s)[?i := Some (ack_element p w)]\<rparr>"
    by (cases "s_senderWindow s ! ?i")
      (auto simp: server_on_ack_def go_bind_Inr_iff go_index_def split: if_splits)
  then show ?thesis
    by cases (use assms(1) ack_slot_ok [of "s_senderWindow s" ?i] in \<open>auto simp: server_inv_def\<close>)
qed

lemma server_inv_on_data:
  assumes "server_inv s" "server_on_data p s = Inr (s', out)"
  shows "server_inv s'"
  using assms
  by (auto simp: server_inv_def server_on_data_def go_bind_Inr_iff window_save_eq split: if_splits)

lemma server_inv_receive:
  assumes "server_inv s" "server_receive data s = Inr (s', out)"
  shows "server_inv s'"
  using assms
  by (auto simp: server_receive_def go_bind_Inr_iff Let_def split: if_splits
      intro: server_inv_handshake server_inv_on_ack server_inv_on_data)

lemma server_inv_resend:
  assumes "server_inv s" "server_resend_at i s = Inr (s', out)"
  shows "server_inv s'"
proof (cases "i < length (s_senderWindow s)")
  case True
  from assms have ok: "send_window_ok (s_senderWindow s)" by (simp add: server_inv_def)
  obtain s'' where s'': "server_resend_at i s = Inr (s'', resend_of (s_routerAddr s) (s_senderWindow s ! i))"
    "s_senderWindow s'' = (s_senderWindow s)[i := resent_slot (s_senderWindow s ! i)]"
    using server_rtx.resend_ok [OF ok True] by blast
  have "send_window_ok (s_senderWindow s')"
    using s'' assms(2) server_rtx.resent_ok [OF ok True] by simp
  moreover from assms(2) obtain ws where "s' = s\<lparr>s_senderWindow := ws\<rparr>" "length ws = length (s_senderWindow s)"
    by (auto simp: server_resend_at_def go_bind_Inr_iff split: if_splits)
      (metis HttpServer.surjective HttpServer.update_convs(6))
  ultimately show ?thesis using assms(1) by (simp add: server_inv_def)
next
  case False
  with assms show ?thesis by (simp add: server_resend_at_def)
qed

lemma server_inv_sendPacket:
  assumes "server_inv s" "server_sendPacket p s = Inr (s', d)"
  shows "server_inv s'"
proof -
  have to: "ToAddr p \<noteq> None" using assms(2) by (cases "ToAddr p") (auto simp: server_sendPacket_def Raw_def)
  have "send_window_ok ((s_senderWindow s)[unat (s_seqNum s) := Some (NewWindowElement p)])"
    using assms(1) to
    by (intro send_window_ok_update [of _ _ p]) (simp_all add: server_inv_def NewWindowElement_ok, simp add: NewWindowElement_def)
  with assms to show ?thesis
    by (auto simp: server_sendPacket_eq server_inv_def split: if_splits)
qed

lemma server_inv_step:
  assumes "server_step s s'" "server_inv s"
  shows "server_inv s'"
  using assms
proof (induction rule: server_step.induct)
  case (syn s s')
  then show ?case
    using chan_recv_len [of "s_handshakeSynChannel s"]
    by (fastforce simp: server_take_syn_def server_inv_def Let_def split: option.splits if_splits)
next
  case (synack s s' out)
  then show ?case by (auto simp: server_send_synack_def go_bind_Inr_iff)
next
  case (ack s s')
  then show ?case
    using chan_recv_len [of "s_handshakeAckChannel s"]
    by (fastforce simp: server_take_ack_def server_inv_def connected_def split: option.splits)
next
  case (tick s i)
  then show ?case
    using send_window_ok_fire [of "s_senderWindow s" i]
    by (simp add: server_fire_def server_inv_def) (simp add: fire_slot_def)
next
  case (check s s')
  then show ?case
    using chan_send_len [of True "s_deliveryMessage s"]
    by (auto simp: server_checkForDeliver_def server_inv_def go_bind_Inr_iff split: option.splits if_splits)
next
  case (await s s' raw)
  then show ?case
    using chan_recv_len [of "s_deliveryMessage s"]
    by (fastforce simp: server_await_request_def server_inv_def Let_def go_bind_Inr_iff split: option.splits)
next
  case (close s)
  then show ?case by (simp add: disconnected_def server_inv_def)
next
  case (reset s)
  then show ?case by (simp add: server_reset_def server_inv_def)
qed (auto intro: server_inv_receive server_inv_resend server_inv_sendPacket)

inductive server_reachable :: "HttpServer \<Rightarrow> bool" where
  start: "server_reachable (initHttpServer router)"
| step: "server_reachable s \<Longrightarrow> server_step s s' \<Longrightarrow> server_reachable s'"

lemma server_reachable_inv: "server_reachable s \<Longrightarrow> server_inv s"
  by (induction rule: server_reachable.induct) (auto intro: server_inv_init server_inv_step)

subsection \<open>Sample states\<close>

definition example_server :: HttpServer where
  "example_server = initHttpServer RouterAddr"

definition example_connected :: HttpServer where
  "example_connected = server_fire 1 (example_server
     \<lparr>s_connect := True, s_clientAddr := Some ClientAddr, s_seqNum := 2,
      s_senderWindow := (s_senderWindow example_server)
        [1 := Some (NewWindowElement (packet_of (Some ClientAddr) (DATA, 1, [72, 105])))]\<rparr>)"

lemma example_server_reachable: "server_reachable example_server"
  unfolding example_server_def by (rule server_reachable.start)

lemma example_fields [simp]:
  "s_receiverWindow example_server = replicate 1024 None"
  "s_senderWindow example_server = replicate 1024 None"
  "s_connect example_server = False"
  by (simp_all add: example_server_def initHttpServer_def)

lemma parse_sample:
  assumes "ToAddr p = Some a" "wire_addr a" "length (Payload p) \<le> MaxPayload"
  shows "ParsePacket (raw_bytes p) = (Some \<lparr>Type = Type p, SeqNum = SeqNum p, ToAddr = None,
      FromAddr = Some (canon a), Payload = Payload p\<rparr>, None)"
  using assms by (simp add: raw_bytes_def Raw_frame ParsePacket_frame wire_addr_To4 wire_addr_port canon_def)

subsection \<open>Properties\<close>



text \<open>
  A session leaves nothing behind: after \<open>disconnected\<close> and \<open>reset\<close> the server is in the
  state in which it started, with a new \<open>checkForDeliver\<close>, whatever the session did.
\<close>

theorem session_reset_fresh:
  "server_reset (disconnected s) = initHttpServer (s_routerAddr s)"
  by (simp add: server_reset_def disconnected_def initHttpServer_def)

text \<open>
  C17. When \<open>receive\<close> panics: exactly when the datagram does not parse, or an acknowledgement
  (other than number 0) or a data packet carries a sequence number of 1024 or more.  An
  acknowledgement for an empty slot is ignored, unlike in the client.
\<close>

theorem server_receive_outcomes:
  assumes "server_reachable s"
  shows "case fst (ParsePacket (take BufferSize data)) of
      None \<Rightarrow> server_receive data s = Inl Nil_deref
    | Some p \<Rightarrow>
        if WindowSize \<le> unat (SeqNum p)
           \<and> (Type p = ACK \<or> Type p = DATA \<or> Type p = DELIVER)
        then server_receive data s = Inl Index_range
        else \<exists>r. server_receive data s = Inr r"
proof (cases "fst (ParsePacket (take BufferSize data))")
  case None
  then show ?thesis by (simp add: server_receive_def)
next
  case (Some p)
  from server_reachable_inv [OF assms] have inv: "server_inv s" .
  define s1 where "s1 = (if \<not> isConnected s then server_on_handshake p s else s)"
  have len: "length (s_senderWindow s1) = 1024" "length (s_receiverWindow s1) = 1024"
    using inv by (simp_all add: s1_def server_inv_def)
  have from_addr: "FromAddr p \<noteq> None"
    using Some by (cases "take BufferSize data" rule: ParsePacket_cases) auto
  have eq: "server_receive data s =
      go_bind (if Type p = ACK \<and> SeqNum p \<noteq> 0 then server_on_ack p s1 else Inr (s1, []))
         (\<lambda>(s2, out2).
       go_bind (if Type p = DATA \<or> Type p = DELIVER then server_on_data p s2 else Inr (s2, []))
         (\<lambda>(s3, out3). Inr (s3, out2 @ out3)))"
    using Some by (simp add: server_receive_def s1_def Let_def)
  consider "Type p = ACK" | "Type p = DATA \<or> Type p = DELIVER"
    | "Type p \<noteq> ACK" "Type p \<noteq> DATA" "Type p \<noteq> DELIVER" by blast
  then show ?thesis
  proof cases
    case 1
    with Some len show ?thesis
      by (auto simp: eq server_on_ack_def split: option.splits)
  next
    case 2
    with Some len from_addr show ?thesis
      by (auto simp: eq server_on_data_def window_save_eq raw_bytes_eq)
  next
    case 3
    with Some show ?thesis by (simp add: eq)
  qed
qed

theorem server_receive_outcomes_witness:
  "server_receive [] example_server = Inl Nil_deref"
  using server_receive_outcomes [OF example_server_reachable, of "[]"]
  by (simp add: ParsePacket_short)

text \<open>
  C32. The first packet with a number wins.  When two data packets with the same sequence number
  arrive, both are acknowledged and the window keeps the first.  For a retransmission this makes
  receiving idempotent; but \<open>receive\<close> does not look at the connection or at the sender, so it
  also holds right after \<open>reset\<close>, before any handshake, and for packets of two clients: a late
  retransmission of the previous client takes the slot, and the next client's packet with that
  number is acknowledged and thrown away.
\<close>

theorem stale_packet_shadows:
  assumes "s = server_reset (disconnected s0)"
    and "ParsePacket b1 = (Some p1, None)" "Type p1 = DATA"
    and "ParsePacket b2 = (Some p2, None)" "Type p2 = DATA"
    and "SeqNum p2 = SeqNum p1" "unat (SeqNum p1) < WindowSize"
  shows "\<exists>s1 s2 to1 to2. \<not> isConnected s
     \<and> server_receive b1 s = Inr (s1, [(raw_bytes \<lparr>Type = ACK, SeqNum = SeqNum p1, ToAddr = to1,
           FromAddr = None, Payload = []\<rparr>, s_routerAddr s)])
     \<and> server_receive b2 s1 = Inr (s2, [(raw_bytes \<lparr>Type = ACK, SeqNum = SeqNum p1, ToAddr = to2,
           FromAddr = None, Payload = []\<rparr>, s_routerAddr s)])
     \<and> to1 = FromAddr p1 \<and> to2 = FromAddr p2
     \<and> s_receiverWindow s1 ! unat (SeqNum p1) = Some p1
     \<and> s_receiverWindow s2 ! unat (SeqNum p1) = Some p1"
proof -
  let ?i = "unat (SeqNum p1)"
  have s: "s_receiverWindow s = replicate WindowSize None" "\<not> isConnected s"
    by (simp_all add: assms(1) server_reset_def disconnected_def isConnected_def)
  obtain s1 where s1: "server_receive b1 s = Inr (s1, [(raw_bytes \<lparr>Type = ACK, SeqNum = SeqNum p1,
        ToAddr = FromAddr p1, FromAddr = None, Payload = []\<rparr>, s_routerAddr s)])"
    "window_save p1 (s_receiverWindow s) = Inr (s_receiverWindow s1)" "s_routerAddr s1 = s_routerAddr s"
    using server_rx.receive_unit [OF assms(2), of s] assms(3,7) s(1) by auto
  have w1: "s_receiverWindow s1 = (s_receiverWindow s)[?i := Some p1]"
    using s1(2) s(1) assms(7) by (auto simp: window_save_eq split: if_splits)
  obtain s2 where s2: "server_receive b2 s1 = Inr (s2, [(raw_bytes \<lparr>Type = ACK, SeqNum = SeqNum p2,
        ToAddr = FromAddr p2, FromAddr = None, Payload = []\<rparr>, s_routerAddr s1)])"
    "window_save p2 (s_receiverWindow s1) = Inr (s_receiverWindow s2)"
    using server_rx.receive_unit [OF assms(4), of s1] assms(5-7) s(1) w1 by auto
  have at: "s_receiverWindow s1 ! ?i = Some p1" "?i < length (s_receiverWindow s1)"
    using w1 s(1) assms(7) by auto
  then have "s_receiverWindow s2 ! ?i = Some p1"
    using window_save_keeps [OF s2(2) at(2,1)] by simp
  with s(2) s1 s2 at assms(6) show ?thesis by auto
qed

theorem stale_packet_shadows_witness:
  "\<exists>s1 s2. server_receive (raw_bytes (packet_of (Some ClientAddr) (DATA, 1, [111, 108, 100])))
       (server_reset (disconnected example_connected)) = Inr s1
     \<and> server_receive (raw_bytes (packet_of (Some ServerAddr) (DATA, 1, [110, 101, 119]))) (fst s1) = Inr s2
     \<and> map_option Payload (s_receiverWindow (fst s2) ! 1) = Some [111, 108, 100]"
  using stale_packet_shadows [OF refl
      parse_sample [of "packet_of (Some ClientAddr) (DATA, 1, [111, 108, 100])" ClientAddr] _
      parse_sample [of "packet_of (Some ServerAddr) (DATA, 1, [110, 101, 119])" ServerAddr],
      of example_connected]
  by (auto simp: packet_of_def)

text \<open>
  C33. A delivery notice numbered 0 brings the server down.  \<open>checkForDeliver\<close> searches from slot
  0 but checks the slots from the notice down to 1, so the window counts as ready with slot 1
  empty, and \<open>getPackets\<close> follows a nil pointer.
\<close>

theorem deliver_zero_crashes:
  assumes "ParsePacket b = (Some p, None)" "Type p = DELIVER" "SeqNum p = 0"
  shows "\<exists>s out. server_receive b (initHttpServer router) = Inr (s, out)
     \<and> polls_ready (s_receiverWindow s) \<and> server_getPackets s = Inl Nil_deref"
proof -
  let ?s = "initHttpServer router"
  have w: "s_receiverWindow ?s = None # None # replicate 1022 None"
    by (simp add: initHttpServer_def numeral_eq_Suc)
  then obtain s where s: "server_receive b ?s = Inr (s, [(raw_bytes \<lparr>Type = ACK, SeqNum = SeqNum p,
        ToAddr = FromAddr p, FromAddr = None, Payload = []\<rparr>, s_routerAddr ?s)])"
    "window_save p (s_receiverWindow ?s) = Inr (s_receiverWindow s)"
    using server_rx.receive_unit [OF assms(1), of ?s] assms(2,3) by auto
  then have "s_receiverWindow s = Some p # None # replicate 1022 None"
    using w assms(3) by (simp add: window_save_eq)
  with s(1) assms(2) show ?thesis
    by (simp add: polls_ready_def check_round_def server_getPackets_def window_packets_def)
qed

theorem deliver_zero_crashes_witness:
  "\<exists>s out. server_receive (raw_bytes (packet_of (Some ClientAddr) (DELIVER, 0, [])))
       (initHttpServer RouterAddr) = Inr (s, out)
     \<and> polls_ready (s_receiverWindow s) \<and> server_getPackets s = Inl Nil_deref"
  by (rule deliver_zero_crashes [OF parse_sample [of _ ClientAddr]])
    (simp_all add: packet_of_def)

text \<open>
  C20. When the server's \<open>send\<close> returns: the loop at its end never panics in a reachable state
  with at most 1024 numbers used, and it stops exactly when every packet in the sender window
  below \<open>seqNum\<close> is acknowledged.
\<close>

theorem server_send_returns:
  assumes "server_reachable s" "unat (s_seqNum s) \<le> WindowSize"
  shows "server_send_blocked s =
    Inr (\<not> (\<forall>i < unat (s_seqNum s). \<forall>w. s_senderWindow s ! i = Some w \<longrightarrow> acked w))"
proof -
  from server_reachable_inv [OF assms(1)]
  have ok: "send_window_ok (s_senderWindow s)" "length (s_senderWindow s) = WindowSize"
    by (simp_all add: server_inv_def)
  have "slot_blocks (s_senderWindow s ! i) \<longleftrightarrow> (\<exists>w. s_senderWindow s ! i = Some w \<and> \<not> acked w)"
    if "i < unat (s_seqNum s)" for i
  proof (cases "s_senderWindow s ! i")
    case (Some w)
    from that assms(2) ok(2) have "i < length (s_senderWindow s)" by simp
    with send_window_ok_slot [OF ok(1) this Some] Some show ?thesis
      by (auto simp: slot_blocks_def acked_def)
  qed (simp add: slot_blocks_def)
  with assms(2) ok(2) show ?thesis
    by (simp add: server_send_blocked_def blocked_below_eq) blast
qed

theorem server_send_returns_witness: "server_send_blocked example_server = Inr False"
  using server_send_returns [OF example_server_reachable]
  by (simp add: example_server_def initHttpServer_def)

text \<open>
  Retransmission follows the connection: nothing is written while the server is not
  connected; in a connected reachable state with at most 1024 numbers used a pass writes exactly
  the unacknowledged packets whose timer has ticked, in order.
\<close>

theorem server_retransmission_exact:
  assumes "server_reachable s" "unat (s_seqNum s) \<le> WindowSize"
  shows "\<exists>s'. server_retransmission s =
     Inr (s', if s_connect s
              then concat (map (\<lambda>i. resend_of (s_routerAddr s) (s_senderWindow s ! i))
                     [0..<unat (s_seqNum s)])
              else [])"
proof (cases "s_connect s")
  case True
  from server_reachable_inv [OF assms(1)]
  have "send_window_ok (s_senderWindow s)" "length (s_senderWindow s) = WindowSize"
    by (simp_all add: server_inv_def)
  with True assms(2) server_rtx.pass_ok [of s "unat (s_seqNum s)"] show ?thesis
    by (auto simp: server_retransmission_def isConnected_def)
qed (simp add: server_retransmission_def isConnected_def)

theorem server_retransmission_exact_witness:
  "\<exists>s'. server_retransmission example_server = Inr (s', [])"
  using server_retransmission_exact [OF example_server_reachable]
  by (simp add: example_server_def initHttpServer_def)

text \<open>
  What the server's \<open>send\<close> transmits, and its limits.  With a client address, a response of
  at most 1022 * 1013 bytes is written as its DATA packets and a DELIVER packet, numbered from 1
  on; an empty response (the one \<open>main\<close> sends after an error of \<open>handleRequest\<close>) is a single
  DELIVER packet; a longer response panics.  Without a client address (no SYN taken since the
  last reset) it panics on the nil address.
\<close>

theorem server_send_outcome:
  assumes "s_seqNum s = 1" "length (s_senderWindow s) = WindowSize"
  shows "case s_clientAddr s of
      None \<Rightarrow> server_send_packets resp s = Inl Nil_deref
    | Some client \<Rightarrow>
        if length resp \<le> 1022 * MaxPayload
        then \<exists>s'. server_send_packets resp s =
               Inr (s', map (\<lambda>u. (raw_bytes (packet_of (Some client) u), s_routerAddr s)) (units 1 resp))
             \<and> unat (s_seqNum s') = 2 + length (chunks resp)
        else server_send_packets resp s = Inl Index_range"
proof (cases "s_clientAddr s")
  case None
  then show ?thesis
    by (simp add: server_send_packets_def server_send_loop.simps [of resp 0] server_sendPacket_def Raw_None)
next
  case (Some client)
  show ?thesis
  proof (cases "length resp \<le> 1022 * MaxPayload")
    case True
    then have k: "length (chunks resp) \<le> 1022" by (simp add: length_chunks)
    let ?ps = "map (packet_of (Some client)) (units 1 resp)"
    obtain s' where s': "server_send_packets resp s = Inr (s', map (\<lambda>p. (raw_bytes p, s_routerAddr s)) ?ps)"
      "s_seqNum s' = word_of_nat (1 + Suc (length (chunks resp)))"
      using server_tx.send_all_ok [of s client 1 resp ?ps] assms Some k by auto
    have "unat (s_seqNum s') = 2 + length (chunks resp)"
      unfolding s'(2) using k by (subst unat_small) auto
    with True Some s'(1) show ?thesis by (simp add: comp_def)
  next
    case False
    then have "1023 \<le> length (chunks resp)" by (simp add: length_chunks)
    then have "server_send_packets resp s = Inl Index_range"
      using assms Some by (intro server_tx.send_all_overflow [of s client 1]) auto
    with Some False show ?thesis by simp
  qed
qed

theorem server_send_outcome_witness:
  "server_send_packets [72, 105] (example_server\<lparr>s_seqNum := 1\<rparr>) = Inl Nil_deref"
  using server_send_outcome [of "example_server\<lparr>s_seqNum := 1\<rparr>" "[72, 105]"]
  by (simp add: example_server_def initHttpServer_def)

end
