(* ===== verification/Delivery.thy ===== *)
theory Delivery
  imports Httpc Httpfs
begin

section \<open>The client, the router and the server in a row\<close>

text \<open>
  The contract \<open>transfer\<close> holds in both directions: a request from the client's \<open>send\<close> through
  the router to the server's \<open>receive\<close>, and a response the other way.
\<close>

interpretation request: transfer client_sendPacket client_send_loop client_send_packets
  c_seqNum c_senderWindow c_serverAddr c_routerAddr
  "\<lambda>c. (c_receiverWindow c, c_deliveryMessage c, c_handshakeSYNACKChannel c)"
  server_receive s_receiverWindow s_routerAddr
  by unfold_locales

interpretation response: transfer server_sendPacket server_send_loop server_send_packets
  s_seqNum s_senderWindow s_clientAddr s_routerAddr
  "\<lambda>s. (s_receiverWindow s, s_connect s, s_deliveryMessage s, s_handshakeSynChannel s,
        s_handshakeAckChannel s)"
  client_receive c_receiverWindow c_routerAddr
  by unfold_locales

text \<open>A router that drops and delays nothing.\<close>

definition reliable :: router_flags where
  "reliable = \<lparr>dropRate = 0, maxDelay = 0\<rparr>"

subsection \<open>Reliable delivery over a router that loses, repeats and reorders\<close>

text \<open>
  C10. Reliable delivery of a request.  A connected client writes the packets of a request that
  fits the window; the router is given any of these datagrams, each any number of times and in
  any order, drops what it likes and delays the rest; the server reads any of the datagrams the
  router wrote, again in any order and with repetitions.  Then the server does not panic, it
  answers every datagram, \<open>checkForDeliver\<close> reports the window ready exactly when every packet
  of the request has arrived at least once, and \<open>getPackets\<close> then returns exactly the request.
\<close>

theorem request_delivery:
  assumes "c_serverAddr c = Some server" "c_seqNum c = 1" "length (c_senderWindow c) = WindowSize"
    and "wire_addr server" "wire_addr client"
    and "length req \<le> 1022 * MaxPayload"
    and "client_send_packets req c = Inr (c', sent)"
    and "\<forall>e \<in> set es. event_from client (set (map fst sent)) e"
    and "router_run f es router_init = Inr (r, out)"
    and "set bs \<subseteq> fst ` set out"
    and "s_receiverWindow s = replicate WindowSize None"
  shows "\<exists>s' acks. run_all server_receive bs s = Inr (s', acks) \<and> length acks = length bs
     \<and> (polls_ready (s_receiverWindow s') \<longleftrightarrow> (\<forall>u \<in> set (units 1 req). \<exists>b \<in> set bs. carries b u))
     \<and> (polls_ready (s_receiverWindow s') \<longrightarrow> server_getPackets s' = Inr req)"
  using request.delivery [OF assms] by (simp add: server_getPackets_def)

theorem request_delivery_witness:
  "\<exists>c' sent out s' acks.
     client_send_packets [71, 69, 84] (example_client\<lparr>c_seqNum := 1\<rparr>) = Inr (c', sent)
     \<and> router_run reliable (map (Datagram 0 0 ClientAddr) (map fst sent)) router_init
         = Inr (router_init, out)
     \<and> run_all server_receive (rev (map fst out) @ map fst out) example_server = Inr (s', acks)
     \<and> server_getPackets s' = Inr [71, 69, 84]"
proof -
  let ?c = "example_client\<lparr>c_seqNum := 1\<rparr>"
  have c: "c_serverAddr ?c = Some ServerAddr" "c_seqNum ?c = 1"
    "length (c_senderWindow ?c) = WindowSize"
    by (simp_all add: example_client_def initHttpClient_def)
  have f: "\<not> 0 < dropRate reliable" "sint (maxDelay reliable) \<le> 0" by (simp_all add: reliable_def)
  have s: "s_receiverWindow example_server = replicate WindowSize None" by simp
  obtain c' sent out t acks where r:
    "client_send_packets [71, 69, 84] ?c = Inr (c', sent)"
    "router_run reliable (map (Datagram 0 0 ClientAddr) (map fst sent)) router_init = Inr (router_init, out)"
    "run_all server_receive (map fst out) example_server = Inr (t, acks)"
    "polls_ready (s_receiverWindow t)"
    using request.lossless_delivery [OF c address_constants_wire(3,2) _ f s, of "[71, 69, 84]" 0] by auto
  have es: "\<forall>e \<in> set (map (Datagram 0 0 ClientAddr) (map fst sent)). event_from ClientAddr (set (map fst sent)) e"
    by (auto simp: event_from_def)
  have size: "length [71, 69, 84 :: byte] \<le> 1022 * MaxPayload" by simp
  note d = request_delivery [OF c address_constants_wire(3,2) size r(1) es r(2) _ s]
  from d [of "map fst out"] r(3,4)
  have all: "\<forall>u \<in> set (units 1 [71, 69, 84]). \<exists>b \<in> set (map fst out). carries b u" by auto
  from d [of "rev (map fst out) @ map fst out"] all r(1,2) show ?thesis by auto
qed

text \<open>
  Reliable delivery of a response: the same from a connected server to the client.
\<close>

theorem response_delivery:
  assumes "s_clientAddr s = Some client" "s_seqNum s = 1" "length (s_senderWindow s) = WindowSize"
    and "wire_addr client" "wire_addr server"
    and "length resp \<le> 1022 * MaxPayload"
    and "server_send_packets resp s = Inr (s', sent)"
    and "\<forall>e \<in> set es. event_from server (set (map fst sent)) e"
    and "router_run f es router_init = Inr (r, out)"
    and "set bs \<subseteq> fst ` set out"
    and "c_receiverWindow c = replicate WindowSize None"
  shows "\<exists>c' acks. run_all client_receive bs c = Inr (c', acks) \<and> length acks = length bs
     \<and> (polls_ready (c_receiverWindow c') \<longleftrightarrow> (\<forall>u \<in> set (units 1 resp). \<exists>b \<in> set bs. carries b u))
     \<and> (polls_ready (c_receiverWindow c') \<longrightarrow> client_getPackets c' = Inr resp)"
  using response.delivery [OF assms] by (simp add: client_getPackets_def)

theorem response_delivery_witness:
  "\<exists>s' sent out c' acks.
     server_send_packets [79, 75] (example_server\<lparr>s_seqNum := 1, s_clientAddr := Some ClientAddr\<rparr>)
         = Inr (s', sent)
     \<and> router_run reliable (map (Datagram 0 0 ServerAddr) (map fst sent)) router_init
         = Inr (router_init, out)
     \<and> run_all client_receive (rev (map fst out)) example_client = Inr (c', acks)
     \<and> client_getPackets c' = Inr [79, 75]"
proof -
  let ?s = "example_server\<lparr>s_seqNum := 1, s_clientAddr := Some ClientAddr\<rparr>"
  have s: "s_clientAddr ?s = Some ClientAddr" "s_seqNum ?s = 1"
    "length (s_senderWindow ?s) = WindowSize"
    by simp_all
  have f: "\<not> 0 < dropRate reliable" "sint (maxDelay reliable) \<le> 0" by (simp_all add: reliable_def)
  have c: "c_receiverWindow example_client = replicate WindowSize None"
    by (simp add: example_client_def initHttpClient_def)
  obtain s' sent out t acks where r:
    "server_send_packets [79, 75] ?s = Inr (s', sent)"
    "router_run reliable (map (Datagram 0 0 ServerAddr) (map fst sent)) router_init = Inr (router_init, out)"
    "run_all client_receive (map fst out) example_client = Inr (t, acks)"
    "polls_ready (c_receiverWindow t)"
    using response.lossless_delivery [OF s address_constants_wire(2,3) _ f c, of "[79, 75]" 0] by auto
  have es: "\<forall>e \<in> set (map (Datagram 0 0 ServerAddr) (map fst sent)). event_from ServerAddr (set (map fst sent)) e"
    by (auto simp: event_from_def)
  have size: "length [79, 75 :: byte] \<le> 1022 * MaxPayload" by simp
  note d = response_delivery [OF s address_constants_wire(2,3) size r(1) es r(2) _ c]
  from d [of "map fst out"] r(3,4)
  have all: "\<forall>u \<in> set (units 1 [79, 75]). \<exists>b \<in> set (map fst out). carries b u" by auto
  from d [of "rev (map fst out)"] all r(1,2) show ?thesis by auto
qed

subsection \<open>Delivery when nothing is lost\<close>

text \<open>
  Over a router that drops and delays nothing, a request that fits the window is sent without
  a panic, arrives, is reported ready after two rounds of \<open>checkForDeliver\<close>, and is returned by
  \<open>getPackets\<close>.
\<close>

theorem request_arrives:
  assumes "c_serverAddr c = Some server" "c_seqNum c = 1" "length (c_senderWindow c) = WindowSize"
    and "wire_addr server" "wire_addr client"
    and "length req \<le> 1022 * MaxPayload"
    and "\<not> v < dropRate f" "sint (maxDelay f) \<le> 0"
    and "s_receiverWindow s = replicate WindowSize None"
  shows "\<exists>c' sent out s' acks. client_send_packets req c = Inr (c', sent)
     \<and> router_run f (map (Datagram v k client) (map fst sent)) router_init = Inr (router_init, out)
     \<and> run_all server_receive (map fst out) s = Inr (s', acks)
     \<and> polls_ready (s_receiverWindow s') \<and> server_getPackets s' = Inr req"
  using request.lossless_delivery [OF assms, of k] by (simp add: server_getPackets_def)

theorem request_arrives_witness:
  "\<exists>c' sent out s' acks.
     client_send_packets (replicate 3000 65) (example_client\<lparr>c_seqNum := 1\<rparr>) = Inr (c', sent)
     \<and> router_run reliable (map (Datagram 0 7 ClientAddr) (map fst sent)) router_init = Inr (router_init, out)
     \<and> run_all server_receive (map fst out) example_server = Inr (s', acks)
     \<and> polls_ready (s_receiverWindow s') \<and> server_getPackets s' = Inr (replicate 3000 65)"
  using request_arrives [of "example_client\<lparr>c_seqNum := 1\<rparr>" ServerAddr ClientAddr "replicate 3000 65"
      0 reliable example_server 7]
  by (simp add: example_client_def initHttpClient_def reliable_def)

end
