(* ===== verification/Session_Parts.thy ===== *)
theory Session_Parts
  imports Delivery
begin

section \<open>The parts of a session's invariant\<close>

text \<open>
  What holds of one window, of the datagrams under way and of the router while a client and a server
  run against each other (theory Session).  Everything here speaks of one array or of one hop, and
  is used for both programs.
\<close>

subsection \<open>The chunks of a message by their number\<close>

lemma drop_chunks: "chunks (drop (j * MaxPayload) msg) = drop j (chunks msg)"
proof (induction j arbitrary: msg)
  case (Suc j)
  show ?case
  proof (cases "msg = []")
    case False
    have "drop (Suc j * MaxPayload) msg = drop (j * MaxPayload) (drop MaxPayload msg)"
      by (simp add: add.commute)
    with Suc.IH [of "drop MaxPayload msg"] False show ?thesis
      by (simp add: chunks.simps [of msg])
  qed simp
qed simp

lemma chunk_index: "j < length (chunks msg) \<longleftrightarrow> j * MaxPayload < length msg"
proof -
  have "j < length (chunks msg) \<longleftrightarrow> Suc j \<le> (length msg + 1012) div 1013"
    by (simp add: length_chunks Suc_le_eq)
  also have "\<dots> \<longleftrightarrow> Suc j * 1013 \<le> length msg + 1012"
    by (rule less_eq_div_iff_mult_less_eq) simp
  finally show ?thesis by auto
qed

lemma chunk_nth:
  assumes "j < length (chunks msg)"
  shows "chunks msg ! j = send_payload msg (j * MaxPayload)"
proof -
  have "drop j (chunks msg) = send_payload msg (j * MaxPayload) # chunks (drop (j * MaxPayload + MaxPayload) msg)"
    using send_payload_chunk [of "j * MaxPayload" msg] assms
    by (simp only: drop_chunks [symmetric] chunk_index)
  then show ?thesis using assms by (metis hd_drop_conv_nth list.sel(1))
qed

text \<open>A message fits when its packets fit the window.\<close>

definition fits :: "bytes \<Rightarrow> bool" where
  "fits msg \<longleftrightarrow> length msg \<le> 1022 * MaxPayload"

lemma fits_chunks: "fits msg \<longleftrightarrow> Suc (length (chunks msg)) < WindowSize"
  using less_eq_div_iff_mult_less_eq [of 1013 1023 "length msg + 1012"]
  by (auto simp: fits_def length_chunks not_le)

subsection \<open>A sender window while a message is sent\<close>

text \<open>Its first \<open>n\<close> units are stored, in the slots from 1 on, and nothing else.\<close>

definition tx_slot :: "udp_addr \<Rightarrow> bytes \<Rightarrow> nat \<Rightarrow> nat \<Rightarrow> window_element option \<Rightarrow> bool" where
  "tx_slot to msg n i slot \<longleftrightarrow>
     (case slot of
        None \<Rightarrow> i = 0 \<or> n < i
      | Some w \<Rightarrow> 0 < i \<and> i \<le> n \<and> element_ok w
          \<and> el_Packet w = Some (packet_of (Some to) (units 1 msg ! (i - 1))))"

definition tx_ok :: "udp_addr \<Rightarrow> bytes \<Rightarrow> send_window \<Rightarrow> nat \<Rightarrow> bool" where
  "tx_ok to msg ws n \<longleftrightarrow>
     length ws = WindowSize \<and> n \<le> length (units 1 msg) \<and> n < WindowSize
     \<and> (\<forall>i < WindowSize. tx_slot to msg n i (ws ! i))"

lemma tx_ok_empty [simp]: "tx_ok to msg (replicate WindowSize None) 0"
  by (auto simp: tx_ok_def tx_slot_def)

lemma tx_ok_0: "tx_ok to msg ws 0 \<longleftrightarrow> ws = replicate WindowSize None"
proof
  assume "tx_ok to msg ws 0"
  then show "ws = replicate WindowSize None"
    by (intro nth_equalityI) (auto simp: tx_ok_def tx_slot_def split: option.splits)
qed (use tx_ok_empty in simp)

lemma tx_ok_length: "tx_ok to msg ws n \<Longrightarrow> length ws = WindowSize"
  by (simp add: tx_ok_def)

lemma tx_ok_slot:
  assumes "tx_ok to msg ws n" "i < WindowSize"
  shows "ws ! i \<noteq> None \<longleftrightarrow> 0 < i \<and> i \<le> n"
proof -
  from assms have "tx_slot to msg n i (ws ! i)" unfolding tx_ok_def by blast
  then show ?thesis by (auto simp: tx_slot_def split: option.splits)
qed

lemma tx_ok_element:
  assumes "tx_ok to msg ws n" "i < WindowSize" "ws ! i = Some w"
  shows "0 < i" "i \<le> n" "element_ok w" "el_Packet w = Some (packet_of (Some to) (units 1 msg ! (i - 1)))"
proof -
  from assms(1,2) have "tx_slot to msg n i (ws ! i)" unfolding tx_ok_def by blast
  with assms(3) show "0 < i" "i \<le> n" "element_ok w"
    "el_Packet w = Some (packet_of (Some to) (units 1 msg ! (i - 1)))"
    unfolding tx_slot_def by auto
qed

lemma tx_ok_update:
  assumes "tx_ok to msg ws n" "ws ! i = Some w" "element_ok w'" "el_Packet w' = el_Packet w"
  shows "tx_ok to msg (ws[i := Some w']) n"
proof (cases "i < WindowSize")
  case True
  note e = tx_ok_element [OF assms(1) True assms(2)]
  have "tx_slot to msg n i (Some w')"
    unfolding tx_slot_def using e assms(3,4) by simp
  with assms(1) True show ?thesis
    unfolding tx_ok_def by (simp add: nth_list_update)
next
  case False
  with assms(1) have "ws[i := Some w'] = ws" by (simp add: tx_ok_def list_update_beyond)
  with assms(1) show ?thesis by simp
qed

lemma tx_ok_store:
  assumes "tx_ok to msg ws n" "n < length (units 1 msg)" "Suc n < WindowSize"
  shows "tx_ok to msg (ws[Suc n := Some (NewWindowElement (packet_of (Some to) (units 1 msg ! n)))]) (Suc n)"
proof -
  let ?w = "NewWindowElement (packet_of (Some to) (units 1 msg ! n))"
  have new: "tx_slot to msg (Suc n) (Suc n) (Some ?w)"
    unfolding tx_slot_def using NewWindowElement_ok by (simp add: NewWindowElement_def)
  have "tx_slot to msg (Suc n) i (ws ! i)" if "i < WindowSize" "i \<noteq> Suc n" for i
  proof -
    from that(1) assms(1) have "tx_slot to msg n i (ws ! i)" unfolding tx_ok_def by blast
    with that(2) show ?thesis by (auto simp: tx_slot_def split: option.splits)
  qed
  with new assms show ?thesis
    unfolding tx_ok_def by (simp add: nth_list_update)
qed

lemma tx_ok_window:
  assumes "tx_ok to msg ws n"
  shows "send_window_ok ws"
  unfolding send_window_ok_def
proof (intro allI impI)
  fix w assume "Some w \<in> set ws"
  then obtain i where i: "i < length ws" "ws ! i = Some w" by (auto simp: in_set_conv_nth)
  with tx_ok_length [OF assms] tx_ok_element [OF assms, of i w]
  show "element_ok w \<and> (case el_Packet w of None \<Rightarrow> False | Some p \<Rightarrow> ToAddr p \<noteq> None)"
    by (auto simp: packet_of_def)
qed

lemma tx_ok_ack:
  assumes "tx_ok to msg ws n" "i < WindowSize" "ws ! i = Some w"
  shows "tx_ok to msg (ws[i := Some (ack_element p w)]) n"
  using assms tx_ok_element [OF assms] ack_element_ok [of w p] by (intro tx_ok_update) auto

lemma tx_ok_fire:
  assumes "tx_ok to msg ws n"
  shows "tx_ok to msg (fire_slot i ws) n"
proof (cases "i < length ws \<and> ws ! i \<noteq> None")
  case True
  then obtain w where w: "ws ! i = Some w" "i < length ws" by auto
  with assms have "element_ok w" using tx_ok_element(3) [OF assms, of i w] by (simp add: tx_ok_def)
  with w show ?thesis
    by (auto simp: fire_slot_def intro!: tx_ok_update [OF assms w(1)] fire_element_ok)
next
  case False
  then have "fire_slot i ws = ws" by (auto simp: fire_slot_def list_update_same_conv)
  with assms show ?thesis by simp
qed

lemma tx_ok_resent:
  assumes "tx_ok to msg ws n" "i < WindowSize"
  shows "tx_ok to msg (ws[i := resent_slot (ws ! i)]) n"
    and "ws ! i = Some w \<Longrightarrow> resent_slot (ws ! i) = Some v \<Longrightarrow> acked v = acked w"
    and "resend_of g (ws ! i) \<noteq> [] \<Longrightarrow> 0 < i \<and> i \<le> n
       \<and> resend_of g (ws ! i) = [(raw_bytes (packet_of (Some to) (units 1 msg ! (i - 1))), g)]"
proof -
  have len: "i < length ws" using assms by (simp add: tx_ok_def)
  note ok = tx_ok_window [OF assms(1)]
  have due: "must_resend (Some w) = Inr True" if "due (Some w)" "ws ! i = Some w" for w
    using must_resend_due [OF ok len] that by simp
  show "tx_ok to msg (ws[i := resent_slot (ws ! i)]) n"
  proof (cases "ws ! i")
    case None
    then have "resent_slot (ws ! i) = ws ! i" by (simp add: resent_slot_def)
    with assms show ?thesis by simp
  next
    case (Some w)
    show ?thesis
    proof (cases "due (Some w)")
      case True
      with rearm_ok [OF tx_ok_element(3) [OF assms Some] due [OF True Some]] Some show ?thesis
        by (auto simp: resent_slot_def intro!: tx_ok_update [OF assms(1) Some])
    next
      case False
      with Some have "resent_slot (ws ! i) = ws ! i" by (simp add: resent_slot_def)
      with assms show ?thesis by simp
    qed
  qed
  show "acked v = acked w" if "ws ! i = Some w" "resent_slot (ws ! i) = Some v"
    using that rearm_ok(3) [OF tx_ok_element(3) [OF assms that(1)] due]
    by (cases "due (Some w)") (auto simp: resent_slot_def)
  show "0 < i \<and> i \<le> n
       \<and> resend_of g (ws ! i) = [(raw_bytes (packet_of (Some to) (units 1 msg ! (i - 1))), g)]"
    if ne: "resend_of g (ws ! i) \<noteq> []"
  proof -
    from ne obtain w where w: "ws ! i = Some w" by (auto simp: resend_of_def split: option.splits)
    with ne tx_ok_element [OF assms w] show ?thesis by (auto simp: resend_of_def split: if_splits)
  qed
qed

subsection \<open>Acknowledged slots\<close>

lemma slot_acked_store: "slot_acked j (ws[i := Some (NewWindowElement p)]) \<Longrightarrow> slot_acked j ws"
  by (cases "i = j") (auto simp: slot_acked_def NewWindowElement_def acked_def)

lemma slot_acked_ack:
  "slot_acked j (ws[i := Some (ack_element p w)]) \<Longrightarrow> j = i \<or> slot_acked j ws"
  by (cases "i = j") (auto simp: slot_acked_def)

lemma slot_acked_fire: "slot_acked j (fire_slot i ws) \<Longrightarrow> slot_acked j ws"
  by (cases "i = j") (auto simp: slot_acked_def fire_slot_def acked_def split: if_splits)

lemma slot_acked_resent: "slot_acked j (ws[i := resent_slot (ws ! i)]) \<Longrightarrow> slot_acked j ws"
proof -
  have "acked (rearm w) = acked w" for w
    by (simp add: rearm_def acked_def split: option.splits)
  then show "slot_acked j (ws[i := resent_slot (ws ! i)]) \<Longrightarrow> slot_acked j ws"
    by (cases "i = j") (auto simp: slot_acked_def resent_slot_def split: if_splits)
qed

lemma slot_acked_empty [simp]: "\<not> slot_acked j (replicate n None)"
  by (auto simp: slot_acked_def)

text \<open>The loop at the end of the server's \<open>send\<close>, on a window in which all units are stored.\<close>

lemma unblocked_acked:
  assumes "tx_ok to msg ws n" "\<not> (\<exists>i < Suc n. slot_blocks (ws ! i))" "0 < i" "i \<le> n"
  shows "slot_acked i ws"
proof -
  from assms(1,4) have i: "i < WindowSize" by (simp add: tx_ok_def)
  with assms(3,4) tx_ok_slot [OF assms(1)] obtain w where w: "ws ! i = Some w" by auto
  have "\<not> slot_blocks (ws ! i)" using assms(2,4) by (simp add: less_Suc_eq_le)
  with tx_ok_element [OF assms(1) i w] w i tx_ok_length [OF assms(1)] show ?thesis
    by (auto simp: slot_blocks_def slot_acked_def acked_def)
qed

subsection \<open>Where the loop of send stands\<close>

text \<open>
  \<open>Sending st\<close> is the test of the loop with \<open>startByte = st\<close>; \<open>Storing p next\<close> is inside
  \<open>sendPacket\<close>, between the write of \<open>p\<close> and the store of its window element; \<open>Sent\<close> is after
  the delivery notice.
\<close>

datatype send_pc = Sending nat | Storing packet send_pc | Sent

definition next_packet :: "32 word \<Rightarrow> udp_addr option \<Rightarrow> bytes \<Rightarrow> nat \<Rightarrow> packet \<times> send_pc" where
  "next_packet seq to msg startByte =
     (if startByte < length msg then
        (\<lparr>Type = DATA, SeqNum = seq, ToAddr = to, FromAddr = None,
          Payload = send_payload msg startByte\<rparr>, Sending (startByte + MaxPayload))
      else
        (\<lparr>Type = DELIVER, SeqNum = seq, ToAddr = to, FromAddr = None, Payload = []\<rparr>, Sent))"

fun send_at :: "udp_addr \<Rightarrow> bytes \<Rightarrow> send_pc \<Rightarrow> nat \<Rightarrow> bool" where
  "send_at to msg (Sending st) n \<longleftrightarrow> st = n * MaxPayload \<and> n \<le> length (chunks msg)"
| "send_at to msg (Storing p next) n \<longleftrightarrow>
     n < length (units 1 msg) \<and> p = packet_of (Some to) (units 1 msg ! n) \<and> send_at to msg next (Suc n)"
| "send_at to msg Sent n \<longleftrightarrow> n = length (units 1 msg)"

text \<open>How many units are on the wire when \<open>n\<close> are stored.\<close>

fun written :: "send_pc \<Rightarrow> nat \<Rightarrow> nat" where
  "written (Storing p next) n = Suc n"
| "written _ n = n"

lemma send_at_start: "send_at to msg (Sending 0) 0"
  by simp

lemma send_at_next:
  assumes "send_at to msg (Sending st) n" "next_packet (word_of_nat (Suc n)) (Some to) msg st = (p, next)"
  shows "send_at to msg (Storing p next) n"
proof (cases "st < length msg")
  case True
  with assms(1) have st: "st = n * MaxPayload" by auto
  with True have n: "n < length (chunks msg)" by (simp add: chunk_index)
  with True st assms(2) show ?thesis
    by (auto simp: next_packet_def units_nth packet_of_def chunk_nth add.commute)
next
  case False
  with assms(1) have n: "n = length (chunks msg)"
    using chunk_index [of n msg] by auto
  with False assms(2) show ?thesis
    by (auto simp: next_packet_def units_nth packet_of_def)
qed

lemma send_at_bound: "send_at to msg ph n \<Longrightarrow> n \<le> length (units 1 msg)"
  by (cases ph) auto

lemma written_bound: "send_at to msg ph n \<Longrightarrow> written ph n \<le> length (units 1 msg)"
  by (cases ph) auto

subsection \<open>A receiver window while messages arrive\<close>

text \<open>
  \<open>ms\<close> are the messages the peer has begun to send, one after the other.  Every slot holds a unit
  of one of them, and the slots the first message needs hold nothing but units of the first.
\<close>

definition rx_agrees :: "bytes list \<Rightarrow> recv_window \<Rightarrow> bool" where
  "rx_agrees ms ws \<longleftrightarrow>
     length ws = WindowSize
     \<and> (\<forall>i < WindowSize. \<forall>p. ws ! i = Some p \<longrightarrow>
          unat (SeqNum p) = i \<and> (\<exists>m \<in> set ms. content p \<in> set (units 1 m))
          \<and> (i \<le> length (units 1 (hd ms)) \<longrightarrow> content p \<in> set (units 1 (hd ms))))"

definition first_complete :: "bytes list \<Rightarrow> recv_window \<Rightarrow> bool" where
  "first_complete ms ws \<longleftrightarrow> ms \<noteq> [] \<and> window_complete (hd ms) ws"

lemma rx_agrees_slot:
  assumes "rx_agrees ms ws" "i < WindowSize" "ws ! i = Some p"
  shows "unat (SeqNum p) = i" "\<exists>m \<in> set ms. content p \<in> set (units 1 m)"
    "i \<le> length (units 1 (hd ms)) \<Longrightarrow> content p \<in> set (units 1 (hd ms))"
  using assms unfolding rx_agrees_def by blast+

lemma rx_agrees_length: "rx_agrees ms ws \<Longrightarrow> length ws = WindowSize"
  by (simp add: rx_agrees_def)

lemma rx_agrees_empty [simp]: "rx_agrees ms (replicate WindowSize None)"
  by (auto simp: rx_agrees_def)

lemma rx_agrees_snoc:
  assumes "rx_agrees ms ws"
  shows "rx_agrees (ms @ [m]) ws"
proof (cases ms)
  case Nil
  have "ws ! i = None" if "i < WindowSize" for i
    using rx_agrees_slot(2) [OF assms that] Nil by (cases "ws ! i") auto
  with assms show ?thesis unfolding rx_agrees_def by auto
next
  case (Cons a list)
  with assms show ?thesis unfolding rx_agrees_def by auto
qed

lemma first_complete_snoc: "first_complete ms ws \<Longrightarrow> first_complete (ms @ [m]) ws"
  by (cases ms) (auto simp: first_complete_def)

lemma first_complete_mono:
  assumes "first_complete ms ws" "\<forall>i. ws ! i \<noteq> None \<longrightarrow> ws' ! i \<noteq> None"
  shows "first_complete ms ws'"
  using assms by (auto simp: first_complete_def window_complete_def)

lemma unit_slot:
  assumes "content p \<in> set (units 1 m)"
  shows "0 < unat (SeqNum p) \<and> unat (SeqNum p) \<le> length (units 1 m)
     \<and> content p = units 1 m ! (unat (SeqNum p) - 1)
     \<and> Type p = (if unat (SeqNum p) = length (units 1 m) then DELIVER else DATA)
     \<and> (unat (SeqNum p) \<noteq> length (units 1 m) \<longrightarrow> Payload p = chunks m ! (unat (SeqNum p) - 1))"
proof -
  obtain j where j: "j < length (units 1 m)" "content p = units 1 m ! j" "fst (snd (content p)) = 1 + j"
    using assms by (rule in_units)
  have "fst (snd (content p)) = unat (SeqNum p)" by (simp add: content_def)
  with j(3) have s: "unat (SeqNum p) = Suc j" by simp
  have "content p = (Type p, Suc j, Payload p)" using s by (simp add: content_def)
  with j(2) units_nth_any [OF j(1)]
  have "Type p = (if j = length (chunks m) then DELIVER else DATA)
      \<and> (j \<noteq> length (chunks m) \<longrightarrow> Payload p = chunks m ! j)"
    by (auto split: if_splits)
  with s j(1,2) show ?thesis by simp
qed

lemma rx_agrees_save:
  assumes "rx_agrees ms ws" "m \<in> set ms" "content p \<in> set (units 1 m)"
    and "m = hd ms \<or> first_complete ms ws" and "window_save p ws = Inr ws'"
  shows "rx_agrees ms ws'"
proof (cases "ws ! unat (SeqNum p) = None")
  case True
  let ?i = "unat (SeqNum p)"
  from True assms(1,5) have ws': "ws' = ws[?i := Some p]" "?i < WindowSize"
    by (auto simp: window_save_eq rx_agrees_def split: if_splits)
  have "content p \<in> set (units 1 (hd ms))" if le: "?i \<le> length (units 1 (hd ms))"
    using assms(4)
  proof
    assume "first_complete ms ws"
    with le unit_slot [OF assms(3)] have "ws ! ?i \<noteq> None"
      by (auto simp: first_complete_def window_complete_def)
    with True show ?thesis by simp
  qed (use assms(3) in simp)
  with assms(1-3) ws' show ?thesis
    unfolding rx_agrees_def by (simp add: nth_list_update) blast
next
  case False
  with assms(5) have "ws' = ws" by (auto simp: window_save_eq split: if_splits)
  with assms(1) show ?thesis by simp
qed

lemma window_save_filled:
  "window_save p ws = Inr ws' \<Longrightarrow> \<forall>i. ws ! i \<noteq> None \<longrightarrow> ws' ! i \<noteq> None"
  by (auto simp: window_save_eq nth_list_update split: if_splits)

lemma window_save_slot:
  "window_save p ws = Inr ws' \<Longrightarrow> ws' ! unat (SeqNum p) \<noteq> None"
  by (auto simp: window_save_eq split: if_splits)

subsection \<open>Reading the first message\<close>

lemma first_slot:
  assumes "rx_agrees ms ws" "first_complete ms ws" "fits (hd ms)" "j \<le> length (chunks (hd ms))"
  shows "\<exists>p. ws ! Suc j = Some p \<and> Type p = (if j = length (chunks (hd ms)) then DELIVER else DATA)
     \<and> (j \<noteq> length (chunks (hd ms)) \<longrightarrow> Payload p = chunks (hd ms) ! j)"
proof -
  from assms(2,4) obtain p where p: "ws ! Suc j = Some p"
    unfolding first_complete_def window_complete_def by force
  from assms(3,4) have lt: "Suc j < WindowSize" unfolding fits_chunks by simp
  note s = rx_agrees_slot [OF assms(1) lt p]
  from s(1) s(3) assms(4) unit_slot [of p "hd ms"] p show ?thesis by auto
qed

lemma first_reassembled:
  assumes "rx_agrees ms ws" "first_complete ms ws" "fits (hd ms)"
  shows "window_packets ws = Inr (hd ms)"
proof -
  have slot: "\<exists>p. drop 1 ws ! j = Some p \<and> Type p = (if j = length (chunks (hd ms)) then DELIVER else DATA)
      \<and> (j \<noteq> length (chunks (hd ms)) \<longrightarrow> Payload p = chunks (hd ms) ! j)"
    if "j \<le> length (chunks (hd ms))" for j
    using first_slot [OF assms that] rx_agrees_length [OF assms(1)] by simp
  have "collect [] (drop 1 ws) = Inr ([] @ concat (chunks (hd ms)))"
  proof (rule collect_units)
    show "\<exists>p. drop 1 ws ! j = Some p \<and> Type p = DATA \<and> Payload p = chunks (hd ms) ! j"
      if "j < length (chunks (hd ms))" for j
      using slot [of j] that by simp
    show "\<exists>p. drop 1 ws ! length (chunks (hd ms)) = Some p \<and> Type p = DELIVER"
      using slot [of "length (chunks (hd ms))"] by simp
    show "length (chunks (hd ms)) < length (drop 1 ws)"
      using assms(3) rx_agrees_length [OF assms(1)] by (simp add: fits_chunks)
  qed
  then show ?thesis by (simp add: window_packets_def)
qed

lemma scan_deliver_first:
  "scan_deliver i ws = int (i + j) \<Longrightarrow> k < j \<Longrightarrow> k < length ws \<Longrightarrow> ws ! k = Some p \<Longrightarrow> Type p \<noteq> DELIVER"
proof (induction ws arbitrary: i j k)
  case (Cons slot ws)
  show ?case
  proof (cases "\<exists>q. slot = Some q \<and> Type q = DELIVER")
    case True
    then have "scan_deliver i (slot # ws) = int i" by auto
    with Cons.prems show ?thesis by simp
  next
    case False
    then have rec: "scan_deliver (Suc i) ws = int (i + j)"
      using Cons.prems(1) by (auto split: option.splits if_splits)
    obtain j' where j': "j = Suc j'" using Cons.prems(2) by (cases j) auto
    show ?thesis
    proof (cases k)
      case 0
      with False Cons.prems show ?thesis by auto
    next
      case (Suc k')
      with Cons.IH [of "Suc i" j' k'] rec j' Cons.prems show ?thesis by simp
    qed
  qed
qed simp

subsection \<open>checkForDeliver\<close>

definition checker_ok :: "bytes list \<Rightarrow> recv_window \<Rightarrow> int option \<Rightarrow> bool" where
  "checker_ok ms ws checker \<longleftrightarrow>
     (case checker of
        None \<Rightarrow> first_complete ms ws
      | Some d \<Rightarrow> d = -1 \<or> ms \<noteq> [] \<and> d = int (length (units 1 (hd ms))))"

definition poll_ok :: "bytes list \<Rightarrow> recv_window \<Rightarrow> int option \<Rightarrow> bool chan \<Rightarrow> bool" where
  "poll_ok ms ws checker ch \<longleftrightarrow>
     checker_ok ms ws checker \<and> (chan_len ch \<noteq> 0 \<longrightarrow> first_complete ms ws)"

lemma scan_first:
  assumes agr: "rx_agrees ms ws" and fits: "\<forall>m \<in> set ms. fits m"
    and first: "length ms \<le> 1 \<or> first_complete ms ws"
    and scan: "scan_deliver 0 ws \<noteq> -1"
  shows "ms \<noteq> [] \<and> scan_deliver 0 ws = int (length (units 1 (hd ms)))"
proof -
  obtain d where d: "d < length ws" "scan_deliver 0 ws = int (0 + d)"
    using scan scan_deliver_range [of 0 ws] by auto
  obtain p where p: "ws ! d = Some p" "Type p = DELIVER"
    using scan_deliver_found [OF d(2,1)] by blast
  have lt: "d < WindowSize" using d(1) rx_agrees_length [OF agr] by simp
  note s = rx_agrees_slot [OF agr lt p(1)]
  from s(2) have ne: "ms \<noteq> []" by auto
  have "content p \<in> set (units 1 (hd ms))"
    using first
  proof
    assume "length ms \<le> 1"
    with ne obtain m where "ms = [m]" by (cases ms) auto
    with s(2) show ?thesis by simp
  next
    assume c: "first_complete ms ws"
    have hd: "fits (hd ms)" using fits ne by simp
    let ?k = "length (units 1 (hd ms))"
    obtain q where q: "ws ! ?k = Some q" "Type q = DELIVER"
      using first_slot [OF agr c hd, of "length (chunks (hd ms))"] by auto
    have "?k < length ws"
      using hd rx_agrees_length [OF agr] by (simp add: fits_chunks)
    with scan_deliver_first [OF d(2) _ this q(1)] q(2) have "d \<le> ?k" by (meson not_le)
    with s(3) show ?thesis by simp
  qed
  from unit_slot [OF this] s(1) p(2) have "d = length (units 1 (hd ms))" by (auto split: if_splits)
  with ne d(2) show ?thesis by simp
qed

lemma check_round_checker:
  assumes "rx_agrees ms ws" "\<forall>m \<in> set ms. fits m" "length ms \<le> 1 \<or> first_complete ms ws"
    and "checker_ok ms ws (Some d)"
  shows "\<exists>d' ready. check_round ws d = Inr (d', ready) \<and> checker_ok ms ws (Some d')
     \<and> (ready \<longleftrightarrow> d \<noteq> -1 \<and> first_complete ms ws)"
proof (cases "d = -1")
  case True
  then show ?thesis
    using scan_first [OF assms(1-3)]
    by (cases "scan_deliver 0 ws = -1") (auto simp: check_round_def checker_ok_def)
next
  case False
  with assms(4) have ne: "ms \<noteq> []" and d: "d = int (Suc (length (chunks (hd ms))))"
    by (auto simp: checker_ok_def)
  have "Suc (length (chunks (hd ms))) < length ws"
    using assms(2) ne rx_agrees_length [OF assms(1)] by (simp add: fits_chunks)
  from check_round_second [OF this] ne assms(4) False show ?thesis
    unfolding d by (auto simp: first_complete_def)
qed

lemma check_rounds_complete:
  assumes "rx_agrees ms ws" "\<forall>m \<in> set ms. fits m" "first_complete ms ws"
  shows "check_round ws (-1) = Inr (int (length (units 1 (hd ms))), False)"
    and "check_round ws (int (length (units 1 (hd ms)))) = Inr (int (length (units 1 (hd ms))), True)"
proof -
  let ?k = "length (units 1 (hd ms))"
  have ne: "ms \<noteq> []" using assms(3) by (simp add: first_complete_def)
  then have hd: "fits (hd ms)" using assms(2) by simp
  obtain q where q: "ws ! ?k = Some q" "Type q = DELIVER"
    using first_slot [OF assms(1,3) hd, of "length (chunks (hd ms))"] by auto
  have k: "?k < length ws" using hd rx_agrees_length [OF assms(1)] by (simp add: fits_chunks)
  with scan_deliver_None [of 0 ws ?k q] q have "scan_deliver 0 ws \<noteq> -1" by blast
  with scan_first [OF assms(1,2)] assms(3) have "scan_deliver 0 ws = int ?k" by blast
  then show "check_round ws (-1) = Inr (int ?k, False)" by (simp add: check_round_def)
  show "check_round ws (int ?k) = Inr (int ?k, True)"
    using check_round_second [of "hd ms" ws] k assms(3) by (simp add: first_complete_def)
qed

lemma poll_ok_mono:
  assumes "poll_ok ms ws checker ch" "\<forall>i. ws ! i \<noteq> None \<longrightarrow> ws' ! i \<noteq> None"
  shows "poll_ok ms ws' checker ch"
  using assms first_complete_mono [OF _ assms(2)]
  by (auto simp: poll_ok_def checker_ok_def split: option.splits)

lemma poll_ok_snoc:
  assumes "poll_ok ms ws checker ch"
  shows "poll_ok (ms @ [m]) ws checker ch"
  using assms first_complete_snoc [of ms ws m]
  by (auto simp: poll_ok_def checker_ok_def split: option.splits)

lemma poll_ok_recv:
  "poll_ok ms ws checker ch \<Longrightarrow> chan_recv ch = Some (b, ch') \<Longrightarrow>
     first_complete ms ws \<and> poll_ok ms ws checker ch'"
  by (auto simp: poll_ok_def chan_recv_def chan_len_def split: list.splits)

end
