(* ===== verification/Session_Net.thy ===== *)
theory Session_Net
  imports Transport
begin

section \<open>The datagrams between a client and a server\<close>

text \<open>
  Two peers write datagrams to the router, which writes them on to the other.  A datagram that was
  written may reach the router any number of times, late, or never, and so may what the router
  writes: what is under way is a set that only grows.  The invariant \<open>net_ok\<close> says which messages
  (type, number and payload) are under way, in terms of two sets: those the client may have written
  and those the server may have written.
\<close>

subsection \<open>Two hosts the router can connect\<close>

definition hosts :: "udp_addr \<Rightarrow> udp_addr \<Rightarrow> bool" where
  "hosts cl sv \<longleftrightarrow>
     wire_addr cl \<and> wire_addr sv \<and> canon cl = cl \<and> canon sv = sv
     \<and> route_addr cl sv = sv \<and> route_addr sv cl = cl \<and> cl \<noteq> sv"

lemma example_hosts: "hosts ClientAddr ServerAddr"
  by (simp add: hosts_def route_addr_def) (simp add: ClientAddr_def ServerAddr_def)

subsection \<open>Messages on the wire\<close>

definition small :: "unit_msg \<Rightarrow> bool" where
  "small u \<longleftrightarrow> length (snd (snd u)) \<le> MaxPayload \<and> fst (snd u) < 2 ^ 32"

definition written_ok :: "udp_addr \<Rightarrow> unit_msg set \<Rightarrow> bytes \<Rightarrow> bool" where
  "written_ok to M b \<longleftrightarrow> (\<exists>u \<in> M. small u \<and> b = raw_bytes (packet_of (Some to) u))"

definition arrives :: "udp_addr \<Rightarrow> unit_msg set \<Rightarrow> bytes \<Rightarrow> bool" where
  "arrives from M b \<longleftrightarrow>
     (\<exists>q. ParsePacket b = (Some q, None) \<and> content q \<in> M \<and> FromAddr q = Some from)"

definition delivered_ok ::
    "udp_addr \<Rightarrow> udp_addr \<Rightarrow> unit_msg set \<Rightarrow> unit_msg set \<Rightarrow> datagram \<Rightarrow> bool" where
  "delivered_ok cl sv Mc Ms d \<longleftrightarrow>
     snd d = sv \<and> arrives cl Mc (fst d) \<or> snd d = cl \<and> arrives sv Ms (fst d)"

definition net_ok ::
    "udp_addr \<Rightarrow> udp_addr \<Rightarrow> unit_msg set \<Rightarrow> unit_msg set
       \<Rightarrow> (udp_addr \<times> bytes) set \<Rightarrow> router \<Rightarrow> datagram set \<Rightarrow> bool" where
  "net_ok cl sv Mc Ms wire r routed \<longleftrightarrow>
     (\<forall>(src, b) \<in> wire. src = cl \<and> written_ok sv Mc b \<or> src = sv \<and> written_ok cl Ms b)
     \<and> (\<forall>(d, p) \<in> set (pending r). FromAddr p \<noteq> None \<and> ToAddr p \<noteq> None
          \<and> delivered_ok cl sv Mc Ms (forwarded p))
     \<and> (\<forall>d \<in> routed. delivered_ok cl sv Mc Ms d)"

lemma written_ok_mono: "written_ok to M b \<Longrightarrow> M \<subseteq> M' \<Longrightarrow> written_ok to M' b"
  by (auto simp: written_ok_def)

lemma delivered_ok_mono:
  "delivered_ok cl sv Mc Ms d \<Longrightarrow> Mc \<subseteq> Mc' \<Longrightarrow> Ms \<subseteq> Ms' \<Longrightarrow> delivered_ok cl sv Mc' Ms' d"
  by (auto simp: delivered_ok_def arrives_def)

lemma net_ok_mono:
  assumes "net_ok cl sv Mc Ms wire r routed" "Mc \<subseteq> Mc'" "Ms \<subseteq> Ms'"
  shows "net_ok cl sv Mc' Ms' wire r routed"
  using assms(1) written_ok_mono [OF _ assms(2)] written_ok_mono [OF _ assms(3)]
    delivered_ok_mono [OF _ assms(2,3)]
  unfolding net_ok_def by fast

lemma net_ok_empty: "net_ok cl sv Mc Ms {} router_init {}"
  by (simp add: net_ok_def router_init_def)

text \<open>A peer writes.\<close>

lemma net_ok_client_writes:
  assumes "net_ok cl sv Mc Ms wire r routed" "\<forall>b \<in> set bs. written_ok sv Mc b"
  shows "net_ok cl sv Mc Ms (Pair cl ` set bs \<union> wire) r routed"
  using assms by (auto simp: net_ok_def)

lemma net_ok_server_writes:
  assumes "net_ok cl sv Mc Ms wire r routed" "\<forall>b \<in> set bs. written_ok cl Ms b"
  shows "net_ok cl sv Mc Ms (Pair sv ` set bs \<union> wire) r routed"
  using assms by (auto simp: net_ok_def)

text \<open>The router takes a datagram that was written, and runs one of its timers.\<close>

lemma written_forwarded:
  assumes "hosts cl sv" "written_ok sv Mc b" "fst (router_decode cl (take 2048 b)) = Some p"
  shows "FromAddr p \<noteq> None \<and> ToAddr p \<noteq> None \<and> snd (forwarded p) = sv \<and> arrives cl Mc (fst (forwarded p))"
proof -
  from assms(2) obtain u where u: "u \<in> Mc" "small u" "b = raw_bytes (packet_of (Some sv) u)"
    by (auto simp: written_ok_def)
  from assms(1) have w: "wire_addr sv" "wire_addr cl" by (simp_all add: hosts_def)
  from forward_msg [OF w] u assms show ?thesis
    by (fastforce simp: small_def arrives_def hosts_def)
qed

lemma hosts_sym: "hosts cl sv \<Longrightarrow> hosts sv cl"
  by (auto simp: hosts_def)

lemma net_ok_forward:
  assumes hosts: "hosts cl sv" and net: "net_ok cl sv Mc Ms wire r routed"
    and b: "(src, b) \<in> wire" and dec: "fst (router_decode src (take 2048 b)) = Some p"
  shows "FromAddr p \<noteq> None \<and> ToAddr p \<noteq> None \<and> delivered_ok cl sv Mc Ms (forwarded p)"
proof -
  from net b consider "src = cl" "written_ok sv Mc b" | "src = sv" "written_ok cl Ms b"
    by (auto simp: net_ok_def)
  then show ?thesis
  proof cases
    case 1
    with written_forwarded [OF hosts 1(2)] dec show ?thesis by (auto simp: delivered_ok_def)
  next
    case 2
    with written_forwarded [OF hosts_sym [OF hosts] 2(2)] dec show ?thesis
      by (auto simp: delivered_ok_def)
  qed
qed

lemma net_ok_router_receive:
  assumes hosts: "hosts cl sv" and net: "net_ok cl sv Mc Ms wire r routed"
    and b: "(src, b) \<in> wire" and step: "router_receive f u k src b r = Inr (r', out)"
  shows "net_ok cl sv Mc Ms wire r' (set out \<union> routed)"
proof (cases "fst (router_decode src (take 2048 b))")
  case None
  with step net show ?thesis by (simp add: router_receive_eq)
next
  case (Some p)
  note p = net_ok_forward [OF hosts net b Some]
  from step Some have proc: "router_process f u k p r = Inr (r', out)"
    by (simp add: router_receive_eq)
  consider "r' = r" "out = []" | "r' = decrQueue (incrQueue r)" "out = [forwarded p]"
    | d where "pending r' = pending r @ [(d, p)]" "out = []"
    using proc p by (auto simp: router_process_def Let_def router_send_ok incrQueue_def split: if_splits)
  then show ?thesis
  proof cases
    case 1
    with net show ?thesis by simp
  next
    case 2
    with net p show ?thesis by (auto simp: net_ok_def decrQueue_def incrQueue_def)
  next
    case 3
    with net p show ?thesis by (auto simp: net_ok_def)
  qed
qed

lemma net_ok_router_fire:
  assumes net: "net_ok cl sv Mc Ms wire r routed"
    and step: "router_fire i r = Inr (r', out)"
  shows "net_ok cl sv Mc Ms wire r' (set out \<union> routed)"
proof -
  from step have i: "i < length (pending r)"
    by (auto simp: router_fire_def go_bind_Inr_iff go_index_def split: if_splits)
  obtain d p where dp: "pending r ! i = (d, p)" by fastforce
  with i have "(d, p) \<in> set (pending r)" by (metis nth_mem)
  with net have p: "FromAddr p \<noteq> None" "ToAddr p \<noteq> None" "delivered_ok cl sv Mc Ms (forwarded p)"
    by (auto simp: net_ok_def)
  have "set (pending r') \<subseteq> set (pending r)" "out = [forwarded p]"
    using step i dp p
    by (auto simp: router_fire_def router_send_ok decrQueue_def dest: in_set_takeD in_set_dropD)
  with net p(3) show ?thesis by (fastforce simp: net_ok_def)
qed

text \<open>What reaches a peer.\<close>

lemma net_ok_to_server:
  assumes "hosts cl sv" "net_ok cl sv Mc Ms wire r routed" "(b, sv) \<in> routed"
  shows "arrives cl Mc b"
  using assms by (force simp: net_ok_def delivered_ok_def hosts_def)

lemma net_ok_to_client:
  assumes "hosts cl sv" "net_ok cl sv Mc Ms wire r routed" "(b, cl) \<in> routed"
  shows "arrives sv Ms b"
  using assms by (force simp: net_ok_def delivered_ok_def hosts_def)

end
