(* ===== verification/Session.thy ===== *)
theory Session
  imports Session_Parts Session_Net
begin

section \<open>A client, the router and the server running together\<close>

text \<open>
  The step relation \<open>sys_step\<close> interleaves the goroutines of a client that sends one request, those
  of the server, and the router, over datagrams that may be lost, repeated, delayed and reordered.
  A step is one statement that touches shared state: one round of a receive loop, one slot of a
  retransmission pass, one round of \<open>checkForDeliver\<close>, one write, one store, one channel operation.
  A step of a goroutine that panics does not exist here; which steps panic is shown separately.
\<close>

subsection \<open>sendPacket in two steps\<close>

text \<open>Between the write and the store of the window element the other goroutines run.\<close>

definition client_write :: "packet \<Rightarrow> HttpClient \<Rightarrow> datagram go" where
  "client_write p c = go_bind (Raw p) (\<lambda>b. Inr (b, c_routerAddr c))"

definition client_store :: "packet \<Rightarrow> HttpClient \<Rightarrow> HttpClient go" where
  "client_store p c =
     go_bind (go_store (c_senderWindow c) (unat (c_seqNum c)) (Some (NewWindowElement p)))
       (\<lambda>ws. Inr (c\<lparr>c_senderWindow := ws, c_seqNum := c_seqNum c + 1\<rparr>))"

lemma client_sendPacket_split:
  "client_sendPacket p c =
     go_bind (client_write p c) (\<lambda>d. go_bind (client_store p c) (\<lambda>c'. Inr (c', d)))"
  by (cases "Raw p"; cases "go_store (c_senderWindow c) (unat (c_seqNum c)) (Some (NewWindowElement p))")
    (simp_all add: client_sendPacket_def client_write_def client_store_def)

definition server_write :: "packet \<Rightarrow> HttpServer \<Rightarrow> datagram go" where
  "server_write p s = go_bind (Raw p) (\<lambda>b. Inr (b, s_routerAddr s))"

definition server_store :: "packet \<Rightarrow> HttpServer \<Rightarrow> HttpServer go" where
  "server_store p s =
     go_bind (go_store (s_senderWindow s) (unat (s_seqNum s)) (Some (NewWindowElement p)))
       (\<lambda>ws. Inr (s\<lparr>s_senderWindow := ws, s_seqNum := s_seqNum s + 1\<rparr>))"

lemma server_sendPacket_split:
  "server_sendPacket p s =
     go_bind (server_write p s) (\<lambda>d. go_bind (server_store p s) (\<lambda>s'. Inr (s', d)))"
  by (cases "Raw p"; cases "go_store (s_senderWindow s) (unat (s_seqNum s)) (Some (NewWindowElement p))")
    (simp_all add: server_sendPacket_def server_write_def server_store_def)

subsection \<open>The goroutines of the client\<close>

text \<open>
  \<open>client_main\<close> is the main goroutine from \<open>establishConnection\<close> to the end of \<open>send\<close>: at
  \<open>C_Syn\<close> it writes a SYN, at \<open>C_Select\<close> it waits for the SYN-ACK or the time-out, \<open>C_Send\<close> is
  inside \<open>send\<close>, at \<open>C_Done\<close> it has returned the response.  \<open>client_bg\<close> are the three others; the
  datagrams \<open>receive\<close> may read are a set.  The list is what a step writes to the router.
\<close>

datatype client_pc = C_Syn | C_Select | C_Send send_pc | C_Done bytes

inductive client_main ::
    "bytes \<Rightarrow> HttpClient \<Rightarrow> client_pc \<Rightarrow> bytes list \<Rightarrow> HttpClient \<Rightarrow> client_pc \<Rightarrow> bool" for req where
  syn: "client_send_syn c = Inr (c', out) \<Longrightarrow> client_main req c C_Syn (map fst out) c' C_Select"
| timeout: "client_main req c C_Select [] c C_Syn"
| synack: "client_take_synack c = Some c' \<Longrightarrow>
    client_main req c C_Select [] c' (C_Send (Sending 0))"
| tx: "next_packet (c_seqNum c) (c_serverAddr c) req st = (p, next) \<Longrightarrow> client_write p c = Inr d \<Longrightarrow>
    client_main req c (C_Send (Sending st)) [fst d] c (C_Send (Storing p next))"
| store: "client_store p c = Inr c' \<Longrightarrow>
    client_main req c (C_Send (Storing p next)) [] c' (C_Send next)"
| await: "client_await_response c = Some (Inr (c', raw)) \<Longrightarrow>
    client_main req c (C_Send Sent) [] c' (C_Done raw)"

inductive client_bg :: "bytes set \<Rightarrow> HttpClient \<Rightarrow> bytes list \<Rightarrow> HttpClient \<Rightarrow> bool" for B where
  rx: "b \<in> B \<Longrightarrow> client_receive b c = Inr (c', out) \<Longrightarrow> client_bg B c (map fst out) c'"
| resend: "i < unat (c_seqNum c) \<Longrightarrow> client_resend_at i c = Inr (c', out) \<Longrightarrow>
    client_bg B c (map fst out) c'"
| tick: "client_bg B c [] (client_fire i c)"
| check: "client_checkForDeliver c = Inr c' \<Longrightarrow> client_bg B c [] c'"

subsection \<open>The goroutines of the server\<close>

text \<open>
  The main loop: \<open>establishConnection\<close> (\<open>S_Syn\<close>, \<open>S_Synack\<close>, \<open>S_Select\<close>), the wait for a request,
  its handling, \<open>send\<close> with the loop at its end, \<open>disconnected\<close> and \<open>reset\<close>.  \<open>handles q w r w'\<close>
  stands for \<open>handleRequest\<close>: on request \<open>q\<close> in world \<open>w\<close> it may answer \<open>r\<close> and leave \<open>w'\<close>.  The
  history holds each request that was handled, with its response.

  The test \<open>isConnected\<close> is at the head of a retransmission pass, which may go on after the
  connection was closed, so it does not guard \<open>resend\<close> here.
\<close>

datatype server_pc =
    S_Syn | S_Synack | S_Select | S_Await | S_Handle bytes | S_Send bytes send_pc | S_Close | S_Reset

type_synonym 'w handler = "bytes \<Rightarrow> 'w \<Rightarrow> bytes \<Rightarrow> 'w \<Rightarrow> bool"

type_synonym history = "(bytes \<times> bytes) list"

inductive server_main ::
    "'w handler \<Rightarrow> HttpServer \<Rightarrow> server_pc \<Rightarrow> history \<Rightarrow> 'w \<Rightarrow> bytes list
       \<Rightarrow> HttpServer \<Rightarrow> server_pc \<Rightarrow> history \<Rightarrow> 'w \<Rightarrow> bool" for handles where
  syn: "server_take_syn s = Some s' \<Longrightarrow> server_main handles s S_Syn h w [] s' S_Synack h w"
| synack: "server_send_synack s = Inr (s', out) \<Longrightarrow>
    server_main handles s S_Synack h w (map fst out) s' S_Select h w"
| timeout: "server_main handles s S_Select h w [] s S_Synack h w"
| ack: "server_take_ack s = Some s' \<Longrightarrow> server_main handles s S_Select h w [] s' S_Await h w"
| await: "server_await_request s = Some (Inr (s', raw)) \<Longrightarrow>
    server_main handles s S_Await h w [] s' (S_Handle raw) h w"
| handle: "handles raw w resp w' \<Longrightarrow>
    server_main handles s (S_Handle raw) h w [] s (S_Send resp (Sending 0)) (h @ [(raw, resp)]) w'"
| tx: "next_packet (s_seqNum s) (s_clientAddr s) resp st = (p, next) \<Longrightarrow> server_write p s = Inr d \<Longrightarrow>
    server_main handles s (S_Send resp (Sending st)) h w [fst d] s (S_Send resp (Storing p next)) h w"
| store: "server_store p s = Inr s' \<Longrightarrow>
    server_main handles s (S_Send resp (Storing p next)) h w [] s' (S_Send resp next) h w"
| unblock: "server_send_blocked s = Inr False \<Longrightarrow>
    server_main handles s (S_Send resp Sent) h w [] s S_Close h w"
| close: "server_main handles s S_Close h w [] (disconnected s) S_Reset h w"
| reset: "server_main handles s S_Reset h w [] (server_reset s) S_Syn h w"

inductive server_bg :: "bytes set \<Rightarrow> HttpServer \<Rightarrow> bytes list \<Rightarrow> HttpServer \<Rightarrow> bool" for B where
  rx: "b \<in> B \<Longrightarrow> server_receive b s = Inr (s', out) \<Longrightarrow> server_bg B s (map fst out) s'"
| resend: "i < unat (s_seqNum s) \<Longrightarrow> server_resend_at i s = Inr (s', out) \<Longrightarrow>
    server_bg B s (map fst out) s'"
| tick: "server_bg B s [] (server_fire i s)"
| check: "server_checkForDeliver s = Inr s' \<Longrightarrow> server_bg B s [] s'"

subsection \<open>The system\<close>

record 'w sys =
  client :: HttpClient
  cpc :: client_pc
  server :: HttpServer
  spc :: server_pc
  relay :: router
  wire :: "(udp_addr \<times> bytes) set"
  routed :: "datagram set"
  handled :: history
  world :: 'w

definition sys_init :: "bool \<Rightarrow> udp_addr \<Rightarrow> udp_addr \<Rightarrow> 'w \<Rightarrow> 'w sys" where
  "sys_init verbose gate sv w =
     \<lparr>client = initHttpClient verbose gate sv, cpc = C_Syn, server = initHttpServer gate, spc = S_Syn,
      relay = router_init, wire = {}, routed = {}, handled = [], world = w\<rparr>"

definition reads :: "udp_addr \<Rightarrow> 'w sys \<Rightarrow> bytes set" where
  "reads a x = {b. (b, a) \<in> routed x}"

inductive sys_step ::
    "router_flags \<Rightarrow> udp_addr \<Rightarrow> udp_addr \<Rightarrow> 'w handler \<Rightarrow> bytes \<Rightarrow> 'w sys \<Rightarrow> 'w sys \<Rightarrow> bool"
  for f cl sv handles req where
  client_main: "client_main req (client x) (cpc x) out c' pc' \<Longrightarrow>
    sys_step f cl sv handles req x
      (x\<lparr>client := c', cpc := pc', wire := Pair cl ` set out \<union> wire x\<rparr>)"
| client_bg: "client_bg (reads cl x) (client x) out c' \<Longrightarrow>
    sys_step f cl sv handles req x (x\<lparr>client := c', wire := Pair cl ` set out \<union> wire x\<rparr>)"
| server_main: "server_main handles (server x) (spc x) (handled x) (world x) out s' pc' h' w' \<Longrightarrow>
    sys_step f cl sv handles req x
      (x\<lparr>server := s', spc := pc', handled := h', world := w', wire := Pair sv ` set out \<union> wire x\<rparr>)"
| server_bg: "server_bg (reads sv x) (server x) out s' \<Longrightarrow>
    sys_step f cl sv handles req x (x\<lparr>server := s', wire := Pair sv ` set out \<union> wire x\<rparr>)"
| router_reads: "(src, b) \<in> wire x \<Longrightarrow> 0 \<le> u \<Longrightarrow> u < 1 \<Longrightarrow> k < 100 \<Longrightarrow>
    router_receive f u k src b (relay x) = Inr (r', out) \<Longrightarrow>
    sys_step f cl sv handles req x (x\<lparr>relay := r', routed := set out \<union> routed x\<rparr>)"
| router_timer: "router_fire i (relay x) = Inr (r', out) \<Longrightarrow>
    sys_step f cl sv handles req x (x\<lparr>relay := r', routed := set out \<union> routed x\<rparr>)"

inductive_cases client_mainE: "client_main req c pc out c' pc'"
inductive_cases client_bgE: "client_bg B c out c'"
inductive_cases server_mainE: "server_main handles s pc h w out s' pc' h' w'"
inductive_cases server_bgE: "server_bg B s out s'"
inductive_cases sys_stepE: "sys_step f cl sv handles req x y"

end
