(* ===== verification/Session_Client.thy ===== *)
theory Session_Client
  imports Session
begin

section \<open>The client's share of the session invariant\<close>

text \<open>
  What every step of the client keeps, given what may arrive from the server.  \<open>resps\<close> are the
  responses the server has begun to send, in order.
\<close>

subsection \<open>What the client has written\<close>

definition client_phase :: "client_pc \<Rightarrow> send_pc option" where
  "client_phase pc = (case pc of C_Syn \<Rightarrow> None | C_Select \<Rightarrow> None | C_Send ph \<Rightarrow> Some ph | C_Done raw \<Rightarrow> Some Sent)"

definition client_written :: "client_pc \<Rightarrow> HttpClient \<Rightarrow> nat" where
  "client_written pc c =
     (case client_phase pc of None \<Rightarrow> 0 | Some ph \<Rightarrow> written ph (unat (c_seqNum c) - 1))"

definition acks_of :: "recv_window \<Rightarrow> unit_msg set" where
  "acks_of ws = {(ACK, i, []) | i. 0 < i \<and> i < WindowSize \<and> ws ! i \<noteq> None}"

definition client_msgs :: "bytes \<Rightarrow> client_pc \<Rightarrow> HttpClient \<Rightarrow> unit_msg set" where
  "client_msgs req pc c =
     {(SYN, 0, []), (ACK, 0, [])} \<union> acks_of (c_receiverWindow c)
     \<union> set (take (client_written pc c) (units 1 req))"

text \<open>What the server may have written when the client has written \<open>n\<close> units.\<close>

definition server_msgs :: "nat \<Rightarrow> bytes list \<Rightarrow> unit_msg set" where
  "server_msgs n resps =
     {(SYNACK, 0, [])} \<union> {(ACK, i, []) | i. 0 < i \<and> i \<le> n} \<union> (\<Union>m \<in> set resps. set (units 1 m))"

lemma acks_of_mono:
  "\<forall>i. ws ! i \<noteq> None \<longrightarrow> ws' ! i \<noteq> None \<Longrightarrow> acks_of ws \<subseteq> acks_of ws'"
  by (auto simp: acks_of_def)

lemma server_msgs_mono: "n \<le> n' \<Longrightarrow> set resps \<subseteq> set resps' \<Longrightarrow> server_msgs n resps \<subseteq> server_msgs n' resps'"
  by (fastforce simp: server_msgs_def)

lemma client_msgs_mono:
  assumes "\<forall>i. c_receiverWindow c ! i \<noteq> None \<longrightarrow> c_receiverWindow c' ! i \<noteq> None"
    and "client_written pc c \<le> client_written pc' c'"
  shows "client_msgs req pc c \<subseteq> client_msgs req pc' c'"
  unfolding client_msgs_def
  by (intro Un_mono order_refl acks_of_mono assms(1) set_take_subset_set_take assms(2))

subsection \<open>The invariant\<close>

definition client_tx_ok :: "udp_addr \<Rightarrow> bytes \<Rightarrow> client_pc \<Rightarrow> HttpClient \<Rightarrow> bool" where
  "client_tx_ok sv req pc c \<longleftrightarrow>
     c_serverAddr c = Some sv
     \<and> (case client_phase pc of
          None \<Rightarrow> c_seqNum c = 0 \<and> c_senderWindow c = replicate WindowSize None
        | Some ph \<Rightarrow> \<exists>n. send_at sv req ph n \<and> tx_ok sv req (c_senderWindow c) n
            \<and> c_seqNum c = word_of_nat (Suc n))"

definition client_rx_ok :: "bytes list \<Rightarrow> client_pc \<Rightarrow> HttpClient \<Rightarrow> bool" where
  "client_rx_ok resps pc c \<longleftrightarrow>
     rx_agrees resps (c_receiverWindow c)
     \<and> poll_ok resps (c_receiverWindow c) (c_checker c) (c_deliveryMessage c)
     \<and> (\<forall>raw. pc = C_Done raw \<longrightarrow> first_complete resps (c_receiverWindow c) \<and> raw = hd resps)"

definition client_ok :: "udp_addr \<Rightarrow> bytes \<Rightarrow> bytes list \<Rightarrow> client_pc \<Rightarrow> HttpClient \<Rightarrow> bool" where
  "client_ok sv req resps pc c \<longleftrightarrow> client_inv c \<and> client_tx_ok sv req pc c \<and> client_rx_ok resps pc c"

text \<open>The responses fit the window, and a later one is begun only when the first is complete.\<close>

definition resps_ok :: "bytes list \<Rightarrow> HttpClient \<Rightarrow> bool" where
  "resps_ok resps c \<longleftrightarrow>
     (\<forall>m \<in> set resps. fits m) \<and> (length resps \<le> 1 \<or> first_complete resps (c_receiverWindow c))"

lemma seq_unat: "n < WindowSize \<Longrightarrow> unat (word_of_nat (Suc n) :: 32 word) = Suc n"
  by (rule unat_small) simp

lemma client_tx_ok_frame:
  assumes "client_tx_ok sv req pc c" "c_serverAddr c' = c_serverAddr c" "c_seqNum c' = c_seqNum c"
    "c_senderWindow c' = c_senderWindow c"
  shows "client_tx_ok sv req pc c'"
  using assms by (simp add: client_tx_ok_def split: option.splits)

lemma client_written_frame:
  "c_seqNum c' = c_seqNum c \<Longrightarrow> client_written pc c' = client_written pc c"
  by (simp add: client_written_def split: option.splits)

lemma client_tx_phase:
  assumes "client_tx_ok sv req pc c" "client_phase pc = Some ph"
  obtains n where "send_at sv req ph n" "tx_ok sv req (c_senderWindow c) n"
    "c_seqNum c = word_of_nat (Suc n)" "unat (c_seqNum c) = Suc n" "client_written pc c = written ph n"
proof -
  from assms obtain n where n: "send_at sv req ph n" "tx_ok sv req (c_senderWindow c) n"
    "c_seqNum c = word_of_nat (Suc n)" by (auto simp: client_tx_ok_def)
  from n(2) have "n < WindowSize" by (simp add: tx_ok_def)
  with n(3) have "unat (c_seqNum c) = Suc n" by (simp only: seq_unat)
  with n assms(2) that show ?thesis by (simp add: client_written_def)
qed

lemma client_written_bound:
  assumes "client_tx_ok sv req pc c"
  shows "client_written pc c \<le> length (units 1 req)"
proof (cases "client_phase pc")
  case (Some ph)
  then obtain n where "send_at sv req ph n" "client_written pc c = written ph n"
    using client_tx_phase [OF assms] by metis
  then show ?thesis by (simp only: written_bound)
qed (simp add: client_written_def)

subsection \<open>receive\<close>

lemma client_receive_eq:
  assumes "ParsePacket b = (Some q, None)"
  shows "client_receive b c =
     (if Type q = SYNACK then client_on_synack q c
      else if Type q = ACK then client_on_ack q c
      else if Type q = DATA \<or> Type q = DELIVER then client_on_data q c
      else Inr (c, []))"
  using assms ParsePacket_Some_take [OF assms]
  by (auto simp: client_receive_def UDPBufferSize_def go_bind_def split: sum.splits)

text \<open>What a datagram from the server can be.\<close>

lemma server_msg_cases:
  assumes "arrives sv (server_msgs n resps) b"
  obtains (synack) q where "ParsePacket b = (Some q, None)" "FromAddr q = Some sv" "Type q = SYNACK" "SeqNum q = 0"
  | (ack) q where "ParsePacket b = (Some q, None)" "FromAddr q = Some sv" "Type q = ACK"
      "0 < unat (SeqNum q)" "unat (SeqNum q) \<le> n"
  | (data) q m where "ParsePacket b = (Some q, None)" "FromAddr q = Some sv" "Type q = DATA \<or> Type q = DELIVER"
      "m \<in> set resps" "content q \<in> set (units 1 m)"
proof -
  from assms obtain q where q: "ParsePacket b = (Some q, None)" "content q \<in> server_msgs n resps"
    "FromAddr q = Some sv" by (auto simp: arrives_def)
  from q(2) consider "content q = (SYNACK, 0, [])" | i where "content q = (ACK, i, [])" "0 < i" "i \<le> n"
    | m where "m \<in> set resps" "content q \<in> set (units 1 m)"
    by (auto simp: server_msgs_def)
  then show ?thesis
  proof cases
    case 1
    with q that(1) show ?thesis by (simp add: content_def unsigned_eq_0_iff)
  next
    case 2
    with q that(2) show ?thesis by (auto simp: content_def)
  next
    case (3 m)
    with q that(3) unit_slot [OF 3(2)] show ?thesis by (auto split: if_splits)
  qed
qed

definition ack_packet :: "udp_addr \<Rightarrow> nat \<Rightarrow> packet" where
  "ack_packet to i = packet_of (Some to) (ACK, i, [])"

lemma ack_packet_eq:
  "\<lparr>Type = ACK, SeqNum = s, ToAddr = Some to, FromAddr = None, Payload = []\<rparr> = ack_packet to (unat s)"
  by (simp add: ack_packet_def packet_of_def)

lemma small_ack [simp]: "i < WindowSize \<Longrightarrow> small (ACK, i, [])" "small (ty, 0, [])"
  by (simp_all add: small_def)

lemma written_ok_ack:
  "(ACK, i, []) \<in> M \<Longrightarrow> i < WindowSize \<Longrightarrow> written_ok to M (raw_bytes (ack_packet to i))"
  unfolding written_ok_def ack_packet_def by (intro bexI [of _ "(ACK, i, [])"]) simp_all

lemma unit_small:
  assumes "fits m" "u \<in> set (units 1 m)"
  shows "small u"
proof -
  have "Suc (length (chunks m)) < 2 ^ 31" using assms(1) by (simp add: fits_chunks)
  with units_payload [OF assms(2)] unit_seq_bound [OF assms(2)] show ?thesis by (simp add: small_def)
qed

lemma client_on_synack_out:
  assumes "c_serverAddr c = Some sv" "client_on_synack q c = Inr (c', out)"
  shows "\<exists>ch. c' = c\<lparr>c_handshakeSYNACKChannel := ch\<rparr> \<and> map fst out = [raw_bytes (ack_packet sv (unat (SeqNum q)))]"
proof -
  have "Raw (ack_packet sv (unat (SeqNum q))) = Inr (raw_bytes (ack_packet sv (unat (SeqNum q))))"
    by (rule raw_bytes_eq) (simp add: ack_packet_def packet_of_def)
  with assms show ?thesis
    by (auto simp: client_on_synack_def ack_packet_eq split: if_splits option.splits
        intro: exI [of _ "c_handshakeSYNACKChannel c"])
qed

lemma client_on_data_out:
  assumes "FromAddr q = Some a" "client_on_data q c = Inr (c', out)"
  shows "\<exists>ws. window_save q (c_receiverWindow c) = Inr ws \<and> c' = c\<lparr>c_receiverWindow := ws\<rparr>
     \<and> map fst out = [raw_bytes (ack_packet a (unat (SeqNum q)))]"
proof -
  have "Raw (ack_packet a (unat (SeqNum q))) = Inr (raw_bytes (ack_packet a (unat (SeqNum q))))"
    by (rule raw_bytes_eq) (simp add: ack_packet_def packet_of_def)
  with assms show ?thesis
    by (auto simp: client_on_data_def ack_packet_eq go_bind_Inr_iff)
qed

lemma client_on_ack_out:
  assumes "client_on_ack q c = Inr (c', out)"
  shows "out = [] \<and> (\<exists>w. unat (SeqNum q) < length (c_senderWindow c)
     \<and> c_senderWindow c ! unat (SeqNum q) = Some w
     \<and> c' = c\<lparr>c_senderWindow := (c_senderWindow c)[unat (SeqNum q) := Some (ack_element q w)]\<rparr>)"
  using assms
  by (cases "c_senderWindow c ! unat (SeqNum q)")
    (auto simp: client_on_ack_def go_bind_Inr_iff go_index_def split: if_splits)

subsection \<open>Steps\<close>

text \<open>A step that changes neither the receiver side nor the phase.\<close>

lemma client_tx_update:
  assumes "client_tx_ok sv req pc c" "client_phase pc \<noteq> None"
    and "\<And>n. tx_ok sv req (c_senderWindow c) n \<Longrightarrow> tx_ok sv req ws n"
  shows "client_tx_ok sv req pc (c\<lparr>c_senderWindow := ws\<rparr>)"
  using assms by (auto simp: client_tx_ok_def split: option.splits)

lemma client_window_phase:
  assumes "client_tx_ok sv req pc c" "i < WindowSize" "c_senderWindow c ! i = Some w"
  shows "client_phase pc \<noteq> None"
  using assms by (auto simp: client_tx_ok_def split: option.splits)

lemma client_resend_eq:
  assumes "send_window_ok (c_senderWindow c)" "i < length (c_senderWindow c)"
  shows "client_resend_at i c =
    Inr (c\<lparr>c_senderWindow := (c_senderWindow c)[i := resent_slot (c_senderWindow c ! i)]\<rparr>,
         resend_of (c_routerAddr c) (c_senderWindow c ! i))"
proof -
  obtain s' where s': "client_resend_at i c = Inr (s', resend_of (c_routerAddr c) (c_senderWindow c ! i))"
    "c_senderWindow s' = (c_senderWindow c)[i := resent_slot (c_senderWindow c ! i)]"
    using client_rtx.resend_ok [OF assms] by blast
  moreover have "s' = c\<lparr>c_senderWindow := c_senderWindow s'\<rparr>"
    using s'(1) by (auto simp: client_resend_at_def go_bind_Inr_iff split: if_splits)
  ultimately show ?thesis by simp
qed

definition client_step_ok ::
    "udp_addr \<Rightarrow> bytes \<Rightarrow> bytes list \<Rightarrow> client_pc \<Rightarrow> HttpClient \<Rightarrow> bytes list \<Rightarrow> client_pc \<Rightarrow> HttpClient \<Rightarrow> bool" where
  "client_step_ok sv req resps pc c out pc' c' \<longleftrightarrow>
     client_ok sv req resps pc' c'
     \<and> (\<forall>i. c_receiverWindow c ! i \<noteq> None \<longrightarrow> c_receiverWindow c' ! i \<noteq> None)
     \<and> client_written pc c \<le> client_written pc' c'
     \<and> (\<forall>b \<in> set out. written_ok sv (client_msgs req pc' c') b)"

lemma client_rx_step:
  assumes ok: "client_ok sv req resps pc c" and resps: "resps_ok resps c" and fits: "fits req"
    and b: "arrives sv (server_msgs (client_written pc c) resps) b"
    and step: "client_receive b c = Inr (c', out)"
  shows "client_step_ok sv req resps pc c (map fst out) pc c'"
proof -
  have inv: "client_inv c'" using client_inv_receive [OF _ step] ok by (simp add: client_ok_def)
  from ok have tx: "client_tx_ok sv req pc c" and rx: "client_rx_ok resps pc c"
    and sv: "c_serverAddr c = Some sv"
    by (simp_all add: client_ok_def client_tx_ok_def)
  from b show ?thesis
  proof (cases rule: server_msg_cases)
    case (synack q)
    with step client_receive_eq [OF synack(1)] have "client_on_synack q c = Inr (c', out)" by simp
    from client_on_synack_out [OF sv this] synack(4) obtain ch where
      c': "c' = c\<lparr>c_handshakeSYNACKChannel := ch\<rparr>" "map fst out = [raw_bytes (ack_packet sv 0)]" by auto
    have "written_ok sv (client_msgs req pc c') (raw_bytes (ack_packet sv 0))"
      by (rule written_ok_ack) (simp_all add: client_msgs_def)
    with c' inv rx client_tx_ok_frame [OF tx, of c'] client_written_frame [of c' c pc] show ?thesis
      by (simp add: client_step_ok_def client_ok_def client_rx_ok_def)
  next
    case (ack q)
    with step client_receive_eq [OF ack(1)] have "client_on_ack q c = Inr (c', out)" by simp
    from client_on_ack_out [OF this] obtain w where w: "out = []" "unat (SeqNum q) < length (c_senderWindow c)"
      "c_senderWindow c ! unat (SeqNum q) = Some w"
      "c' = c\<lparr>c_senderWindow := (c_senderWindow c)[unat (SeqNum q) := Some (ack_element q w)]\<rparr>" by blast
    have lt: "unat (SeqNum q) < WindowSize"
      using w(2) ok by (simp add: client_ok_def client_inv_def)
    have "client_tx_ok sv req pc c'"
      unfolding w(4)
      by (rule client_tx_update [OF tx client_window_phase [OF tx lt w(3)] tx_ok_ack [OF _ lt w(3)]])
    with w inv rx client_written_frame [of c' c pc] show ?thesis
      by (simp add: client_step_ok_def client_ok_def client_rx_ok_def)
  next
    case (data q m)
    with step client_receive_eq [OF data(1)] have "client_on_data q c = Inr (c', out)" by auto
    from client_on_data_out [OF data(2) this] obtain ws where ws: "window_save q (c_receiverWindow c) = Inr ws"
      "c' = c\<lparr>c_receiverWindow := ws\<rparr>" "map fst out = [raw_bytes (ack_packet sv (unat (SeqNum q)))]" by (elim exE conjE)
    have "m = hd resps \<or> first_complete resps (c_receiverWindow c)"
      using resps data(4) by (cases resps) (auto simp: resps_ok_def)
    then have agr: "rx_agrees resps ws"
      using rx_agrees_save [OF _ data(4,5) _ ws(1)] rx by (simp add: client_rx_ok_def)
    note filled = window_save_filled [OF ws(1)]
    have lt: "unat (SeqNum q) < WindowSize"
      using ws(1) rx by (auto simp: window_save_eq client_rx_ok_def rx_agrees_def split: if_splits)
    have "(ACK, unat (SeqNum q), []) \<in> client_msgs req pc c'"
      using window_save_slot [OF ws(1)] lt unit_slot [OF data(5)] ws(2)
      by (simp add: client_msgs_def acks_of_def)
    from written_ok_ack [OF this lt, of sv] ws(3)
    have out: "\<forall>b \<in> set (map fst out). written_ok sv (client_msgs req pc c') b" by simp
    have "client_rx_ok resps pc c'"
      using rx agr poll_ok_mono [OF _ filled] first_complete_mono [OF _ filled] ws(2)
      by (auto simp: client_rx_ok_def)
    with inv filled out ws(2) client_tx_ok_frame [OF tx, of c'] client_written_frame [of c' c pc]
    show ?thesis by (simp add: client_step_ok_def client_ok_def)
  qed
qed

lemma client_resend_step:
  assumes ok: "client_ok sv req resps pc c" and fits: "fits req"
    and i: "i < unat (c_seqNum c)" and step: "client_resend_at i c = Inr (c', out)"
  shows "client_step_ok sv req resps pc c (map fst out) pc c'"
proof -
  have inv: "client_inv c'" using client_inv_resend [OF _ step] ok by (simp add: client_ok_def)
  from ok have tx: "client_tx_ok sv req pc c" and rx: "client_rx_ok resps pc c"
    by (simp_all add: client_ok_def)
  from i obtain ph where ph: "client_phase pc = Some ph"
    using tx by (auto simp: client_tx_ok_def split: option.splits)
  obtain n where n: "send_at sv req ph n" "tx_ok sv req (c_senderWindow c) n" "unat (c_seqNum c) = Suc n"
    "client_written pc c = written ph n"
    using client_tx_phase [OF tx ph] by metis
  have lt: "i < WindowSize" using i n(2,3) by (simp add: tx_ok_def)
  with tx_ok_length [OF n(2)] have len: "i < length (c_senderWindow c)" by simp
  let ?ws = "(c_senderWindow c)[i := resent_slot (c_senderWindow c ! i)]"
  from step client_resend_eq [OF tx_ok_window [OF n(2)] len]
  have c': "c' = c\<lparr>c_senderWindow := ?ws\<rparr>" "out = resend_of (c_routerAddr c) (c_senderWindow c ! i)"
    by simp_all
  have tx': "client_tx_ok sv req pc c'"
    unfolding c'(1) by (rule client_tx_update [OF tx _ tx_ok_resent(1) [OF _ lt]]) (simp_all add: ph)
  have "written_ok sv (client_msgs req pc c') (fst d)" if "d \<in> set out" for d
  proof -
    from that c'(2) have "resend_of (c_routerAddr c) (c_senderWindow c ! i) \<noteq> []" by auto
    from tx_ok_resent(3) [OF n(2) lt this] that c'(2)
    have u: "0 < i" "i \<le> n" "fst d = raw_bytes (packet_of (Some sv) (units 1 req ! (i - 1)))" by auto
    have k: "i - 1 < length (units 1 req)" "i - 1 < written ph n"
      using u(1,2) send_at_bound [OF n(1)] by (auto simp: written.simps elim: written.elims) (cases ph; simp)
    then have "units 1 req ! (i - 1) \<in> set (take (written ph n) (units 1 req))"
      by (auto simp: in_set_conv_nth intro: exI [of _ "i - 1"])
    moreover from this have "small (units 1 req ! (i - 1))"
      using unit_small [OF fits] by (meson in_set_takeD)
    ultimately show ?thesis
      using u(3) n(4) client_written_frame [of c' c pc] c'(1)
      unfolding written_ok_def client_msgs_def by auto
  qed
  with inv tx' rx c' client_written_frame [of c' c pc] show ?thesis
    by (simp add: client_step_ok_def client_ok_def client_rx_ok_def)
qed

lemma client_tick_step:
  assumes ok: "client_ok sv req resps pc c"
  shows "client_step_ok sv req resps pc c [] pc (client_fire i c)"
proof -
  have inv: "client_inv (client_fire i c)"
    using client_inv_step [OF client_step.tick] ok by (simp add: client_ok_def)
  from ok have tx: "client_tx_ok sv req pc c" and rx: "client_rx_ok resps pc c"
    by (simp_all add: client_ok_def)
  have "fire_slot i (replicate WindowSize None) = replicate WindowSize None"
    by (auto simp: fire_slot_def list_update_same_conv)
  with tx have "client_tx_ok sv req pc (client_fire i c)"
    by (auto simp: client_tx_ok_def client_fire_def tx_ok_fire split: option.splits)
  with inv rx client_written_frame [of "client_fire i c" c pc] show ?thesis
    by (simp add: client_step_ok_def client_ok_def client_rx_ok_def client_fire_def)
qed

lemma chan_send_nonempty: "chan_send x ch = Some ch' \<Longrightarrow> chan_len ch' \<noteq> 0"
  by (auto simp: chan_send_def chan_len_def split: if_splits)

lemma client_check_step:
  assumes ok: "client_ok sv req resps pc c" and resps: "resps_ok resps c"
    and step: "client_checkForDeliver c = Inr c'"
  shows "client_step_ok sv req resps pc c [] pc c'"
proof -
  have inv: "client_inv c'" using client_inv_step [OF client_step.check [OF step]] ok by (simp add: client_ok_def)
  from ok have tx: "client_tx_ok sv req pc c" and rx: "client_rx_ok resps pc c"
    by (simp_all add: client_ok_def)
  let ?ws = "c_receiverWindow c"
  have frame: "c_serverAddr c' = c_serverAddr c" "c_seqNum c' = c_seqNum c"
    "c_senderWindow c' = c_senderWindow c" "c_receiverWindow c' = ?ws"
    using step by (auto simp: client_checkForDeliver_def go_bind_Inr_iff split: option.splits if_splits)
  have "poll_ok resps ?ws (c_checker c') (c_deliveryMessage c')"
  proof (cases "c_checker c")
    case None
    with step rx show ?thesis by (simp add: client_checkForDeliver_def client_rx_ok_def)
  next
    case (Some d)
    with rx have "checker_ok resps ?ws (Some d)" by (simp add: client_rx_ok_def poll_ok_def)
    then obtain d' ready where r: "check_round ?ws d = Inr (d', ready)" "checker_ok resps ?ws (Some d')"
      "ready \<longleftrightarrow> d \<noteq> -1 \<and> first_complete resps ?ws"
      using check_round_checker [of resps ?ws d] rx resps by (auto simp: client_rx_ok_def resps_ok_def)
    from step Some r show ?thesis
      using rx by (auto simp: client_checkForDeliver_def client_rx_ok_def poll_ok_def checker_ok_def
          split: option.splits if_splits)
  qed
  with inv rx frame client_tx_ok_frame [OF tx frame(1-3)] client_written_frame [OF frame(2)] show ?thesis
    by (simp add: client_step_ok_def client_ok_def client_rx_ok_def)
qed

lemma client_bg_ok:
  assumes "client_ok sv req resps pc c" "resps_ok resps c" "fits req"
    and "\<forall>b \<in> B. arrives sv (server_msgs (client_written pc c) resps) b"
    and "client_bg B c out c'"
  shows "client_step_ok sv req resps pc c out pc c'"
  using assms(5)
proof cases
  case (rx b out')
  with assms(4) have "arrives sv (server_msgs (client_written pc c) resps) b" by blast
  from client_rx_step [OF assms(1-3) this rx(3)] rx(1) show ?thesis by simp
next
  case (resend i out')
  with client_resend_step [OF assms(1,3)] show ?thesis by simp
next
  case (tick i)
  with client_tick_step [OF assms(1)] show ?thesis by simp
next
  case check
  with client_check_step [OF assms(1,2)] show ?thesis by simp
qed

subsection \<open>The main goroutine\<close>

lemma raw_packet_of [simp]: "Raw (packet_of (Some a) u) = Inr (raw_bytes (packet_of (Some a) u))"
  by (rule raw_bytes_eq) (simp add: packet_of_def)

lemma written_ok_unit:
  assumes "fits req" "n < written ph n'" "send_at to req ph n'"
    and "set (take (written ph n') (units 1 req)) \<subseteq> M"
  shows "written_ok to M (raw_bytes (packet_of (Some to) (units 1 req ! n)))"
proof -
  from written_bound [OF assms(3)] assms(2) have n: "n < length (units 1 req)" by simp
  have "units 1 req ! n \<in> set (take (written ph n') (units 1 req))"
    using n assms(2) by (auto simp: in_set_conv_nth intro!: exI [of _ n])
  with assms(4) unit_small [OF assms(1) nth_mem [OF n]] show ?thesis
    unfolding written_ok_def by blast
qed

lemma client_syn_step:
  assumes ok: "client_ok sv req resps C_Syn c" and step: "client_send_syn c = Inr (c', out)"
  shows "client_step_ok sv req resps C_Syn c (map fst out) C_Select c'"
proof -
  from ok have "c_serverAddr c = Some sv" "c_seqNum c = 0"
    by (simp_all add: client_ok_def client_tx_ok_def client_phase_def)
  then have "\<lparr>Type = SYN, SeqNum = c_seqNum c, ToAddr = c_serverAddr c, FromAddr = None, Payload = []\<rparr>
      = packet_of (Some sv) (SYN, 0, [])" by (simp add: packet_of_def)
  with step have c': "c' = c" "map fst out = [raw_bytes (packet_of (Some sv) (SYN, 0, []))]"
    by (auto simp: client_send_syn_def)
  have "written_ok sv (client_msgs req C_Select c) (raw_bytes (packet_of (Some sv) (SYN, 0, [])))"
    unfolding written_ok_def client_msgs_def by auto
  with c' ok show ?thesis
    by (simp add: client_step_ok_def client_ok_def client_tx_ok_def client_rx_ok_def client_phase_def
        client_written_def)
qed

lemma client_synack_step:
  assumes ok: "client_ok sv req resps C_Select c" and step: "client_take_synack c = Some c'"
  shows "client_step_ok sv req resps C_Select c [] (C_Send (Sending 0)) c'"
proof -
  have inv: "client_inv c'"
    using client_inv_step [OF client_step.synack [OF step]] ok by (simp add: client_ok_def)
  from ok step show ?thesis
    using inv by (auto simp: client_step_ok_def client_ok_def client_tx_ok_def client_rx_ok_def
        client_phase_def client_written_def client_take_synack_def tx_ok_0 intro!: exI [of _ 0]
        split: option.splits)
qed

lemma client_write_step:
  assumes ok: "client_ok sv req resps (C_Send (Sending st)) c" and fits: "fits req"
    and nx: "next_packet (c_seqNum c) (c_serverAddr c) req st = (p, next)"
    and step: "client_write p c = Inr d"
  shows "client_step_ok sv req resps (C_Send (Sending st)) c [fst d] (C_Send (Storing p next)) c"
proof -
  from ok have tx: "client_tx_ok sv req (C_Send (Sending st)) c" and rx: "client_rx_ok resps (C_Send (Sending st)) c"
    and inv: "client_inv c" and sv: "c_serverAddr c = Some sv"
    by (simp_all add: client_ok_def client_tx_ok_def)
  obtain n where n: "send_at sv req (Sending st) n" "tx_ok sv req (c_senderWindow c) n"
    "c_seqNum c = word_of_nat (Suc n)" "unat (c_seqNum c) = Suc n"
    using client_tx_phase [OF tx, of "Sending st"] by (auto simp: client_phase_def)
  have at: "send_at sv req (Storing p next) n"
    using send_at_next [OF n(1)] nx sv n(3) by simp
  then have p: "p = packet_of (Some sv) (units 1 req ! n)" by simp
  with step have d: "fst d = raw_bytes (packet_of (Some sv) (units 1 req ! n))"
    by (auto simp: client_write_def)
  have w: "client_written (C_Send (Storing p next)) c = Suc n" "client_written (C_Send (Sending st)) c = n"
    using n(4) by (simp_all add: client_written_def client_phase_def)
  have "written_ok sv (client_msgs req (C_Send (Storing p next)) c) (fst d)"
    unfolding d by (rule written_ok_unit [OF fits _ at]) (auto simp: client_msgs_def w)
  with inv rx n at w sv show ?thesis
    by (auto simp: client_step_ok_def client_ok_def client_rx_ok_def client_tx_ok_def client_phase_def
        simp del: send_at.simps)
qed

lemma client_store_step:
  assumes ok: "client_ok sv req resps (C_Send (Storing p next)) c" and step: "client_store p c = Inr c'"
  shows "client_step_ok sv req resps (C_Send (Storing p next)) c [] (C_Send next) c'"
proof -
  from ok have tx: "client_tx_ok sv req (C_Send (Storing p next)) c"
    and rx: "client_rx_ok resps (C_Send (Storing p next)) c" and sv: "c_serverAddr c = Some sv"
    by (simp_all add: client_ok_def client_tx_ok_def)
  obtain n where n: "send_at sv req (Storing p next) n" "tx_ok sv req (c_senderWindow c) n"
    "c_seqNum c = word_of_nat (Suc n)" "unat (c_seqNum c) = Suc n"
    using client_tx_phase [OF tx, of "Storing p next"] by (auto simp: client_phase_def)
  from n(1) have at: "n < length (units 1 req)" "p = packet_of (Some sv) (units 1 req ! n)"
    "send_at sv req next (Suc n)" by simp_all
  have c': "c' = c\<lparr>c_senderWindow := (c_senderWindow c)[Suc n := Some (NewWindowElement p)],
      c_seqNum := c_seqNum c + 1\<rparr>" and lt: "Suc n < WindowSize"
    using step n(4) tx_ok_length [OF n(2)]
    by (auto simp: client_store_def go_bind_Inr_iff go_store_def split: if_splits)
  have inv: "client_inv c'"
    using ok client_inv_sendPacket [of c p c'] step sv at(2)
    by (auto simp: client_sendPacket_split client_ok_def client_write_def)
  have tx': "tx_ok sv req (c_senderWindow c') (Suc n)"
    using tx_ok_store [OF n(2) at(1) lt] at(2) by (simp add: c')
  have seq: "c_seqNum c' = word_of_nat (Suc (Suc n))" using n(3) by (simp add: c')
  have "client_tx_ok sv req (C_Send next) c'"
    using tx' seq at(3) sv c' by (auto simp: client_tx_ok_def client_phase_def)
  moreover have "client_written (C_Send (Storing p next)) c \<le> client_written (C_Send next) c'"
    using n(4) seq seq_unat [OF lt] by (cases "next") (simp_all add: client_written_def client_phase_def)
  ultimately show ?thesis
    using inv rx c' by (simp add: client_step_ok_def client_ok_def client_rx_ok_def)
qed

lemma client_await_step:
  assumes ok: "client_ok sv req resps (C_Send Sent) c" and resps: "resps_ok resps c"
    and step: "client_await_response c = Some (Inr (c', raw))"
  shows "client_step_ok sv req resps (C_Send Sent) c [] (C_Done raw) c'"
proof -
  have inv: "client_inv c'"
    using client_inv_step [OF client_step.await [OF step]] ok by (simp add: client_ok_def)
  from ok have tx: "client_tx_ok sv req (C_Send Sent) c" and rx: "client_rx_ok resps (C_Send Sent) c"
    by (simp_all add: client_ok_def)
  from step obtain b ch where ch: "chan_recv (c_deliveryMessage c) = Some (b, ch)"
    and c': "c' = c\<lparr>c_deliveryMessage := ch\<rparr>" and raw: "window_packets (c_receiverWindow c) = Inr raw"
    by (auto simp: client_await_response_def client_getPackets_def Let_def go_bind_Inr_iff split: option.splits)
  from poll_ok_recv [OF _ ch] rx have poll: "first_complete resps (c_receiverWindow c)"
    "poll_ok resps (c_receiverWindow c) (c_checker c) ch"
    by (auto simp: client_rx_ok_def)
  then have "fits (hd resps)" using resps by (auto simp: resps_ok_def first_complete_def)
  with first_reassembled [OF _ poll(1)] rx raw have "raw = hd resps" by (simp add: client_rx_ok_def)
  with inv tx rx poll c' show ?thesis
    by (auto simp: client_step_ok_def client_ok_def client_rx_ok_def client_tx_ok_def client_phase_def
        client_written_def)
qed

lemma client_main_ok:
  assumes "client_ok sv req resps pc c" "resps_ok resps c" "fits req"
    and "client_main req c pc out c' pc'"
  shows "client_step_ok sv req resps pc c out pc' c'"
  using assms(4)
proof cases
  case (syn out')
  with client_syn_step assms(1) show ?thesis by blast
next
  case timeout
  with assms(1) show ?thesis
    by (simp add: client_step_ok_def client_ok_def client_tx_ok_def client_rx_ok_def client_phase_def
        client_written_def)
next
  case synack
  with client_synack_step assms(1) show ?thesis by blast
next
  case (tx st p "next" d)
  with client_write_step [of sv req resps st c p "next" d] assms(1,3) show ?thesis by simp
next
  case (store p "next")
  with client_store_step assms(1) show ?thesis by blast
next
  case (await raw)
  with client_await_step [of sv req resps c c' raw] assms(1,2) show ?thesis by simp
qed

end
