(* ===== verification/Session_Server.thy ===== *)
theory Session_Server
  imports Session_Client
begin

section \<open>The server's share of the session invariant\<close>

text \<open>
  What every step of the server keeps, given what may arrive from the client.  The server's main
  loop runs session after session; \<open>h\<close> is the history of handled requests, \<open>ws\<close> the client's
  receiver window and \<open>n\<close> the number of units the client has written.
\<close>

subsection \<open>The invariant\<close>

definition server_phase :: "history \<Rightarrow> server_pc \<Rightarrow> (bytes \<times> send_pc) option" where
  "server_phase h pc =
     (case pc of
        S_Send resp ph \<Rightarrow> Some (resp, ph)
      | S_Close \<Rightarrow> Some (snd (last h), Sent)
      | S_Reset \<Rightarrow> Some (snd (last h), Sent)
      | _ \<Rightarrow> None)"

definition handling :: "server_pc \<Rightarrow> bool" where
  "handling pc = (case pc of S_Await \<Rightarrow> True | S_Handle raw \<Rightarrow> True | _ \<Rightarrow> False)"

definition server_tx_ok :: "udp_addr \<Rightarrow> history \<Rightarrow> server_pc \<Rightarrow> HttpServer \<Rightarrow> bool" where
  "server_tx_ok cl h pc s \<longleftrightarrow>
     s_clientAddr s = (if pc = S_Syn then None else Some cl)
     \<and> (\<forall>p \<in> set (chan_buf (s_handshakeSynChannel s)). FromAddr p = Some cl)
     \<and> (case server_phase h pc of
          None \<Rightarrow> s_seqNum s = (if handling pc then 1 else 0)
            \<and> s_senderWindow s = replicate WindowSize None
        | Some (resp, ph) \<Rightarrow> h \<noteq> [] \<and> resp = snd (last h)
            \<and> (\<exists>n. send_at cl resp ph n \<and> tx_ok cl resp (s_senderWindow s) n
                 \<and> s_seqNum s = word_of_nat (Suc n)))"

definition server_rx_ok :: "bytes \<Rightarrow> server_pc \<Rightarrow> HttpServer \<Rightarrow> bool" where
  "server_rx_ok req pc s \<longleftrightarrow>
     rx_agrees [req] (s_receiverWindow s)
     \<and> poll_ok [req] (s_receiverWindow s) (s_checker s) (s_deliveryMessage s)
     \<and> (\<forall>raw. pc = S_Handle raw \<longrightarrow> raw = req)"

text \<open>An acknowledged packet has arrived.\<close>

definition acks_true :: "HttpServer \<Rightarrow> recv_window \<Rightarrow> bool" where
  "acks_true s ws \<longleftrightarrow> (\<forall>i. slot_acked i (s_senderWindow s) \<longrightarrow> ws ! i \<noteq> None)"

text \<open>The first response is complete at the client as soon as its session is over.\<close>

definition settled :: "history \<Rightarrow> server_pc \<Rightarrow> recv_window \<Rightarrow> bool" where
  "settled h pc ws \<longleftrightarrow>
     h = [] \<or> first_complete (map snd h) ws \<or> length h = 1 \<and> (\<exists>resp ph. pc = S_Send resp ph)"

definition server_ok ::
    "udp_addr \<Rightarrow> bytes \<Rightarrow> recv_window \<Rightarrow> history \<Rightarrow> server_pc \<Rightarrow> HttpServer \<Rightarrow> bool" where
  "server_ok cl req ws h pc s \<longleftrightarrow>
     server_inv s \<and> server_tx_ok cl h pc s \<and> server_rx_ok req pc s \<and> acks_true s ws \<and> settled h pc ws
     \<and> (\<forall>(q, r) \<in> set h. q = req \<and> fits r)"

text \<open>The client's window only fills up.\<close>

lemma server_ok_mono:
  assumes "server_ok cl req ws h pc s" "\<forall>i. ws ! i \<noteq> None \<longrightarrow> ws' ! i \<noteq> None"
  shows "server_ok cl req ws' h pc s"
  using assms first_complete_mono [OF _ assms(2)]
  by (auto simp: server_ok_def acks_true_def settled_def)

lemma server_tx_phase:
  assumes "server_tx_ok cl h pc s" "server_phase h pc = Some (resp, ph)"
  obtains n where "h \<noteq> []" "resp = snd (last h)" "send_at cl resp ph n"
    "tx_ok cl resp (s_senderWindow s) n" "s_seqNum s = word_of_nat (Suc n)" "unat (s_seqNum s) = Suc n"
proof -
  from assms obtain n where n: "h \<noteq> []" "resp = snd (last h)" "send_at cl resp ph n"
    "tx_ok cl resp (s_senderWindow s) n" "s_seqNum s = word_of_nat (Suc n)"
    by (auto simp: server_tx_ok_def)
  from n(4) have "n < WindowSize" by (simp add: tx_ok_def)
  with n(5) have "unat (s_seqNum s) = Suc n" by (simp only: seq_unat)
  with n that show ?thesis by blast
qed

lemma server_tx_ok_frame:
  assumes "server_tx_ok cl h pc s" "s_clientAddr s' = s_clientAddr s" "s_seqNum s' = s_seqNum s"
    "s_senderWindow s' = s_senderWindow s"
    "\<forall>p \<in> set (chan_buf (s_handshakeSynChannel s')). FromAddr p = Some cl"
  shows "server_tx_ok cl h pc s'"
  using assms by (simp add: server_tx_ok_def split: option.splits prod.splits)

lemma server_tx_update:
  assumes "server_tx_ok cl h pc s" "server_phase h pc \<noteq> None"
    and "\<And>resp n. tx_ok cl resp (s_senderWindow s) n \<Longrightarrow> tx_ok cl resp ws n"
  shows "server_tx_ok cl h pc (s\<lparr>s_senderWindow := ws\<rparr>)"
  using assms by (auto simp: server_tx_ok_def split: option.splits)

lemma server_window_phase:
  assumes "server_tx_ok cl h pc s" "i < WindowSize" "s_senderWindow s ! i = Some w"
  shows "server_phase h pc \<noteq> None"
  using assms by (auto simp: server_tx_ok_def split: option.splits)

subsection \<open>receive\<close>

lemma server_receive_eq:
  assumes "ParsePacket b = (Some q, None)"
  shows "server_receive b s =
     (let s1 = (if \<not> isConnected s then server_on_handshake q s else s) in
      if Type q = ACK \<and> SeqNum q \<noteq> 0 then server_on_ack q s1
      else if Type q = DATA \<or> Type q = DELIVER then server_on_data q s1
      else Inr (s1, []))"
  using assms ParsePacket_Some_take [OF assms]
  by (auto simp: server_receive_def BufferSize_def go_bind_def Let_def split: sum.splits)

lemma client_msg_cases:
  assumes "arrives cl ({(SYN, 0, []), (ACK, 0, [])} \<union> acks_of ws \<union> set (take n (units 1 req))) b"
  obtains (handshake) q where "ParsePacket b = (Some q, None)" "FromAddr q = Some cl"
      "Type q = SYN \<or> Type q = ACK" "SeqNum q = 0"
  | (ack) q where "ParsePacket b = (Some q, None)" "FromAddr q = Some cl" "Type q = ACK" "SeqNum q \<noteq> 0"
      "unat (SeqNum q) < WindowSize" "ws ! unat (SeqNum q) \<noteq> None"
  | (data) q where "ParsePacket b = (Some q, None)" "FromAddr q = Some cl"
      "Type q = DATA \<or> Type q = DELIVER" "content q \<in> set (units 1 req)"
      "0 < unat (SeqNum q)" "unat (SeqNum q) \<le> n"
proof -
  from assms obtain q where q: "ParsePacket b = (Some q, None)" "FromAddr q = Some cl"
    "content q \<in> {(SYN, 0, []), (ACK, 0, [])} \<union> acks_of ws \<union> set (take n (units 1 req))"
    by (auto simp: arrives_def)
  from q(3) consider "content q = (SYN, 0, []) \<or> content q = (ACK, 0, [])"
    | i where "content q = (ACK, i, [])" "0 < i" "i < WindowSize" "ws ! i \<noteq> None"
    | "content q \<in> set (take n (units 1 req))"
    by (auto simp: acks_of_def)
  then show ?thesis
  proof cases
    case 1
    with q that(1) show ?thesis by (auto simp: content_def unsigned_eq_0_iff)
  next
    case (2 i)
    then have "unat (SeqNum q) = i" "Type q = ACK" by (simp_all add: content_def)
    moreover from this 2(2) have "SeqNum q \<noteq> 0" by auto
    ultimately show ?thesis using q(1,2) 2(3,4) that(2) by simp
  next
    case 3
    then have u: "content q \<in> set (units 1 req)" by (rule in_set_takeD)
    from 3 obtain j where j: "j < n" "j < length (units 1 req)" "units 1 req ! j = content q"
      by (auto simp: in_set_conv_nth)
    have "fst (snd (units 1 req ! j)) = 1 + j" using units_nth_any [OF j(2)] by simp
    with j(3) have "fst (snd (content q)) = 1 + j" by (simp only:)
    then have "unat (SeqNum q) \<le> n" using j(1) by (simp add: content_def)
    with q u that(3) unit_slot [OF u] show ?thesis by (auto split: if_splits)
  qed
qed

lemma server_on_handshake_syns:
  assumes "\<forall>p \<in> set (chan_buf (s_handshakeSynChannel s)). FromAddr p = Some cl" "FromAddr q = Some cl"
  shows "\<forall>p \<in> set (chan_buf (s_handshakeSynChannel (server_on_handshake q s))). FromAddr p = Some cl"
  using assms by (auto simp: server_on_handshake_def Let_def chan_send_def split: option.splits if_splits)

lemma server_on_data_out:
  assumes "FromAddr q = Some a" "server_on_data q s = Inr (s', out)"
  shows "\<exists>ws. window_save q (s_receiverWindow s) = Inr ws \<and> s' = s\<lparr>s_receiverWindow := ws\<rparr>
     \<and> map fst out = [raw_bytes (ack_packet a (unat (SeqNum q)))]"
proof -
  have "Raw (ack_packet a (unat (SeqNum q))) = Inr (raw_bytes (ack_packet a (unat (SeqNum q))))"
    by (simp add: ack_packet_def)
  with assms show ?thesis
    by (auto simp: server_on_data_def ack_packet_eq go_bind_Inr_iff)
qed

lemma server_on_ack_out:
  assumes "server_on_ack q s = Inr (s', out)"
  shows "out = [] \<and> (s' = s \<or> (\<exists>w. unat (SeqNum q) < length (s_senderWindow s)
     \<and> s_senderWindow s ! unat (SeqNum q) = Some w
     \<and> s' = s\<lparr>s_senderWindow := (s_senderWindow s)[unat (SeqNum q) := Some (ack_element q w)]\<rparr>))"
  using assms
  by (auto simp: server_on_ack_def go_bind_Inr_iff go_index_def split: if_splits option.splits)

subsection \<open>Steps of the background goroutines\<close>

definition server_step_ok ::
    "udp_addr \<Rightarrow> bytes \<Rightarrow> recv_window \<Rightarrow> nat \<Rightarrow> bytes list \<Rightarrow> history \<Rightarrow> server_pc \<Rightarrow> HttpServer \<Rightarrow> bool" where
  "server_step_ok cl req ws n out h pc s \<longleftrightarrow>
     server_ok cl req ws h pc s \<and> (\<forall>b \<in> set out. written_ok cl (server_msgs n (map snd h)) b)"

lemma server_handshake_ok:
  assumes "server_ok cl req ws h pc s" "FromAddr q = Some cl"
  shows "server_ok cl req ws h pc (if \<not> isConnected s then server_on_handshake q s else s)"
proof (cases "isConnected s")
  case False
  from assms(1) have tx: "server_tx_ok cl h pc s" by (simp add: server_ok_def)
  then have "\<forall>p \<in> set (chan_buf (s_handshakeSynChannel s)). FromAddr p = Some cl"
    by (simp add: server_tx_ok_def)
  from server_tx_ok_frame [OF tx _ _ _ server_on_handshake_syns [OF this assms(2)]]
  have "server_tx_ok cl h pc (server_on_handshake q s)" by simp
  with assms server_inv_handshake [of s q] False show ?thesis
    by (simp add: server_ok_def server_rx_ok_def acks_true_def)
qed (use assms in simp)

lemma server_rx_step:
  assumes ok: "server_ok cl req ws h pc s" and fits: "fits req"
    and b: "arrives cl ({(SYN, 0, []), (ACK, 0, [])} \<union> acks_of ws \<union> set (take n (units 1 req))) b"
    and step: "server_receive b s = Inr (s', out)"
  shows "server_step_ok cl req ws n (map fst out) h pc s'"
proof -
  have inv: "server_inv s'" using server_inv_receive [OF _ step] ok by (simp add: server_ok_def)
  from b show ?thesis
  proof (cases rule: client_msg_cases)
    case (handshake q)
    with step have "s' = (if \<not> isConnected s then server_on_handshake q s else s)" "out = []"
      by (auto simp: server_receive_eq [OF handshake(1)] Let_def split: if_splits)
    with server_handshake_ok [OF ok handshake(2)] show ?thesis by (simp add: server_step_ok_def)
  next
    case (ack q)
    define s1 where "s1 = (if \<not> isConnected s then server_on_handshake q s else s)"
    have ok1: "server_ok cl req ws h pc s1"
      unfolding s1_def by (rule server_handshake_ok [OF ok ack(2)])
    from step ack have "server_on_ack q s1 = Inr (s', out)"
      by (simp add: server_receive_eq [OF ack(1)] Let_def s1_def)
    from server_on_ack_out [OF this] consider "s' = s1" "out = []"
      | w where "out = []" "unat (SeqNum q) < length (s_senderWindow s1)"
        "s_senderWindow s1 ! unat (SeqNum q) = Some w"
        "s' = s1\<lparr>s_senderWindow := (s_senderWindow s1)[unat (SeqNum q) := Some (ack_element q w)]\<rparr>" by auto
    then show ?thesis
    proof cases
      case 1
      with ok1 show ?thesis by (simp add: server_step_ok_def)
    next
      case (2 w)
      from ok1 have tx: "server_tx_ok cl h pc s1" by (simp add: server_ok_def)
      have "server_tx_ok cl h pc s'"
        unfolding 2(4)
        by (rule server_tx_update [OF tx server_window_phase [OF tx ack(5) 2(3)] tx_ok_ack [OF _ ack(5) 2(3)]])
      moreover have "acks_true s' ws"
        using ok1 ack(6) slot_acked_ack [of _ "s_senderWindow s1" "unat (SeqNum q)" q w]
        by (auto simp: 2(4) acks_true_def server_ok_def)
      ultimately show ?thesis
        using inv ok1 2 by (simp add: server_step_ok_def server_ok_def server_rx_ok_def)
    qed
  next
    case (data q)
    define s1 where "s1 = (if \<not> isConnected s then server_on_handshake q s else s)"
    have ok1: "server_ok cl req ws h pc s1"
      unfolding s1_def by (rule server_handshake_ok [OF ok data(2)])
    from step data have "server_on_data q s1 = Inr (s', out)"
      by (auto simp: server_receive_eq [OF data(1)] Let_def s1_def split: if_splits)
    from server_on_data_out [OF data(2) this] obtain rw where
      rw: "window_save q (s_receiverWindow s1) = Inr rw" "s' = s1\<lparr>s_receiverWindow := rw\<rparr>"
        "map fst out = [raw_bytes (ack_packet cl (unat (SeqNum q)))]" by (elim exE conjE)
    note filled = window_save_filled [OF rw(1)]
    have rx: "server_rx_ok req pc s1" using ok1 by (simp add: server_ok_def)
    have "rx_agrees [req] rw"
      using rx_agrees_save [OF _ _ data(4) _ rw(1), of "[req]"] rx by (simp add: server_rx_ok_def)
    then have rx': "server_rx_ok req pc s'"
      using rx poll_ok_mono [OF _ filled] by (auto simp: server_rx_ok_def rw(2))
    have tx': "server_tx_ok cl h pc s'"
      using ok1 server_tx_ok_frame [of cl h pc s1 s'] by (simp add: rw(2) server_ok_def server_tx_ok_def)
    have lt: "unat (SeqNum q) < WindowSize"
      using unit_slot [OF data(4)] fits by (simp add: fits_chunks)
    have "(ACK, unat (SeqNum q), []) \<in> server_msgs n (map snd h)"
      using data(5,6) by (simp add: server_msgs_def)
    from written_ok_ack [OF this lt] rw(3) have "\<forall>b \<in> set (map fst out). written_ok cl (server_msgs n (map snd h)) b"
      by simp
    with inv rx' tx' ok1 rw(2) show ?thesis
      by (simp add: server_step_ok_def server_ok_def acks_true_def)
  qed
qed

lemma server_resend_eq:
  assumes "send_window_ok (s_senderWindow s)" "i < length (s_senderWindow s)"
  shows "server_resend_at i s =
    Inr (s\<lparr>s_senderWindow := (s_senderWindow s)[i := resent_slot (s_senderWindow s ! i)]\<rparr>,
         resend_of (s_routerAddr s) (s_senderWindow s ! i))"
proof -
  obtain s' where s': "server_resend_at i s = Inr (s', resend_of (s_routerAddr s) (s_senderWindow s ! i))"
    "s_senderWindow s' = (s_senderWindow s)[i := resent_slot (s_senderWindow s ! i)]"
    using server_rtx.resend_ok [OF assms] by blast
  moreover have "s' = s\<lparr>s_senderWindow := s_senderWindow s'\<rparr>"
    using s'(1) by (auto simp: server_resend_at_def go_bind_Inr_iff split: if_splits)
  ultimately show ?thesis by simp
qed

lemma server_resend_step:
  assumes ok: "server_ok cl req ws h pc s"
    and i: "i < unat (s_seqNum s)" and step: "server_resend_at i s = Inr (s', out)"
  shows "server_step_ok cl req ws n (map fst out) h pc s'"
proof -
  have inv: "server_inv s'" using server_inv_resend [OF _ step] ok by (simp add: server_ok_def)
  from ok have tx: "server_tx_ok cl h pc s" by (simp add: server_ok_def)
  show ?thesis
  proof (cases "server_phase h pc")
    case None
    with tx have empty: "s_senderWindow s = replicate WindowSize None" and "s_seqNum s = 0 \<or> s_seqNum s = 1"
      by (auto simp: server_tx_ok_def split: if_splits)
    with i have "i = 0" by (auto simp: unat_eq_0)
    with server_resend_eq [of s i] empty step have "s' = s" "out = []"
      by (auto simp: resent_slot_def resend_of_def due_def list_update_same_conv)
    with ok show ?thesis by (simp add: server_step_ok_def)
  next
    case (Some rp)
    obtain resp ph where rp: "rp = (resp, ph)" by (cases rp)
    obtain k where k: "h \<noteq> []" "resp = snd (last h)" "send_at cl resp ph k"
      "tx_ok cl resp (s_senderWindow s) k" "unat (s_seqNum s) = Suc k"
      using server_tx_phase [OF tx Some [unfolded rp]] by metis
    have lt: "i < WindowSize" using i k(4,5) by (simp add: tx_ok_def)
    with tx_ok_length [OF k(4)] have len: "i < length (s_senderWindow s)" by simp
    let ?win = "(s_senderWindow s)[i := resent_slot (s_senderWindow s ! i)]"
    from step server_resend_eq [OF tx_ok_window [OF k(4)] len]
    have s': "s' = s\<lparr>s_senderWindow := ?win\<rparr>" "out = resend_of (s_routerAddr s) (s_senderWindow s ! i)"
      by simp_all
    have tx': "server_tx_ok cl h pc s'"
      unfolding s'(1) by (rule server_tx_update [OF tx _ tx_ok_resent(1) [OF _ lt]]) (simp_all add: Some)
    have hist: "last h \<in> set h" using k(1) by simp
    with ok k(2) have fits: "fits resp" by (auto simp: server_ok_def)
    have "written_ok cl (server_msgs n (map snd h)) (fst d)" if "d \<in> set out" for d
    proof -
      from that s'(2) have "resend_of (s_routerAddr s) (s_senderWindow s ! i) \<noteq> []" by auto
      from tx_ok_resent(3) [OF k(4) lt this] that s'(2)
      have u: "0 < i" "i \<le> k" "fst d = raw_bytes (packet_of (Some cl) (units 1 resp ! (i - 1)))" by auto
      have "i - 1 < length (units 1 resp)" using u(1,2) send_at_bound [OF k(3)] by simp
      then have unit: "units 1 resp ! (i - 1) \<in> set (units 1 resp)" by (rule nth_mem)
      then have "units 1 resp ! (i - 1) \<in> server_msgs n (map snd h)"
        using hist k(2) by (auto simp: server_msgs_def)
      with unit_small [OF fits unit] u(3) show ?thesis unfolding written_ok_def by blast
    qed
    moreover have "acks_true s' ws"
      using ok slot_acked_resent [of _ "s_senderWindow s" i] by (auto simp: s'(1) server_ok_def acks_true_def)
    ultimately show ?thesis
      using inv tx' ok s'(1) by (simp add: server_step_ok_def server_ok_def server_rx_ok_def)
  qed
qed

lemma server_tick_step:
  assumes ok: "server_ok cl req ws h pc s"
  shows "server_step_ok cl req ws n [] h pc (server_fire i s)"
proof -
  have inv: "server_inv (server_fire i s)"
    using server_inv_step [OF server_step.tick] ok by (simp add: server_ok_def)
  have "fire_slot i (replicate WindowSize None) = replicate WindowSize None"
    by (auto simp: fire_slot_def list_update_same_conv)
  with ok have "server_tx_ok cl h pc (server_fire i s)"
    by (auto simp: server_ok_def server_tx_ok_def server_fire_def tx_ok_fire split: option.splits)
  moreover have "acks_true (server_fire i s) ws"
    using ok slot_acked_fire by (auto simp: server_fire_def server_ok_def acks_true_def)
  ultimately show ?thesis
    using inv ok by (simp add: server_step_ok_def server_ok_def server_rx_ok_def server_fire_def)
qed

lemma server_check_step:
  assumes ok: "server_ok cl req ws h pc s" and fits: "fits req"
    and step: "server_checkForDeliver s = Inr s'"
  shows "server_step_ok cl req ws n [] h pc s'"
proof -
  have inv: "server_inv s'" using server_inv_step [OF server_step.check [OF step]] ok by (simp add: server_ok_def)
  from ok have tx: "server_tx_ok cl h pc s" and rx: "server_rx_ok req pc s"
    by (simp_all add: server_ok_def)
  let ?ws = "s_receiverWindow s"
  have frame: "s_clientAddr s' = s_clientAddr s" "s_seqNum s' = s_seqNum s"
    "s_senderWindow s' = s_senderWindow s" "s_handshakeSynChannel s' = s_handshakeSynChannel s"
    "s_receiverWindow s' = ?ws"
    using step by (auto simp: server_checkForDeliver_def go_bind_Inr_iff split: option.splits if_splits)
  have "poll_ok [req] ?ws (s_checker s') (s_deliveryMessage s')"
  proof (cases "s_checker s")
    case None
    with step rx show ?thesis by (simp add: server_checkForDeliver_def server_rx_ok_def)
  next
    case (Some d)
    with rx have "checker_ok [req] ?ws (Some d)" by (simp add: server_rx_ok_def poll_ok_def)
    then obtain d' ready where r: "check_round ?ws d = Inr (d', ready)" "checker_ok [req] ?ws (Some d')"
      "ready \<longleftrightarrow> d \<noteq> -1 \<and> first_complete [req] ?ws"
      using check_round_checker [of "[req]" ?ws d] rx fits by (auto simp: server_rx_ok_def)
    from step Some r show ?thesis
      using rx by (auto simp: server_checkForDeliver_def server_rx_ok_def poll_ok_def checker_ok_def
          split: option.splits if_splits)
  qed
  with inv ok rx frame server_tx_ok_frame [OF tx frame(1-3)] tx show ?thesis
    by (simp add: server_step_ok_def server_ok_def server_rx_ok_def acks_true_def server_tx_ok_def)
qed

lemma server_bg_ok:
  assumes "server_ok cl req ws h pc s" "fits req"
    and "\<forall>b \<in> B. arrives cl ({(SYN, 0, []), (ACK, 0, [])} \<union> acks_of ws \<union> set (take n (units 1 req))) b"
    and "server_bg B s out s'"
  shows "server_step_ok cl req ws n out h pc s'"
  using assms(4)
proof cases
  case (rx b out')
  with assms(3) have "arrives cl ({(SYN, 0, []), (ACK, 0, [])} \<union> acks_of ws \<union> set (take n (units 1 req))) b"
    by blast
  from server_rx_step [OF assms(1,2) this rx(3)] rx(1) show ?thesis by simp
next
  case (resend i out')
  with server_resend_step [OF assms(1)] show ?thesis by simp
next
  case (tick i)
  with server_tick_step [OF assms(1)] show ?thesis by simp
next
  case check
  with server_check_step [OF assms(1,2)] show ?thesis by simp
qed

subsection \<open>The main goroutine\<close>

lemmas server_ok_defs = server_step_ok_def server_ok_def server_tx_ok_def server_rx_ok_def
  acks_true_def settled_def server_phase_def handling_def

lemma server_syn_step:
  assumes ok: "server_ok cl req ws h S_Syn s" and step: "server_take_syn s = Some s'"
  shows "server_step_ok cl req ws n [] h S_Synack s'"
proof -
  have inv: "server_inv s'"
    using server_inv_step [OF server_step.syn [OF step]] ok by (simp add: server_ok_def)
  from step obtain p ch where p: "chan_recv (s_handshakeSynChannel s) = Some (p, ch)"
    by (auto simp: server_take_syn_def split: option.splits)
  then have "p \<in> set (chan_buf (s_handshakeSynChannel s))" "set (chan_buf ch) \<subseteq> set (chan_buf (s_handshakeSynChannel s))"
    by (auto simp: chan_recv_def split: list.splits)
  with p step ok inv show ?thesis
    by (auto simp: server_ok_defs server_take_syn_def Let_def)
qed

lemma server_synack_step:
  assumes ok: "server_ok cl req ws h S_Synack s" and step: "server_send_synack s = Inr (s', out)"
  shows "server_step_ok cl req ws n (map fst out) h S_Select s'"
proof -
  from ok have "s_clientAddr s = Some cl" "s_seqNum s = 0" by (simp_all add: server_ok_defs)
  then have "\<lparr>Type = SYNACK, SeqNum = s_seqNum s, ToAddr = s_clientAddr s, FromAddr = None, Payload = []\<rparr>
      = packet_of (Some cl) (SYNACK, 0, [])" by (simp add: packet_of_def)
  with step have s': "s' = s" "map fst out = [raw_bytes (packet_of (Some cl) (SYNACK, 0, []))]"
    by (auto simp: server_send_synack_def)
  have "written_ok cl (server_msgs n (map snd h)) (raw_bytes (packet_of (Some cl) (SYNACK, 0, [])))"
    unfolding written_ok_def server_msgs_def by auto
  with s' ok show ?thesis by (simp add: server_ok_defs)
qed

lemma server_ack_step:
  assumes ok: "server_ok cl req ws h S_Select s" and step: "server_take_ack s = Some s'"
  shows "server_step_ok cl req ws n [] h S_Await s'"
proof -
  have inv: "server_inv s'"
    using server_inv_step [OF server_step.ack [OF step]] ok by (simp add: server_ok_def)
  with ok step show ?thesis
    by (auto simp: server_ok_defs server_take_ack_def connected_def split: option.splits)
qed

lemma server_await_step:
  assumes ok: "server_ok cl req ws h S_Await s" and fits: "fits req"
    and step: "server_await_request s = Some (Inr (s', raw))"
  shows "server_step_ok cl req ws n [] h (S_Handle raw) s'"
proof -
  have inv: "server_inv s'"
    using server_inv_step [OF server_step.await [OF step]] ok by (simp add: server_ok_def)
  from ok have rx: "server_rx_ok req S_Await s" by (simp add: server_ok_def)
  from step obtain b ch where ch: "chan_recv (s_deliveryMessage s) = Some (b, ch)"
    and s': "s' = s\<lparr>s_deliveryMessage := ch\<rparr>" and raw: "window_packets (s_receiverWindow s) = Inr raw"
    by (auto simp: server_await_request_def server_getPackets_def Let_def go_bind_Inr_iff split: option.splits)
  from poll_ok_recv [OF _ ch] rx have poll: "first_complete [req] (s_receiverWindow s)"
    "poll_ok [req] (s_receiverWindow s) (s_checker s) ch"
    by (auto simp: server_rx_ok_def)
  with first_reassembled [of "[req]" "s_receiverWindow s"] rx raw fits have "raw = req"
    by (simp add: server_rx_ok_def)
  with inv ok poll s' show ?thesis by (auto simp: server_ok_defs)
qed

lemma server_handle_step:
  assumes ok: "server_ok cl req ws h (S_Handle raw) s" and "fits resp"
  shows "server_step_ok cl req ws n [] (h @ [(raw, resp)]) (S_Send resp (Sending 0)) s"
proof -
  have "settled (h @ [(raw, resp)]) (S_Send resp (Sending 0)) ws"
    using ok first_complete_snoc [of "map snd h" ws resp] by (auto simp: server_ok_defs)
  with assms show ?thesis
    by (auto simp: server_ok_defs tx_ok_0 intro!: exI [of _ 0])
qed

lemma server_write_step:
  assumes ok: "server_ok cl req ws h (S_Send resp (Sending st)) s"
    and nx: "next_packet (s_seqNum s) (s_clientAddr s) resp st = (p, next)"
    and step: "server_write p s = Inr d"
  shows "server_step_ok cl req ws n [fst d] h (S_Send resp (Storing p next)) s"
proof -
  from ok have tx: "server_tx_ok cl h (S_Send resp (Sending st)) s" and to: "s_clientAddr s = Some cl"
    by (simp_all add: server_ok_def server_tx_ok_def)
  obtain k where k: "h \<noteq> []" "resp = snd (last h)" "send_at cl resp (Sending st) k"
    "tx_ok cl resp (s_senderWindow s) k" "s_seqNum s = word_of_nat (Suc k)"
    using server_tx_phase [OF tx, of resp "Sending st"] by (auto simp: server_phase_def)
  have at: "send_at cl resp (Storing p next) k"
    using send_at_next [OF k(3)] nx to k(5) by simp
  then have p: "k < length (units 1 resp)" "p = packet_of (Some cl) (units 1 resp ! k)" by simp_all
  have hist: "last h \<in> set h" using k(1) by simp
  with ok k(2) have fits: "fits resp" by (auto simp: server_ok_def)
  have "units 1 resp ! k \<in> server_msgs n (map snd h)"
    using nth_mem [OF p(1)] hist k(2) by (auto simp: server_msgs_def)
  then have "written_ok cl (server_msgs n (map snd h)) (fst d)"
    using step p(2) unit_small [OF fits nth_mem [OF p(1)]] unfolding written_ok_def server_write_def by auto
  moreover have "server_tx_ok cl h (S_Send resp (Storing p next)) s"
    using tx k at unfolding server_tx_ok_def server_phase_def handling_def
    by (auto simp del: send_at.simps)
  moreover have "settled h (S_Send resp (Storing p next)) ws"
    using ok by (auto simp: server_ok_def settled_def)
  ultimately show ?thesis
    using ok by (simp add: server_step_ok_def server_ok_def server_rx_ok_def)
qed

lemma server_store_step:
  assumes ok: "server_ok cl req ws h (S_Send resp (Storing p next)) s" and step: "server_store p s = Inr s'"
  shows "server_step_ok cl req ws n [] h (S_Send resp next) s'"
proof -
  from ok have tx: "server_tx_ok cl h (S_Send resp (Storing p next)) s" and to: "s_clientAddr s = Some cl"
    by (simp_all add: server_ok_def server_tx_ok_def)
  obtain k where k: "h \<noteq> []" "resp = snd (last h)" "send_at cl resp (Storing p next) k"
    "tx_ok cl resp (s_senderWindow s) k" "s_seqNum s = word_of_nat (Suc k)" "unat (s_seqNum s) = Suc k"
    using server_tx_phase [OF tx, of resp "Storing p next"] by (auto simp: server_phase_def)
  from k(3) have at: "k < length (units 1 resp)" "p = packet_of (Some cl) (units 1 resp ! k)"
    "send_at cl resp next (Suc k)" by simp_all
  have s': "s' = s\<lparr>s_senderWindow := (s_senderWindow s)[Suc k := Some (NewWindowElement p)],
      s_seqNum := s_seqNum s + 1\<rparr>" and lt: "Suc k < WindowSize"
    using step k(6) tx_ok_length [OF k(4)]
    by (auto simp: server_store_def go_bind_Inr_iff go_store_def split: if_splits)
  have inv: "server_inv s'"
    using ok server_inv_sendPacket [of s p s'] step to at(2)
    by (auto simp: server_sendPacket_split server_ok_def server_write_def)
  have "tx_ok cl resp (s_senderWindow s') (Suc k)"
    using tx_ok_store [OF k(4) at(1) lt] at(2) by (simp add: s')
  moreover have "s_seqNum s' = word_of_nat (Suc (Suc k))" using k(5) by (simp add: s')
  ultimately have "server_tx_ok cl h (S_Send resp next) s'"
    using tx k(1,2) at(3) s' unfolding server_tx_ok_def server_phase_def by auto
  moreover have "acks_true s' ws"
    using ok slot_acked_store [of _ "s_senderWindow s" "Suc k" p]
    by (auto simp: s' server_ok_def acks_true_def)
  moreover have "settled h (S_Send resp next) ws"
    using ok by (auto simp: server_ok_def settled_def)
  ultimately show ?thesis
    using inv ok s' by (simp add: server_step_ok_def server_ok_def server_rx_ok_def)
qed

text \<open>When the loop at the end of \<open>send\<close> lets go, the client has the whole response.\<close>

lemma server_unblock_step:
  assumes ok: "server_ok cl req ws h (S_Send resp Sent) s"
    and step: "server_send_blocked s = Inr False"
  shows "server_step_ok cl req ws n [] h S_Close s"
proof -
  from ok have tx: "server_tx_ok cl h (S_Send resp Sent) s" by (simp add: server_ok_def)
  obtain k where k: "h \<noteq> []" "resp = snd (last h)" "send_at cl resp Sent k"
    "tx_ok cl resp (s_senderWindow s) k" "s_seqNum s = word_of_nat (Suc k)" "unat (s_seqNum s) = Suc k"
    using server_tx_phase [OF tx, of resp Sent] by (auto simp: server_phase_def)
  have K: "k = Suc (length (chunks resp))" using k(3) by simp
  have "Suc k \<le> length (s_senderWindow s)" using k(4) by (simp add: tx_ok_def)
  with step k(6) have free: "\<not> (\<exists>i < Suc k. slot_blocks (s_senderWindow s ! i))"
    unfolding server_send_blocked_def by (simp only: blocked_below_eq) simp
  have "ws ! i \<noteq> None" if "i \<in> {1..k}" for i
    using unblocked_acked [OF k(4) free, of i] that ok by (simp add: server_ok_def acks_true_def)
  then have "window_complete resp ws" by (simp add: window_complete_def K)
  then have "settled h S_Close ws"
    using ok k(1,2) by (cases h) (auto simp: server_ok_def settled_def first_complete_def)
  moreover have "server_tx_ok cl h S_Close s"
    using tx k by (auto simp: server_tx_ok_def server_phase_def)
  ultimately show ?thesis
    using ok by (simp add: server_step_ok_def server_ok_def server_rx_ok_def)
qed

lemma server_close_step:
  assumes ok: "server_ok cl req ws h S_Close s"
  shows "server_step_ok cl req ws n [] h S_Reset (disconnected s)"
proof -
  have "server_inv (disconnected s)"
    using server_inv_step [OF server_step.close] ok by (simp add: server_ok_def)
  with ok show ?thesis
    by (auto simp: server_ok_defs disconnected_def)
qed

lemma server_reset_step:
  assumes ok: "server_ok cl req ws h S_Reset s"
  shows "server_step_ok cl req ws n [] h S_Syn (server_reset s)"
proof -
  have "server_inv (server_reset s)"
    using server_inv_step [OF server_step.reset] ok by (simp add: server_ok_def)
  moreover have "poll_ok [req] (replicate WindowSize None) (Some (-1)) (make_chan 1)"
    by (simp add: poll_ok_def checker_ok_def)
  moreover have "settled h S_Syn ws" using ok by (auto simp: server_ok_def settled_def)
  ultimately show ?thesis
    using ok rx_agrees_empty [of "[req]"]
    unfolding server_step_ok_def server_ok_def server_tx_ok_def server_rx_ok_def acks_true_def
    by (simp add: server_reset_def server_phase_def handling_def)
qed

lemma server_main_ok:
  assumes "server_ok cl req ws h pc s" "fits req" "\<And>q w r w'. handles q w r w' \<Longrightarrow> fits r"
    and "server_main handles s pc h w out s' pc' h' w'"
  shows "server_step_ok cl req ws n out h' pc' s'"
  using assms(4)
proof cases
  case timeout
  with assms(1) show ?thesis by (simp add: server_ok_defs)
qed (use assms(1-3) in \<open>auto intro: server_syn_step server_synack_step server_ack_step server_await_step
    server_handle_step server_write_step server_store_step server_unblock_step server_close_step
    server_reset_step\<close>)

end
