(* ===== verification/Session_System.thy ===== *)
theory Session_System
  imports Session_Server
begin

section \<open>The session invariant and what follows from it\<close>

text \<open>
  The two shares and the datagrams under way, put together: every reachable state of the system is
  \<open>sys_ok\<close>.
\<close>

subsection \<open>Reachable states\<close>

text \<open>The worlds a history leads through.\<close>

inductive served :: "'w handler \<Rightarrow> 'w \<Rightarrow> history \<Rightarrow> 'w \<Rightarrow> bool" for handles w0 where
  none: "served handles w0 [] w0"
| more: "served handles w0 h w \<Longrightarrow> handles q w r w' \<Longrightarrow> served handles w0 (h @ [(q, r)]) w'"

definition session_fits :: "'w handler \<Rightarrow> bytes \<Rightarrow> bool" where
  "session_fits handles req \<longleftrightarrow> fits req \<and> (\<forall>q w r w'. handles q w r w' \<longrightarrow> fits r)"

definition session_reachable ::
    "router_flags \<Rightarrow> udp_addr \<Rightarrow> udp_addr \<Rightarrow> udp_addr \<Rightarrow> 'w handler \<Rightarrow> bytes \<Rightarrow> 'w \<Rightarrow> 'w sys \<Rightarrow> bool" where
  "session_reachable f gate cl sv handles req w0 x \<longleftrightarrow>
     (\<exists>verbose. (sys_step f cl sv handles req)\<^sup>*\<^sup>* (sys_init verbose gate sv w0) x)"

lemma session_reachable_step:
  "session_reachable f gate cl sv handles req w0 x \<Longrightarrow> (sys_step f cl sv handles req)\<^sup>*\<^sup>* x y \<Longrightarrow>
     session_reachable f gate cl sv handles req w0 y"
  unfolding session_reachable_def by (meson rtranclp_trans)

subsection \<open>The invariant\<close>

definition responses :: "'w sys \<Rightarrow> bytes list" where
  "responses x = map snd (handled x)"

definition from_client :: "bytes \<Rightarrow> 'w sys \<Rightarrow> unit_msg set" where
  "from_client req x = client_msgs req (cpc x) (client x)"

definition from_server :: "'w sys \<Rightarrow> unit_msg set" where
  "from_server x = server_msgs (client_written (cpc x) (client x)) (responses x)"

definition sys_ok ::
    "udp_addr \<Rightarrow> udp_addr \<Rightarrow> 'w handler \<Rightarrow> bytes \<Rightarrow> 'w \<Rightarrow> 'w sys \<Rightarrow> bool" where
  "sys_ok cl sv handles req w0 x \<longleftrightarrow>
     client_ok sv req (responses x) (cpc x) (client x)
     \<and> server_ok cl req (c_receiverWindow (client x)) (handled x) (spc x) (server x)
     \<and> net_ok cl sv (from_client req x) (from_server x) (wire x) (relay x) (routed x)
     \<and> served handles w0 (handled x) (world x)"

lemma sys_ok_resps:
  assumes "server_ok cl req (c_receiverWindow c) h pc s"
  shows "resps_ok (map snd h) c"
  using assms by (auto simp: server_ok_def settled_def resps_ok_def)

lemma sys_ok_init: "sys_ok cl sv handles req w0 (sys_init verbose gate sv w0)"
proof -
  have poll: "poll_ok ms (replicate WindowSize None) (Some (-1)) (make_chan 1)" for ms
    by (simp add: poll_ok_def checker_ok_def)
  have "client_ok sv req [] C_Syn (initHttpClient verbose gate sv)"
    using client_inv_init [of verbose gate sv] poll [of "[]"] rx_agrees_empty [of "[]"]
    by (simp add: client_ok_def client_tx_ok_def client_rx_ok_def client_phase_def) (simp add: initHttpClient_def)
  moreover have "server_ok cl req ws [] S_Syn (initHttpServer gate)" for ws
    using server_inv_init [of gate] poll [of "[req]"] rx_agrees_empty [of "[req]"]
    unfolding server_ok_def server_tx_ok_def server_rx_ok_def acks_true_def settled_def
    by (simp add: initHttpServer_def server_phase_def handling_def)
  ultimately show ?thesis
    by (simp add: sys_ok_def responses_def sys_init_def net_ok_empty served.none)
qed

lemma reads_client:
  assumes "hosts cl sv" "sys_ok cl sv handles req w0 x"
  shows "\<forall>b \<in> reads cl x. arrives sv (server_msgs (client_written (cpc x) (client x)) (responses x)) b"
  using assms net_ok_to_client [OF assms(1)] by (auto simp: sys_ok_def reads_def from_server_def)

lemma reads_server:
  assumes "hosts cl sv" "sys_ok cl sv handles req w0 x"
  shows "\<forall>b \<in> reads sv x. arrives cl ({(SYN, 0, []), (ACK, 0, [])} \<union> acks_of (c_receiverWindow (client x))
     \<union> set (take (client_written (cpc x) (client x)) (units 1 req))) b"
  using assms net_ok_to_server [OF assms(1)]
  by (auto simp: sys_ok_def reads_def from_client_def client_msgs_def)

lemma sys_ok_client:
  assumes ok: "sys_ok cl sv handles req w0 x"
    and step: "client_step_ok sv req (responses x) (cpc x) (client x) out pc' c'"
  shows "sys_ok cl sv handles req w0
    (x\<lparr>client := c', cpc := pc', wire := Pair cl ` set out \<union> wire x\<rparr>)" (is "sys_ok _ _ _ _ _ ?y")
proof -
  from step have c': "client_ok sv req (responses x) pc' c'"
    and filled: "\<forall>i. c_receiverWindow (client x) ! i \<noteq> None \<longrightarrow> c_receiverWindow c' ! i \<noteq> None"
    and mono: "client_written (cpc x) (client x) \<le> client_written pc' c'"
    and out: "\<forall>b \<in> set out. written_ok sv (client_msgs req pc' c') b"
    by (simp_all add: client_step_ok_def)
  have "from_client req x \<subseteq> client_msgs req pc' c'"
    unfolding from_client_def by (rule client_msgs_mono [OF filled mono])
  moreover have "from_server x \<subseteq> server_msgs (client_written pc' c') (responses x)"
    unfolding from_server_def by (rule server_msgs_mono [OF mono]) simp
  ultimately have "net_ok cl sv (client_msgs req pc' c') (server_msgs (client_written pc' c') (responses x))
      (wire x) (relay x) (routed x)"
    using ok net_ok_mono by (fastforce simp: sys_ok_def)
  from net_ok_client_writes [OF this out] c' server_ok_mono [OF _ filled] ok show ?thesis
    by (simp add: sys_ok_def responses_def from_client_def from_server_def)
qed

lemma client_ok_snoc:
  assumes "client_ok sv req resps pc c"
  shows "client_ok sv req (resps @ [r]) pc c"
proof -
  have "hd (resps @ [r]) = hd resps" if "first_complete resps ws" for ws
    using that by (simp add: first_complete_def)
  with assms show ?thesis
    using rx_agrees_snoc [of resps _ r] poll_ok_snoc [of resps _ _ _ r] first_complete_snoc [of resps _ r]
    by (auto simp: client_ok_def client_rx_ok_def)
qed

lemma server_main_history:
  assumes "server_main handles s pc h w out s' pc' h' w'"
  shows "h' = h \<and> w' = w \<or> (\<exists>raw resp. pc = S_Handle raw \<and> h' = h @ [(raw, resp)] \<and> handles raw w resp w')"
  using assms by cases auto

lemma sys_ok_server:
  assumes ok: "sys_ok cl sv handles req w0 x"
    and step: "server_step_ok cl req (c_receiverWindow (client x)) (client_written (cpc x) (client x))
      out h' pc' s'"
    and hist: "h' = handled x \<and> w' = world x
      \<or> (\<exists>raw resp. h' = handled x @ [(raw, resp)] \<and> handles raw (world x) resp w')"
  shows "sys_ok cl sv handles req w0
    (x\<lparr>server := s', spc := pc', handled := h', world := w', wire := Pair sv ` set out \<union> wire x\<rparr>)"
proof -
  let ?n = "client_written (cpc x) (client x)"
  from step have s': "server_ok cl req (c_receiverWindow (client x)) h' pc' s'"
    and out: "\<forall>b \<in> set out. written_ok cl (server_msgs ?n (map snd h')) b"
    by (simp_all add: server_step_ok_def)
  have "from_server x \<subseteq> server_msgs ?n (map snd h')"
    unfolding from_server_def responses_def using hist by (intro server_msgs_mono) auto
  then have "net_ok cl sv (from_client req x) (server_msgs ?n (map snd h')) (wire x) (relay x) (routed x)"
    using ok net_ok_mono by (fastforce simp: sys_ok_def)
  note net = net_ok_server_writes [OF this out]
  have "client_ok sv req (map snd h') (cpc x) (client x)"
    using ok hist client_ok_snoc by (auto simp: sys_ok_def responses_def)
  moreover have "served handles w0 h' w'"
    using ok hist by (auto simp: sys_ok_def intro: served.more)
  ultimately show ?thesis
    using net s' by (simp add: sys_ok_def responses_def from_client_def from_server_def)
qed

lemma sys_ok_step:
  assumes hosts: "hosts cl sv" and fits: "session_fits handles req"
    and ok: "sys_ok cl sv handles req w0 x" and step: "sys_step f cl sv handles req x y"
  shows "sys_ok cl sv handles req w0 y"
  using step
proof cases
  case (client_main out c' pc')
  have "client_step_ok sv req (responses x) (cpc x) (client x) out pc' c'"
    using client_main_ok [OF _ _ _ client_main(2)] ok fits sys_ok_resps
    by (auto simp: sys_ok_def responses_def session_fits_def)
  from sys_ok_client [OF ok this] client_main(1) show ?thesis by simp
next
  case (client_bg out c')
  have "client_step_ok sv req (responses x) (cpc x) (client x) out (cpc x) c'"
    using client_bg_ok [OF _ _ _ reads_client [OF hosts ok] client_bg(2)] ok fits sys_ok_resps
    by (auto simp: sys_ok_def responses_def session_fits_def)
  from sys_ok_client [OF ok this] client_bg(1) show ?thesis by simp
next
  case (server_main out s' pc' h' w')
  have "server_step_ok cl req (c_receiverWindow (client x)) (client_written (cpc x) (client x)) out h' pc' s'"
  proof (rule server_main_ok [OF _ _ _ server_main(2)])
    show "server_ok cl req (c_receiverWindow (client x)) (handled x) (spc x) (server x)"
      using ok by (simp add: sys_ok_def)
    show "fits r" if "handles q w r w2" for q w r w2
      using fits that unfolding session_fits_def by blast
  qed (use fits in \<open>simp add: session_fits_def\<close>)
  from sys_ok_server [OF ok this] server_main_history [OF server_main(2)] server_main(1) show ?thesis
    by auto
next
  case (server_bg out s')
  have "server_step_ok cl req (c_receiverWindow (client x)) (client_written (cpc x) (client x)) out
      (handled x) (spc x) s'"
    using server_bg_ok [OF _ _ reads_server [OF hosts ok] server_bg(2)] ok fits
    by (auto simp: sys_ok_def session_fits_def)
  from sys_ok_server [OF ok this, of "world x"] server_bg(1) show ?thesis by simp
next
  case (router_reads src b u k r' out)
  with ok net_ok_router_receive [OF hosts _ router_reads(2,6)] show ?thesis
    by (simp add: sys_ok_def responses_def from_client_def from_server_def)
next
  case (router_timer i r' out)
  with ok net_ok_router_fire [OF _ router_timer(2)] show ?thesis
    by (simp add: sys_ok_def responses_def from_client_def from_server_def)
qed

lemma session_ok:
  assumes "hosts cl sv" "session_fits handles req"
    and "session_reachable f gate cl sv handles req w0 x"
  shows "sys_ok cl sv handles req w0 x"
proof -
  from assms(3) obtain verbose where
    "(sys_step f cl sv handles req)\<^sup>*\<^sup>* (sys_init verbose gate sv w0) x"
    by (auto simp: session_reachable_def)
  then show ?thesis
    by (induction rule: rtranclp_induct) (auto intro: sys_ok_init sys_ok_step [OF assms(1,2)])
qed

end
