(* ===== verification/Session_Safety.thy ===== *)
theory Session_Safety
  imports Session_System
begin

section \<open>What a session promises\<close>

text \<open>
  Consequences of the session invariant: the refinement of an abstract service, and which operations
  can panic while the two programs run against each other.
\<close>

subsection \<open>The abstract service\<close>

text \<open>
  What the programs are for: the server answers the request, at least once and perhaps again (a
  delayed datagram can open another session), and the client takes the first answer.
\<close>

record 'w service =
  sv_world :: 'w
  sv_answers :: "bytes list"
  sv_result :: "bytes option"

inductive service_step :: "'w handler \<Rightarrow> bytes \<Rightarrow> 'w service \<Rightarrow> 'w service \<Rightarrow> bool" for handles req where
  answer: "handles req (sv_world a) r w' \<Longrightarrow>
    service_step handles req a (a\<lparr>sv_world := w', sv_answers := sv_answers a @ [r]\<rparr>)"
| result: "sv_answers a \<noteq> [] \<Longrightarrow> sv_result a = None \<Longrightarrow>
    service_step handles req a (a\<lparr>sv_result := Some (hd (sv_answers a))\<rparr>)"

definition result_of :: "client_pc \<Rightarrow> bytes option" where
  "result_of pc = (case pc of C_Done raw \<Rightarrow> Some raw | _ \<Rightarrow> None)"

definition service_of :: "'w sys \<Rightarrow> 'w service" where
  "service_of x = \<lparr>sv_world = world x, sv_answers = responses x, sv_result = result_of (cpc x)\<rparr>"

lemma client_main_result:
  assumes "client_main req c pc out c' pc'"
  shows "pc' = C_Done raw \<Longrightarrow> pc = C_Send Sent" "result_of pc = None"
  using assms by (cases; simp add: result_of_def)+

lemma service_refined:
  assumes "hosts cl sv" "session_fits handles req" "sys_ok cl sv handles req w0 x"
    and step: "sys_step f cl sv handles req x y"
  shows "service_of y = service_of x \<or> service_step handles req (service_of x) (service_of y)"
proof -
  have ok: "sys_ok cl sv handles req w0 y" by (rule sys_ok_step [OF assms])
  from step show ?thesis
  proof cases
    case (client_main out c' pc')
    show ?thesis
    proof (cases "\<exists>raw. pc' = C_Done raw")
      case True
      then obtain raw where raw: "pc' = C_Done raw" by blast
      with ok client_main(1) have "responses x \<noteq> []" "raw = hd (responses x)"
        by (auto simp: sys_ok_def client_ok_def client_rx_ok_def responses_def first_complete_def)
      with raw client_main(1) client_main_result(2) [OF client_main(2)]
        service_step.result [of "service_of x" handles req]
      show ?thesis by (simp add: service_of_def responses_def result_of_def)
    next
      case False
      then have "result_of pc' = None" by (simp add: result_of_def split: client_pc.splits)
      with client_main(1) client_main_result(2) [OF client_main(2)] show ?thesis
        by (simp add: service_of_def responses_def)
    qed
  next
    case (server_main out s' pc' h' w')
    from server_main_history [OF server_main(2)]
    consider "h' = handled x" "w' = world x"
      | raw resp where "spc x = S_Handle raw" "h' = handled x @ [(raw, resp)]" "handles raw (world x) resp w'"
      by blast
    then show ?thesis
    proof cases
      case 1
      with server_main(1) show ?thesis by (simp add: service_of_def responses_def)
    next
      case (2 raw resp)
      with assms(3) have "raw = req" by (simp add: sys_ok_def server_ok_def server_rx_ok_def)
      with 2 server_main(1) service_step.answer [of handles req "service_of x" resp w'] show ?thesis
        by (simp add: service_of_def responses_def)
    qed
  qed (simp_all add: service_of_def responses_def)
qed

subsection \<open>Which operations can panic\<close>

inductive client_panics :: "udp_addr \<Rightarrow> bytes \<Rightarrow> 'w sys \<Rightarrow> bool" for cl req x where
  rx: "b \<in> reads cl x \<Longrightarrow> client_receive b (client x) = Inl e \<Longrightarrow> client_panics cl req x"
| resend: "i < unat (c_seqNum (client x)) \<Longrightarrow> client_resend_at i (client x) = Inl e \<Longrightarrow> client_panics cl req x"
| check: "client_checkForDeliver (client x) = Inl e \<Longrightarrow> client_panics cl req x"
| syn: "cpc x = C_Syn \<Longrightarrow> client_send_syn (client x) = Inl e \<Longrightarrow> client_panics cl req x"
| tx: "cpc x = C_Send (Sending st) \<Longrightarrow>
    client_write (fst (next_packet (c_seqNum (client x)) (c_serverAddr (client x)) req st)) (client x) = Inl e \<Longrightarrow>
    client_panics cl req x"
| store: "cpc x = C_Send (Storing p next) \<Longrightarrow> client_store p (client x) = Inl e \<Longrightarrow> client_panics cl req x"
| await: "cpc x = C_Send Sent \<Longrightarrow> client_await_response (client x) = Some (Inl e) \<Longrightarrow> client_panics cl req x"

inductive server_panics :: "udp_addr \<Rightarrow> 'w sys \<Rightarrow> bool" for sv x where
  rx: "b \<in> reads sv x \<Longrightarrow> server_receive b (server x) = Inl e \<Longrightarrow> server_panics sv x"
| resend: "i < unat (s_seqNum (server x)) \<Longrightarrow> server_resend_at i (server x) = Inl e \<Longrightarrow> server_panics sv x"
| check: "server_checkForDeliver (server x) = Inl e \<Longrightarrow> server_panics sv x"
| synack: "spc x = S_Synack \<Longrightarrow> server_send_synack (server x) = Inl e \<Longrightarrow> server_panics sv x"
| await: "spc x = S_Await \<Longrightarrow> server_await_request (server x) = Some (Inl e) \<Longrightarrow> server_panics sv x"
| tx: "spc x = S_Send resp (Sending st) \<Longrightarrow>
    server_write (fst (next_packet (s_seqNum (server x)) (s_clientAddr (server x)) resp st)) (server x) = Inl e \<Longrightarrow>
    server_panics sv x"
| store: "spc x = S_Send resp (Storing p next) \<Longrightarrow> server_store p (server x) = Inl e \<Longrightarrow> server_panics sv x"
| unblock: "spc x = S_Send resp Sent \<Longrightarrow> server_send_blocked (server x) = Inl e \<Longrightarrow> server_panics sv x"

lemma next_packet_to: "ToAddr (fst (next_packet seq to msg st)) = to"
  by (simp add: next_packet_def)

lemma server_receive_safe:
  assumes ok: "server_ok cl req ws h pc s" and fits: "fits req"
    and b: "arrives cl ({(SYN, 0, []), (ACK, 0, [])} \<union> acks_of ws \<union> set (take n (units 1 req))) b"
  shows "\<exists>r. server_receive b s = Inr r"
proof -
  have len: "length (s_senderWindow s) = WindowSize" "length (s_receiverWindow s) = WindowSize"
    using ok by (simp_all add: server_ok_def server_inv_def)
  from b show ?thesis
  proof (cases rule: client_msg_cases)
    case (handshake q)
    then show ?thesis by (auto simp: server_receive_eq [OF handshake(1)] Let_def)
  next
    case (ack q)
    then show ?thesis
      using len by (auto simp: server_receive_eq [OF ack(1)] Let_def server_on_ack_def split: option.splits)
  next
    case (data q)
    have "unat (SeqNum q) < WindowSize" using unit_slot [OF data(4)] fits by (simp add: fits_chunks)
    with data(2,3) len show ?thesis
      by (auto simp: server_receive_eq [OF data(1)] Let_def server_on_data_def window_save_eq raw_bytes_eq)
  qed
qed

lemma server_seq_bound:
  assumes tx: "server_tx_ok cl h pc s"
  shows "unat (s_seqNum s) \<le> WindowSize"
proof (cases "server_phase h pc")
  case None
  with tx show ?thesis by (auto simp: server_tx_ok_def split: if_splits)
next
  case (Some rp)
  then obtain resp ph where "server_phase h pc = Some (resp, ph)" by (cases rp) simp
  then obtain n where "h \<noteq> []" "resp = snd (last h)" "send_at cl resp ph n"
    "tx_ok cl resp (s_senderWindow s) n" "s_seqNum s = word_of_nat (Suc n)" "unat (s_seqNum s) = Suc n"
    by (rule server_tx_phase [OF tx])
  then show ?thesis by (simp add: tx_ok_def)
qed

lemma client_seq_bound:
  assumes tx: "client_tx_ok sv req pc c"
  shows "unat (c_seqNum c) \<le> WindowSize"
proof (cases "client_phase pc")
  case None
  with tx show ?thesis by (auto simp: client_tx_ok_def split: if_splits)
next
  case (Some ph)
  then obtain n where "send_at sv req ph n" "tx_ok sv req (c_senderWindow c) n"
    "c_seqNum c = word_of_nat (Suc n)" "unat (c_seqNum c) = Suc n" "client_written pc c = written ph n"
    by (rule client_tx_phase [OF tx])
  then show ?thesis by (simp add: tx_ok_def)
qed

lemma server_resend_safe:
  assumes "server_ok cl req ws h pc s" "i < unat (s_seqNum s)"
  shows "\<exists>r. server_resend_at i s = Inr r"
proof -
  from assms(1) have tx: "server_tx_ok cl h pc s" and inv: "server_inv s" by (simp_all add: server_ok_def)
  have "unat (s_seqNum s) \<le> WindowSize" by (rule server_seq_bound [OF tx])
  with assms(2) inv server_resend_eq [of s i] show ?thesis by (simp add: server_inv_def)
qed

lemma server_check_safe:
  assumes "server_ok cl req ws h pc s" "fits req"
  shows "\<exists>r. server_checkForDeliver s = Inr r"
proof (cases "s_checker s")
  case None
  then show ?thesis by (simp add: server_checkForDeliver_def)
next
  case (Some d)
  with assms obtain d' ready where "check_round (s_receiverWindow s) d = Inr (d', ready)"
    using check_round_checker [of "[req]" "s_receiverWindow s" d]
    by (auto simp: server_ok_def server_rx_ok_def poll_ok_def)
  with Some show ?thesis by (auto simp: server_checkForDeliver_def split: option.splits)
qed

lemma server_never_panics:
  assumes hosts: "hosts cl sv" and fits: "session_fits handles req" and ok: "sys_ok cl sv handles req w0 x"
  shows "\<not> server_panics sv x"
proof
  assume "server_panics sv x"
  from ok have s: "server_ok cl req (c_receiverWindow (client x)) (handled x) (spc x) (server x)"
    by (simp add: sys_ok_def)
  from fits have req: "fits req" by (simp add: session_fits_def)
  from s have to: "spc x \<noteq> S_Syn \<Longrightarrow> s_clientAddr (server x) = Some cl"
    and tx: "server_tx_ok cl (handled x) (spc x) (server x)"
    and rx: "server_rx_ok req (spc x) (server x)"
    by (simp_all add: server_ok_def server_tx_ok_def)
  from \<open>server_panics sv x\<close> show False
  proof cases
    case (rx b e)
    with reads_server [OF hosts ok] server_receive_safe [OF s req] show ?thesis by fastforce
  next
    case (resend i e)
    with server_resend_safe [OF s] show ?thesis by fastforce
  next
    case (check e)
    with server_check_safe [OF s req] show ?thesis by fastforce
  next
    case (synack e)
    with to show ?thesis by (simp add: server_send_synack_def raw_bytes_eq)
  next
    case (await e)
    then obtain b ch where ch: "chan_recv (s_deliveryMessage (server x)) = Some (b, ch)"
      and raw: "window_packets (s_receiverWindow (server x)) = Inl e"
      by (auto simp: server_await_request_def server_getPackets_def Let_def go_bind_def
          split: option.splits sum.splits)
    from poll_ok_recv [OF _ ch] rx have "first_complete [req] (s_receiverWindow (server x))"
      by (auto simp: server_rx_ok_def)
    with first_reassembled [of "[req]"] rx req raw show ?thesis by (simp add: server_rx_ok_def)
  next
    case (tx resp st e)
    with to show ?thesis
      using raw_bytes_eq [of "fst (next_packet (s_seqNum (server x)) (s_clientAddr (server x)) resp st)"]
      by (simp add: server_write_def next_packet_to)
  next
    case (store resp p next' e)
    then have "server_phase (handled x) (spc x) = Some (resp, Storing p next')" by (simp add: server_phase_def)
    then obtain k where k: "handled x \<noteq> []" "resp = snd (last (handled x))" "send_at cl resp (Storing p next') k"
      "tx_ok cl resp (s_senderWindow (server x)) k" "s_seqNum (server x) = word_of_nat (Suc k)"
      "unat (s_seqNum (server x)) = Suc k"
      by (rule server_tx_phase [OF tx])
    have "last (handled x) \<in> set (handled x)" using k(1) by simp
    with s k(2) have "fits resp" by (auto simp: server_ok_def)
    with k(3) have "Suc k < WindowSize" by (simp add: fits_chunks)
    with store(2) k(6) tx_ok_length [OF k(4)] show ?thesis
      by (simp add: server_store_def go_store_def)
  next
    case (unblock resp e)
    then have "server_phase (handled x) (spc x) = Some (resp, Sent)" by (simp add: server_phase_def)
    then obtain k where k: "handled x \<noteq> []" "resp = snd (last (handled x))" "send_at cl resp Sent k"
      "tx_ok cl resp (s_senderWindow (server x)) k" "s_seqNum (server x) = word_of_nat (Suc k)"
      "unat (s_seqNum (server x)) = Suc k"
      by (rule server_tx_phase [OF tx])
    have "Suc k \<le> length (s_senderWindow (server x))" using k(4) by (simp add: tx_ok_def)
    with unblock(2) k(6) show ?thesis
      unfolding server_send_blocked_def by (simp only: blocked_below_eq) simp
  qed
qed

text \<open>The client: an acknowledgement can overtake the store of the element it is for.\<close>

lemma client_receive_race:
  assumes ok: "client_ok sv req resps pc c" and fits: "fits req" "\<forall>m \<in> set resps. fits m"
    and b: "arrives sv (server_msgs (client_written pc c) resps) b"
    and panic: "client_receive b c = Inl e"
  shows "\<exists>q p next. ParsePacket b = (Some q, None) \<and> Type q = ACK \<and> e = Nil_deref
     \<and> pc = C_Send (Storing p next) \<and> SeqNum q = SeqNum p"
proof -
  from ok have tx: "client_tx_ok sv req pc c" and inv: "client_inv c" and sv: "c_serverAddr c = Some sv"
    by (simp_all add: client_ok_def client_tx_ok_def)
  have len: "length (c_senderWindow c) = WindowSize" "length (c_receiverWindow c) = WindowSize"
    using inv by (simp_all add: client_inv_def)
  from b show ?thesis
  proof (cases rule: server_msg_cases)
    case (synack q)
    with panic sv show ?thesis
      by (simp add: client_receive_eq [OF synack(1)] client_on_synack_def raw_bytes_eq)
  next
    case (data q m)
    have "unat (SeqNum q) < WindowSize"
      using unit_slot [OF data(5)] fits(2) data(4) by (fastforce simp: fits_chunks)
    with panic data(2,3) len show ?thesis
      by (auto simp: client_receive_eq [OF data(1)] client_on_data_def window_save_eq raw_bytes_eq
          split: if_splits)
  next
    case (ack q)
    let ?i = "unat (SeqNum q)"
    have lt: "?i < WindowSize"
      using ack(5) client_written_bound [OF tx] fits(1) by (simp add: fits_chunks)
    with panic len have e: "e = Nil_deref" and slot: "c_senderWindow c ! ?i = None"
      by (auto simp: client_receive_eq [OF ack(1)] ack(3) client_on_ack_def deref_def split: option.splits)
    obtain ph where ph: "client_phase pc = Some ph"
      using ack(4,5) by (auto simp: client_written_def split: option.splits)
    obtain n where n: "send_at sv req ph n" "tx_ok sv req (c_senderWindow c) n"
      "c_seqNum c = word_of_nat (Suc n)" "unat (c_seqNum c) = Suc n" "client_written pc c = written ph n"
      by (rule client_tx_phase [OF tx ph])
    from tx_ok_slot [OF n(2) lt] slot ack(4) have i: "n < ?i" by auto
    with ack(5) n(5) obtain p nx where st: "ph = Storing p nx" and at: "?i = Suc n"
      by (cases ph) auto
    have "pc = C_Send (Storing p nx)"
      using ph st by (cases pc) (auto simp: client_phase_def)
    moreover have "SeqNum q = SeqNum p"
    proof -
      have "n < length (units 1 req)" "p = packet_of (Some sv) (units 1 req ! n)" using n(1) st by simp_all
      then have "SeqNum p = word_of_nat (Suc n)" by (auto simp: packet_of_def units_nth_any)
      then have "SeqNum p = word_of_nat (unat (SeqNum q))" by (simp only: at)
      then show ?thesis by (simp add: of_nat_unat)
    qed
    ultimately show ?thesis using ack(1,3) e by blast
  qed
qed

lemma client_panic_race:
  assumes hosts: "hosts cl sv" and fits: "session_fits handles req" and ok: "sys_ok cl sv handles req w0 x"
    and panic: "client_panics cl req x"
  shows "\<exists>b q p next. b \<in> reads cl x \<and> ParsePacket b = (Some q, None) \<and> Type q = ACK
     \<and> cpc x = C_Send (Storing p next) \<and> SeqNum q = SeqNum p
     \<and> client_receive b (client x) = Inl Nil_deref"
proof -
  let ?c = "client x"
  from ok have c: "client_ok sv req (responses x) (cpc x) ?c" and r: "resps_ok (responses x) ?c"
    using sys_ok_resps by (auto simp: sys_ok_def responses_def)
  from c have tx: "client_tx_ok sv req (cpc x) ?c" and rx: "client_rx_ok (responses x) (cpc x) ?c"
    and inv: "client_inv ?c" and sv: "c_serverAddr ?c = Some sv"
    by (simp_all add: client_ok_def client_tx_ok_def)
  from fits have req: "fits req" by (simp add: session_fits_def)
  have resps: "\<forall>m \<in> set (responses x). fits m" using r by (simp add: resps_ok_def)
  from panic show ?thesis
  proof cases
    case (rx b e)
    with reads_client [OF hosts ok] client_receive_race [OF c req resps, of b e] show ?thesis by blast
  next
    case (resend i e)
    then obtain ph where "client_phase (cpc x) = Some ph"
      using tx by (auto simp: client_tx_ok_def split: option.splits)
    then obtain n where "send_at sv req ph n" and n: "tx_ok sv req (c_senderWindow ?c) n"
      "c_seqNum ?c = word_of_nat (Suc n)" "unat (c_seqNum ?c) = Suc n" "client_written (cpc x) ?c = written ph n"
      by (rule client_tx_phase [OF tx])
    then have "i < length (c_senderWindow ?c)" using resend(1) by (simp add: tx_ok_def)
    with resend(2) client_resend_eq [of ?c i] inv show ?thesis by (simp add: client_inv_def)
  next
    case (check e)
    show ?thesis
    proof (cases "c_checker ?c")
      case None
      with check show ?thesis by (simp add: client_checkForDeliver_def)
    next
      case (Some d)
      with rx r obtain d' ready where "check_round (c_receiverWindow ?c) d = Inr (d', ready)"
        using check_round_checker [of "responses x" "c_receiverWindow ?c" d]
        by (auto simp: client_rx_ok_def poll_ok_def resps_ok_def)
      with Some check show ?thesis by (auto simp: client_checkForDeliver_def split: option.splits if_splits)
    qed
  next
    case (syn e)
    with sv show ?thesis by (simp add: client_send_syn_def raw_bytes_eq)
  next
    case (tx st e)
    with sv raw_bytes_eq [of "fst (next_packet (c_seqNum ?c) (c_serverAddr ?c) req st)"] show ?thesis
      by (simp add: client_write_def next_packet_to)
  next
    case (store p nx e)
    then have "client_phase (cpc x) = Some (Storing p nx)" by (simp add: client_phase_def)
    then obtain n where n: "send_at sv req (Storing p nx) n" "tx_ok sv req (c_senderWindow ?c) n"
      "c_seqNum ?c = word_of_nat (Suc n)" "unat (c_seqNum ?c) = Suc n"
      "client_written (cpc x) ?c = written (Storing p nx) n"
      by (rule client_tx_phase [OF tx])
    with req have "Suc n < WindowSize" by (simp add: fits_chunks)
    with store(2) n(4) tx_ok_length [OF n(2)] show ?thesis by (simp add: client_store_def go_store_def)
  next
    case (await e)
    then obtain b ch where ch: "chan_recv (c_deliveryMessage ?c) = Some (b, ch)"
      and raw: "window_packets (c_receiverWindow ?c) = Inl e"
      by (auto simp: client_await_response_def client_getPackets_def Let_def go_bind_def
          split: option.splits sum.splits)
    from poll_ok_recv [OF _ ch] rx have poll: "first_complete (responses x) (c_receiverWindow ?c)"
      by (auto simp: client_rx_ok_def)
    then have "fits (hd (responses x))" using resps by (simp add: first_complete_def)
    with first_reassembled [OF _ poll] rx raw show ?thesis by (simp add: client_rx_ok_def)
  qed
qed

subsection \<open>Sizes\<close>

text \<open>Nothing on the wire is cut by a read buffer or refused by \<open>ParsePacket\<close>.\<close>

lemma written_ok_sizes:
  assumes "written_ok to M b" "wire_addr to"
  shows "minLen \<le> length b \<and> length b \<le> maxLen \<and> (\<exists>p. ParsePacket b = (Some p, None))"
proof -
  from assms(1) obtain u where u: "small u" "Raw (packet_of (Some to) u) = Inr b"
    by (auto simp: written_ok_def)
  have to: "ToAddr (packet_of (Some to) u) = Some to" by (simp add: packet_of_def)
  have pay: "length (Payload (packet_of (Some to) u)) \<le> MaxPayload"
    using u(1) by (simp add: small_def packet_of_def)
  from lib_codec.enc_size [OF to assms(2) u(2)] lib_codec.enc_dec [OF to assms(2) pay u(2)] pay
  show ?thesis by auto
qed

lemma sys_sizes:
  assumes hosts: "hosts cl sv" and ok: "sys_ok cl sv handles req w0 x"
  shows "(\<forall>(src, b) \<in> wire x. (src = cl \<or> src = sv) \<and> minLen \<le> length b \<and> length b \<le> maxLen
        \<and> (\<exists>p. ParsePacket b = (Some p, None)))
     \<and> unat (c_seqNum (client x)) \<le> WindowSize \<and> unat (s_seqNum (server x)) \<le> WindowSize"
proof (intro conjI ballI)
  fix d assume d: "d \<in> wire x"
  obtain src b where sb: "d = (src, b)" by (cases d)
  from hosts have w: "wire_addr cl" "wire_addr sv" by (simp_all add: hosts_def)
  from ok d sb have "src = cl \<and> written_ok sv (from_client req x) b \<or> src = sv \<and> written_ok cl (from_server x) b"
    by (auto simp: sys_ok_def net_ok_def)
  then have "(src = cl \<or> src = sv) \<and> minLen \<le> length b \<and> length b \<le> maxLen
      \<and> (\<exists>p. ParsePacket b = (Some p, None))"
    using written_ok_sizes w by blast
  then show "case d of (src, b) \<Rightarrow> (src = cl \<or> src = sv) \<and> minLen \<le> length b \<and> length b \<le> maxLen
      \<and> (\<exists>p. ParsePacket b = (Some p, None))"
    by (simp add: sb)
next
  show "unat (c_seqNum (client x)) \<le> WindowSize" "unat (s_seqNum (server x)) \<le> WindowSize"
    using ok client_seq_bound server_seq_bound by (simp_all only: sys_ok_def client_ok_def server_ok_def) blast+
qed

end
