(* ===== verification/Session_Runs.thy ===== *)
theory Session_Runs
  imports Session_Safety
begin

section \<open>Runs of the system\<close>

text \<open>
  What the system can do when the router forwards at once: the handshake, a request, its response,
  the end of the session, and then what a stale datagram starts.  Each lemma takes the system from
  one point of the two programs to the next and says what it leaves alone; what the windows hold
  at each point follows from the invariant \<open>sys_ok\<close>.
\<close>

subsection \<open>Sequences of steps\<close>

definition forwards :: "router_flags \<Rightarrow> bool" where
  "forwards f \<longleftrightarrow> dropRate f < 1 \<and> sint (maxDelay f) \<le> 0"

definition runs ::
    "router_flags \<Rightarrow> udp_addr \<Rightarrow> udp_addr \<Rightarrow> 'w handler \<Rightarrow> bytes \<Rightarrow> 'w sys \<Rightarrow> 'w sys \<Rightarrow> bool" where
  "runs f cl sv handles req = (sys_step f cl sv handles req)\<^sup>*\<^sup>*"

definition grows :: "'w sys \<Rightarrow> 'w sys \<Rightarrow> bool" where
  "grows x y \<longleftrightarrow> wire x \<subseteq> wire y \<and> routed x \<subseteq> routed y"

definition same_client :: "'w sys \<Rightarrow> 'w sys \<Rightarrow> bool" where
  "same_client x y \<longleftrightarrow> client y = client x \<and> cpc y = cpc x"

definition same_server :: "'w sys \<Rightarrow> 'w sys \<Rightarrow> bool" where
  "same_server x y \<longleftrightarrow> server y = server x \<and> spc y = spc x \<and> handled y = handled x \<and> world y = world x"

lemmas same_defs = grows_def same_client_def same_server_def

lemma runs_refl [simp]: "runs f cl sv handles req x x"
  by (simp add: runs_def)

lemma runs_step: "sys_step f cl sv handles req x y \<Longrightarrow> runs f cl sv handles req x y"
  by (simp add: runs_def r_into_rtranclp)

lemma runs_trans:
  "runs f cl sv handles req x y \<Longrightarrow> runs f cl sv handles req y z \<Longrightarrow> runs f cl sv handles req x z"
  unfolding runs_def by (rule rtranclp_trans)

lemma runs_ok:
  assumes "hosts cl sv" "session_fits handles req" "sys_ok cl sv handles req w0 x"
    and "runs f cl sv handles req x y"
  shows "sys_ok cl sv handles req w0 y"
  using assms(4) unfolding runs_def
  by (induction rule: rtranclp_induct) (auto intro: assms(3) sys_ok_step [OF assms(1,2)])

lemma reads_grow: "grows x y \<Longrightarrow> b \<in> reads a x \<Longrightarrow> b \<in> reads a y"
  by (auto simp: grows_def reads_def)

lemma grows_refl [simp]: "grows x x"
  by (simp add: grows_def)

lemma grows_trans: "grows x y \<Longrightarrow> grows y z \<Longrightarrow> grows x z"
  by (auto simp: grows_def)

subsection \<open>The router\<close>

definition carried :: "udp_addr \<Rightarrow> unit_msg \<Rightarrow> bytes \<Rightarrow> packet \<Rightarrow> bool" where
  "carried from u b q \<longleftrightarrow> ParsePacket b = (Some q, None) \<and> content q = u \<and> FromAddr q = Some from"

lemma forward_written:
  assumes hosts: "hosts cl sv" and f: "forwards f" and u: "small u"
    and ends: "(src, dst) = (cl, sv) \<or> (src, dst) = (sv, cl)"
    and w: "(src, raw_bytes (packet_of (Some dst) u)) \<in> wire x"
  shows "\<exists>y b q. runs f cl sv handles req x y \<and> same_client x y \<and> same_server x y \<and> grows x y
     \<and> b \<in> reads dst y \<and> carried src u b q"
proof -
  from hosts ends have h: "wire_addr dst" "wire_addr src" "canon src = src" "route_addr src dst = dst"
    by (auto simp: hosts_def)
  obtain p q where p: "fst (router_decode src (take 2048 (raw_bytes (packet_of (Some dst) u)))) = Some p"
    "FromAddr p = Some src" "ToAddr p = Some dst" "snd (forwarded p) = dst"
    "ParsePacket (fst (forwarded p)) = (Some q, None)" "content q = u" "FromAddr q = Some src"
    using forward_msg [OF h(1,2), of u] u h(3,4) by (auto simp: small_def)
  define v where "v = (if dropRate f < 0 then 0 else dropRate f)"
  have v: "0 \<le> v" "v < 1" "\<not> v < dropRate f" using f by (auto simp: v_def forwards_def)
  have "router_receive f v 0 src (raw_bytes (packet_of (Some dst) u)) (relay x) = Inr (relay x, [forwarded p])"
    using p f v(3) by (simp add: router_receive_eq router_process_def router_send_ok forwards_def Let_def)
  from sys_step.router_reads [OF w v(1,2) _ this]
  have "runs f cl sv handles req x (x\<lparr>relay := relay x, routed := insert (forwarded p) (routed x)\<rparr>)"
    by (intro runs_step) simp
  moreover have "forwarded p = (fst (forwarded p), dst)" using p(4) by (simp add: prod_eq_iff)
  ultimately show ?thesis
    using p(5-7) by (intro exI [of _ "x\<lparr>relay := relay x, routed := insert (forwarded p) (routed x)\<rparr>"]
      exI [of _ "fst (forwarded p)"] exI [of _ q]) (auto simp: same_defs reads_def carried_def)
qed

lemma to_server:
  assumes "hosts cl sv" "forwards f" "small u" "(cl, raw_bytes (packet_of (Some sv) u)) \<in> wire x"
    and rx: "\<forall>b q. carried cl u b q \<longrightarrow> (\<exists>s' out. server_receive b (server x) = Inr (s', out) \<and> P s' out)"
  shows "\<exists>y out. runs f cl sv handles req x y \<and> same_client x y \<and> grows x y
     \<and> spc y = spc x \<and> handled y = handled x \<and> world y = world x \<and> P (server y) out
     \<and> Pair sv ` fst ` set out \<subseteq> wire y"
proof -
  obtain y b q where y: "runs f cl sv handles req x y" "same_client x y" "same_server x y" "grows x y"
    "b \<in> reads sv y" "carried cl u b q"
    using forward_written [OF assms(1-3) _ assms(4)] by blast
  from rx y(6,3) obtain s' out where s': "server_receive b (server y) = Inr (s', out)" "P s' out"
    unfolding same_server_def by metis
  have "sys_step f cl sv handles req y (y\<lparr>server := s', wire := Pair sv ` set (map fst out) \<union> wire y\<rparr>)"
    by (rule sys_step.server_bg [OF server_bg.rx [OF y(5) s'(1)]])
  from runs_trans [OF y(1) runs_step [OF this]] y s' show ?thesis
    by (intro exI [of _ "y\<lparr>server := s', wire := Pair sv ` set (map fst out) \<union> wire y\<rparr>"]
      exI [of _ out]) (auto simp: same_defs)
qed

lemma to_client:
  assumes "hosts cl sv" "forwards f" "small u" "(sv, raw_bytes (packet_of (Some cl) u)) \<in> wire x"
    and rx: "\<forall>b q. carried sv u b q \<longrightarrow> (\<exists>c' out. client_receive b (client x) = Inr (c', out) \<and> P c' out)"
  shows "\<exists>y out. runs f cl sv handles req x y \<and> same_server x y \<and> grows x y
     \<and> cpc y = cpc x \<and> P (client y) out \<and> Pair cl ` fst ` set out \<subseteq> wire y"
proof -
  obtain y b q where y: "runs f cl sv handles req x y" "same_client x y" "same_server x y" "grows x y"
    "b \<in> reads cl y" "carried sv u b q"
    using forward_written [OF assms(1-3) _ assms(4)] by blast
  from rx y(6,2) obtain c' out where c': "client_receive b (client y) = Inr (c', out)" "P c' out"
    unfolding same_client_def by metis
  have "sys_step f cl sv handles req y (y\<lparr>client := c', wire := Pair cl ` set (map fst out) \<union> wire y\<rparr>)"
    by (rule sys_step.client_bg [OF client_bg.rx [OF y(5) c'(1)]])
  from runs_trans [OF y(1) runs_step [OF this]] y c' show ?thesis
    by (intro exI [of _ "y\<lparr>client := c', wire := Pair cl ` set (map fst out) \<union> wire y\<rparr>"]
      exI [of _ out]) (auto simp: same_defs)
qed

lemma carried_fields:
  assumes "carried from (ty, n, d) b q"
  shows "ParsePacket b = (Some q, None)" "FromAddr q = Some from" "Type q = ty" "unat (SeqNum q) = n" "Payload q = d"
  using assms by (auto simp: carried_def content_def)

subsection \<open>Main goroutine steps\<close>

lemma client_runs:
  assumes "client_main req (client x) (cpc x) out c' pc'"
  shows "\<exists>y. runs f cl sv handles req x y \<and> same_server x y \<and> grows x y
     \<and> client y = c' \<and> cpc y = pc' \<and> Pair cl ` set out \<subseteq> wire y"
  using runs_step [OF sys_step.client_main [OF assms, of f cl sv handles]]
  by (intro exI [of _ "x\<lparr>client := c', cpc := pc', wire := Pair cl ` set out \<union> wire x\<rparr>"]) (auto simp: same_defs)

lemma client_polls:
  assumes "client_checkForDeliver (client x) = Inr c'"
  shows "\<exists>y. runs f cl sv handles req x y \<and> same_server x y \<and> grows x y
     \<and> client y = c' \<and> cpc y = cpc x"
  using runs_step [OF sys_step.client_bg [OF client_bg.check [OF assms], of f cl sv handles req]]
  by (intro exI [of _ "x\<lparr>client := c'\<rparr>"]) (auto simp: same_defs)

lemma server_runs:
  assumes "server_main handles (server x) (spc x) (handled x) (world x) out s' pc' h' w'"
  shows "\<exists>y. runs f cl sv handles req x y \<and> same_client x y \<and> grows x y
     \<and> server y = s' \<and> spc y = pc' \<and> handled y = h' \<and> world y = w' \<and> Pair sv ` set out \<subseteq> wire y"
  using runs_step [OF sys_step.server_main [OF assms, of f cl sv req]]
  by (intro exI [of _ "x\<lparr>server := s', spc := pc', handled := h', world := w',
      wire := Pair sv ` set out \<union> wire x\<rparr>"]) (auto simp: same_defs)

lemma server_polls:
  assumes "server_checkForDeliver (server x) = Inr s'"
  shows "\<exists>y. runs f cl sv handles req x y \<and> same_client x y \<and> grows x y
     \<and> server y = s' \<and> spc y = spc x \<and> handled y = handled x \<and> world y = world x"
  using runs_step [OF sys_step.server_bg [OF server_bg.check [OF assms], of f cl sv handles req]]
  by (intro exI [of _ "x\<lparr>server := s'\<rparr>"]) (auto simp: same_defs)

subsection \<open>The handshake\<close>

definition fresh :: "HttpServer \<Rightarrow> bool" where
  "fresh s \<longleftrightarrow>
     \<not> s_connect s \<and> chan_buf (s_handshakeSynChannel s) = [] \<and> chan_buf (s_handshakeAckChannel s) = []
     \<and> s_checker s = Some (-1) \<and> chan_buf (s_deliveryMessage s) = []"

definition waiting :: "HttpServer \<Rightarrow> bool" where
  "waiting s \<longleftrightarrow> s_checker s = Some (-1) \<and> chan_buf (s_deliveryMessage s) = []"

definition synced :: "HttpClient \<Rightarrow> HttpClient \<Rightarrow> bool" where
  "synced c c' \<longleftrightarrow>
     (\<exists>ch. chan_len ch \<noteq> 0 \<and> c' = c\<lparr>c_handshakeSYNACKChannel := ch\<rparr>)"

lemma packet_of_raw [simp]:
  "Raw \<lparr>Type = ty, SeqNum = n, ToAddr = Some a, FromAddr = None, Payload = d\<rparr> =
     Inr (raw_bytes (packet_of (Some a) (ty, unat n, d)))"
  using raw_packet_of [of a "(ty, unat n, d)"] by (simp add: packet_of_def)

text \<open>The server with a SYN on its channel, and with an ACK on it.\<close>

definition syn_ready :: "udp_addr \<Rightarrow> HttpServer \<Rightarrow> bool" where
  "syn_ready cl s \<longleftrightarrow>
     (\<exists>s'. server_take_syn s = Some s' \<and> fresh s' \<and> s_clientAddr s' = Some cl \<and> s_seqNum s' = 0 \<and> server_inv s')"

definition ack_ready :: "HttpServer \<Rightarrow> bool" where
  "ack_ready s \<longleftrightarrow> (\<exists>s'. server_take_ack s = Some s' \<and> waiting s')"

lemma server_takes_syn:
  assumes "fresh s" "server_inv s" "s_clientAddr s = None" "s_seqNum s = 0" "carried cl (SYN, 0, []) b q"
  shows "\<exists>s' out. server_receive b s = Inr (s', out) \<and> syn_ready cl s'"
proof -
  note q = carried_fields [OF assms(5)]
  from assms(1,2) have "chan_len (s_handshakeSynChannel s) = 0" "chan_cap (s_handshakeSynChannel s) = 1"
    by (simp_all add: fresh_def server_inv_def chan_len_def)
  with assms q show ?thesis
    by (auto simp: server_receive_eq [OF q(1)] Let_def isConnected_def fresh_def server_on_handshake_def
        chan_send_def chan_len_def server_take_syn_def chan_recv_def server_inv_def syn_ready_def)
qed

lemma client_takes_synack:
  assumes "client_inv c" "c_serverAddr c = Some sv" "carried sv (SYNACK, 0, []) b q"
  shows "\<exists>c' out. client_receive b c = Inr (c', out)
     \<and> synced c c' \<and> raw_bytes (packet_of (Some sv) (ACK, 0, [])) \<in> fst ` set out"
proof -
  note q = carried_fields [OF assms(3)]
  show ?thesis
  proof (cases "chan_len (c_handshakeSYNACKChannel c) = 0")
    case True
    with assms(1,2) q show ?thesis
      by (auto simp: client_receive_eq [OF q(1)] client_on_synack_def client_inv_def chan_send_def
          chan_len_def synced_def intro!: exI [of _ "c_handshakeSYNACKChannel c\<lparr>chan_buf := [q]\<rparr>"])
  next
    case False
    with assms(2) q show ?thesis
      by (auto simp: client_receive_eq [OF q(1)] client_on_synack_def synced_def
          intro!: exI [of _ "c_handshakeSYNACKChannel c"])
  qed
qed

lemma server_takes_ack:
  assumes "fresh s" "server_inv s" "carried cl (ACK, 0, []) b q"
  shows "\<exists>s' out. server_receive b s = Inr (s', out) \<and> ack_ready s'"
proof -
  note q = carried_fields [OF assms(3)]
  from q(4) have "SeqNum q = 0" by (simp add: unat_eq_0)
  moreover from assms(1,2) have "chan_len (s_handshakeAckChannel s) = 0" "chan_cap (s_handshakeAckChannel s) = 1"
    by (simp_all add: fresh_def server_inv_def chan_len_def)
  ultimately show ?thesis
    using assms(1) q
    by (auto simp: server_receive_eq [OF q(1)] Let_def isConnected_def fresh_def server_on_handshake_def
        chan_send_def chan_len_def server_take_ack_def chan_recv_def waiting_def connected_def ack_ready_def)
qed

text \<open>The server's side of it, up to its SYN-ACK; then the client's answer and the end.\<close>

lemma run_synack:
  assumes hosts: "hosts cl sv" and f: "forwards f"
    and ok: "sys_ok cl sv handles req w0 x" and pc: "spc x = S_Syn" and s: "fresh (server x)"
    and syn: "(cl, raw_bytes (packet_of (Some sv) (SYN, 0, []))) \<in> wire x"
  shows "\<exists>y. runs f cl sv handles req x y \<and> same_client x y \<and> grows x y \<and> spc y = S_Select
     \<and> handled y = handled x \<and> world y = world x \<and> fresh (server y) \<and> server_inv (server y)
     \<and> (sv, raw_bytes (packet_of (Some cl) (SYNACK, 0, []))) \<in> wire y"
proof -
  let ?runs = "runs f cl sv handles req" and ?sa = "raw_bytes (packet_of (Some cl) (SYNACK, 0, []))"
  from ok pc have s0: "server_inv (server x)" "s_clientAddr (server x) = None" "s_seqNum (server x) = 0"
    by (simp_all add: sys_ok_def server_ok_def server_tx_ok_def server_phase_def handling_def)
  have "small (SYN, 0, [])" by simp
  moreover have "\<forall>b q. carried cl (SYN, 0, []) b q \<longrightarrow>
      (\<exists>s' out. server_receive b (server x) = Inr (s', out) \<and> syn_ready cl s')"
    using server_takes_syn [OF s s0] by blast
  note to_server [OF hosts f calculation syn this, of handles req]
  then
  obtain x1 where x1: "?runs x x1" "same_client x x1" "grows x x1" "spc x1 = S_Syn"
    "handled x1 = handled x" "world x1 = world x" "syn_ready cl (server x1)" using pc by auto
  then obtain s2 where s2: "server_take_syn (server x1) = Some s2" "fresh s2" "s_clientAddr s2 = Some cl"
    "s_seqNum s2 = 0" "server_inv s2" by (auto simp: syn_ready_def)
  from server_runs [of handles x1 "[]" s2 S_Synack "handled x1" "world x1" f cl sv req]
  obtain x2 where x2: "?runs x1 x2" "same_client x1 x2" "grows x1 x2" "server x2 = s2" "spc x2 = S_Synack"
    "handled x2 = handled x1" "world x2 = world x1"
    using server_main.syn [OF s2(1), of handles "handled x1" "world x1"] x1(4) by auto
  have "server_send_synack s2 = Inr (s2, [(?sa, s_routerAddr s2)])"
    using s2(3,4) by (simp add: server_send_synack_def)
  from server_runs [of handles x2 "[?sa]" s2 S_Select "handled x2" "world x2" f cl sv req]
    server_main.synack [OF this, of handles "handled x2" "world x2"]
  obtain x3 where x3: "?runs x2 x3" "same_client x2 x3" "grows x2 x3" "server x3 = s2" "spc x3 = S_Select"
    "handled x3 = handled x2" "world x3 = world x2" "(sv, ?sa) \<in> wire x3"
    using x2(4,5) by auto
  from x1 x2 x3 runs_trans [OF x1(1) runs_trans [OF x2(1) x3(1)]]
    grows_trans [OF x1(3) grows_trans [OF x2(3) x3(3)]] s2(2,5)
  show ?thesis by (intro exI [of _ x3]) (simp add: same_client_def)
qed

lemma run_handshake:
  assumes hosts: "hosts cl sv" and f: "forwards f"
    and ok: "sys_ok cl sv handles req w0 x" and pc: "spc x = S_Syn" and s: "fresh (server x)"
    and syn: "(cl, raw_bytes (packet_of (Some sv) (SYN, 0, []))) \<in> wire x"
  shows "\<exists>y. runs f cl sv handles req x y \<and> grows x y \<and> spc y = S_Await \<and> handled y = handled x
     \<and> world y = world x \<and> cpc y = cpc x \<and> waiting (server y) \<and> synced (client x) (client y)"
proof -
  let ?runs = "runs f cl sv handles req"
  from ok have c0: "client_inv (client x)" "c_serverAddr (client x) = Some sv"
    by (simp_all add: sys_ok_def client_ok_def client_tx_ok_def)
  obtain x3 where x3: "?runs x x3" "same_client x x3" "grows x x3" "spc x3 = S_Select"
    "handled x3 = handled x" "world x3 = world x" "fresh (server x3)" "server_inv (server x3)"
    "(sv, raw_bytes (packet_of (Some cl) (SYNACK, 0, []))) \<in> wire x3"
    using run_synack [OF assms] by blast
  then have c3: "client x3 = client x" "cpc x3 = cpc x" by (simp_all add: same_client_def)
  have sm: "small (SYNACK, 0, [])" "small (ACK, 0, [])" by simp_all
  have "\<forall>b q. carried sv (SYNACK, 0, []) b q \<longrightarrow>
      (\<exists>c' out. client_receive b (client x3) = Inr (c', out) \<and> synced (client x) c'
         \<and> raw_bytes (packet_of (Some sv) (ACK, 0, [])) \<in> fst ` set out)"
    using client_takes_synack [OF c0] c3(1) by simp
  from to_client [OF hosts f sm(1) x3(9) this, of handles req]
  obtain x4 where x4: "?runs x3 x4" "same_server x3 x4" "grows x3 x4" "cpc x4 = cpc x"
    "synced (client x) (client x4)" "(cl, raw_bytes (packet_of (Some sv) (ACK, 0, []))) \<in> wire x4"
    using c3 by auto
  have s4: "fresh (server x4)" "server_inv (server x4)" "spc x4 = S_Select" "handled x4 = handled x"
    "world x4 = world x" using x4(2) x3 by (simp_all add: same_server_def)
  have "\<forall>b q. carried cl (ACK, 0, []) b q \<longrightarrow>
      (\<exists>s' out. server_receive b (server x4) = Inr (s', out) \<and> ack_ready s')"
    using server_takes_ack [OF s4(1,2)] by blast
  from to_server [OF hosts f sm(2) x4(6) this, of handles req]
  obtain x5 where x5: "?runs x4 x5" "same_client x4 x5" "grows x4 x5" "spc x5 = S_Select"
    "handled x5 = handled x" "world x5 = world x" "ack_ready (server x5)" using s4 by auto
  then obtain s6 where s6: "server_take_ack (server x5) = Some s6" "waiting s6" by (auto simp: ack_ready_def)
  from server_runs [of handles x5 "[]" s6 S_Await "handled x5" "world x5" f cl sv req]
  obtain x6 where x6: "?runs x5 x6" "same_client x5 x6" "grows x5 x6" "server x6 = s6" "spc x6 = S_Await"
    "handled x6 = handled x5" "world x6 = world x5"
    using server_main.ack [OF s6(1), of handles "handled x5" "world x5"] x5(4) by auto
  from x4 x5 x6 s6(2) runs_trans [OF x3(1) runs_trans [OF x4(1) runs_trans [OF x5(1) x6(1)]]]
    grows_trans [OF x3(3) grows_trans [OF x4(3) grows_trans [OF x5(3) x6(3)]]]
  show ?thesis by (intro exI [of _ x6]) (simp add: same_client_def)
qed

subsection \<open>Sending a message\<close>

definition frame_of :: "udp_addr \<Rightarrow> bytes \<Rightarrow> nat \<Rightarrow> bytes" where
  "frame_of to msg i = raw_bytes (packet_of (Some to) (units 1 msg ! i))"

definition ack_frame :: "udp_addr \<Rightarrow> nat \<Rightarrow> bytes" where
  "ack_frame to i = raw_bytes (packet_of (Some to) (ACK, Suc i, []))"

text \<open>What sending leaves alone: the receiving half of a peer.\<close>

definition same_half :: "HttpClient \<Rightarrow> HttpClient \<Rightarrow> bool" where
  "same_half c c' \<longleftrightarrow>
     c_receiverWindow c' = c_receiverWindow c \<and> c_checker c' = c_checker c
     \<and> c_deliveryMessage c' = c_deliveryMessage c"

lemma same_half_refl [simp]: "same_half c c"
  by (simp add: same_half_def)

lemma same_half_trans: "same_half c d \<Longrightarrow> same_half d e \<Longrightarrow> same_half c e"
  by (simp add: same_half_def)

lemma same_server_trans: "same_server x y \<Longrightarrow> same_server y z \<Longrightarrow> same_server x z"
  by (simp add: same_server_def)

lemma same_client_trans: "same_client x y \<Longrightarrow> same_client y z \<Longrightarrow> same_client x z"
  by (simp add: same_client_def)

lemma run_client_writes:
  assumes ok: "sys_ok cl sv handles req w0 x" and pc: "cpc x = C_Send (Sending st)"
  shows "\<exists>y n next. runs f cl sv handles req x y \<and> same_server x y \<and> grows x y \<and> client y = client x
     \<and> cpc y = C_Send (Storing (packet_of (Some sv) (units 1 req ! n)) next)
     \<and> unat (c_seqNum (client x)) = Suc n \<and> c_seqNum (client x) = word_of_nat (Suc n)
     \<and> length (c_senderWindow (client x)) = WindowSize
     \<and> n < length (units 1 req) \<and> (cl, frame_of sv req n) \<in> wire y
     \<and> (if Suc n = length (units 1 req) then next = Sent else \<exists>st'. next = Sending st')"
proof -
  let ?c = "client x"
  from ok pc have tx: "client_tx_ok sv req (C_Send (Sending st)) ?c" and sv: "c_serverAddr ?c = Some sv"
    by (simp_all add: sys_ok_def client_ok_def client_tx_ok_def)
  have "client_phase (C_Send (Sending st)) = Some (Sending st)" by (simp add: client_phase_def)
  then obtain n where n: "send_at sv req (Sending st) n" "tx_ok sv req (c_senderWindow ?c) n"
    "c_seqNum ?c = word_of_nat (Suc n)" "unat (c_seqNum ?c) = Suc n"
    "client_written (C_Send (Sending st)) ?c = written (Sending st) n"
    by (rule client_tx_phase [OF tx])
  obtain p "next" where nx: "next_packet (c_seqNum ?c) (c_serverAddr ?c) req st = (p, next)" by fastforce
  have at: "send_at sv req (Storing p next) n"
    using send_at_next [OF n(1)] nx sv n(3) by simp
  then have p: "n < length (units 1 req)" "p = packet_of (Some sv) (units 1 req ! n)" by simp_all
  have w: "client_write p ?c = Inr (frame_of sv req n, c_routerAddr ?c)"
    by (simp add: client_write_def p(2) frame_of_def)
  from client_runs [of req x "[frame_of sv req n]" ?c "C_Send (Storing p next)" f cl sv handles]
    client_main.tx [OF nx w]
  obtain y where y: "runs f cl sv handles req x y" "same_server x y" "grows x y" "client y = ?c"
    "cpc y = C_Send (Storing p next)" "(cl, frame_of sv req n) \<in> wire y"
    using pc by auto
  have "if Suc n = length (units 1 req) then next = Sent else \<exists>st'. next = Sending st'"
    using nx n(1) chunk_index [of n req] by (auto simp: next_packet_def split: if_splits)
  with y n(3,4) tx_ok_length [OF n(2)] p show ?thesis
    by (intro exI [of _ y] exI [of _ n] exI [of _ "next"]) simp
qed

lemma run_client_sends_one:
  assumes fits: "session_fits handles req" and ok: "sys_ok cl sv handles req w0 x"
    and pc: "cpc x = C_Send (Sending st)"
  shows "\<exists>y n next. runs f cl sv handles req x y \<and> same_server x y \<and> grows x y \<and> cpc y = C_Send next
     \<and> same_half (client x) (client y) \<and> unat (c_seqNum (client x)) = Suc n
     \<and> n < length (units 1 req) \<and> (cl, frame_of sv req n) \<in> wire y
     \<and> (if Suc n = length (units 1 req) then next = Sent else \<exists>st'. next = Sending st')
     \<and> unat (c_seqNum (client y)) = Suc (Suc n)"
proof -
  let ?c = "client x"
  obtain y1 n "next" where y1: "runs f cl sv handles req x y1" "same_server x y1" "grows x y1" "client y1 = ?c"
    "cpc y1 = C_Send (Storing (packet_of (Some sv) (units 1 req ! n)) next)"
    and n: "unat (c_seqNum ?c) = Suc n" "c_seqNum ?c = word_of_nat (Suc n)" "length (c_senderWindow ?c) = WindowSize"
    "n < length (units 1 req)" and w: "(cl, frame_of sv req n) \<in> wire y1"
    and nx: "if Suc n = length (units 1 req) then next = Sent else \<exists>st'. next = Sending st'"
    using run_client_writes [OF ok pc, of f] by (elim exE conjE)
  let ?p = "packet_of (Some sv) (units 1 req ! n)"
  have lt: "Suc n < WindowSize" using n(4) fits by (simp add: session_fits_def fits_chunks)
  then obtain c' where c': "client_store ?p ?c = Inr c'" "same_half ?c c'" "c_seqNum c' = word_of_nat (Suc (Suc n))"
    using n(1,3) n(2) by (auto simp: client_store_def go_store_def same_half_def)
  from client_runs [of req y1 "[]" c' "C_Send next" f cl sv handles] client_main.store [OF c'(1) [folded y1(4)]]
  obtain y2 where y2: "runs f cl sv handles req y1 y2" "same_server y1 y2" "grows y1 y2" "client y2 = c'"
    "cpc y2 = C_Send next"
    using y1(5) by auto
  have seq: "unat (c_seqNum c') = Suc (Suc n)" unfolding c'(3) by (rule seq_unat [OF lt])
  with y1 y2 n(1,4) w nx c'(2) runs_trans [OF y1(1) y2(1)] show ?thesis
    by (intro exI [of _ y2] exI [of _ n] exI [of _ "next"]) (auto simp: same_server_def grows_def)
qed

lemma run_client_sends:
  assumes hosts: "hosts cl sv" and fits: "session_fits handles req"
    and ok: "sys_ok cl sv handles req w0 x" and pc: "cpc x = C_Send (Sending st)"
    and n: "unat (c_seqNum (client x)) = Suc n"
  shows "\<exists>y. runs f cl sv handles req x y \<and> same_server x y \<and> grows x y \<and> cpc y = C_Send Sent
     \<and> same_half (client x) (client y)
     \<and> (\<forall>i. n \<le> i \<and> i < length (units 1 req) \<longrightarrow> (cl, frame_of sv req i) \<in> wire y)"
  using ok pc n
proof (induction "length (units 1 req) - n" arbitrary: x st n rule: less_induct)
  case less
  obtain y "next" where y: "runs f cl sv handles req x y" "same_server x y" "grows x y" "cpc y = C_Send next"
    "same_half (client x) (client y)" "n < length (units 1 req)" "(cl, frame_of sv req n) \<in> wire y"
    "if Suc n = length (units 1 req) then next = Sent else \<exists>st'. next = Sending st'"
    "unat (c_seqNum (client y)) = Suc (Suc n)"
    using run_client_sends_one [OF fits less.prems(1,2), of f] less.prems(3) by (elim exE conjE) simp
  show ?case
  proof (cases "Suc n = length (units 1 req)")
    case True
    have "(cl, frame_of sv req i) \<in> wire y" if "n \<le> i \<and> i < length (units 1 req)" for i
      using that True y(7) by (cases "i = n") simp_all
    with True y(1-5,8) show ?thesis by (intro exI [of _ y]) simp
  next
    case False
    with y(8) obtain st' where st': "cpc y = C_Send (Sending st')" using y(4) by auto
    have dec: "length (units 1 req) - Suc n < length (units 1 req) - n" using y(6) by simp
    obtain z where z: "runs f cl sv handles req y z" "same_server y z" "grows y z" "cpc z = C_Send Sent"
      "same_half (client y) (client z)"
      "\<forall>i. Suc n \<le> i \<and> i < length (units 1 req) \<longrightarrow> (cl, frame_of sv req i) \<in> wire z"
      using less.hyps [OF dec runs_ok [OF hosts fits less.prems(1) y(1)] st' y(9)] by blast
    have "(cl, frame_of sv req i) \<in> wire z" if "n \<le> i \<and> i < length (units 1 req)" for i
      using that z(6,3) y(7) by (cases "i = n") (auto simp: grows_def)
    with z(4) runs_trans [OF y(1) z(1)] same_server_trans [OF y(2) z(2)] grows_trans [OF y(3) z(3)]
      same_half_trans [OF y(5) z(5)]
    show ?thesis by blast
  qed
qed

text \<open>The handshake as the client sees it, and the whole of its sending.\<close>

lemma run_client_synack:
  assumes ok: "sys_ok cl sv handles req w0 x" and pc: "cpc x = C_Select"
    and syn: "chan_len (c_handshakeSYNACKChannel (client x)) \<noteq> 0"
  shows "\<exists>y. runs f cl sv handles req x y \<and> same_server x y \<and> grows x y \<and> cpc y = C_Send (Sending 0)
     \<and> same_half (client x) (client y) \<and> unat (c_seqNum (client y)) = Suc 0"
proof -
  from syn obtain c' where c': "client_take_synack (client x) = Some c'" "same_half (client x) c'"
    "c_seqNum c' = c_seqNum (client x) + 1"
    by (cases "chan_buf (c_handshakeSYNACKChannel (client x))")
      (auto simp: client_take_synack_def chan_recv_def chan_len_def same_half_def)
  have "c_seqNum (client x) = 0"
    using ok pc by (simp add: sys_ok_def client_ok_def client_tx_ok_def client_phase_def)
  with c'(3) have seq: "unat (c_seqNum c') = Suc 0" by simp
  from client_runs [of req x "[]" c' "C_Send (Sending 0)" f cl sv handles] client_main.synack [OF c'(1)]
  obtain y where "runs f cl sv handles req x y" "same_server x y" "grows x y" "client y = c'"
    "cpc y = C_Send (Sending 0)"
    using pc by auto
  with c'(2) seq show ?thesis by (intro exI [of _ y]) simp
qed

lemma run_client_request:
  assumes hosts: "hosts cl sv" and fits: "session_fits handles req"
    and ok: "sys_ok cl sv handles req w0 x" and pc: "cpc x = C_Select"
    and syn: "chan_len (c_handshakeSYNACKChannel (client x)) \<noteq> 0"
  shows "\<exists>y. runs f cl sv handles req x y \<and> same_server x y \<and> grows x y \<and> cpc y = C_Send Sent
     \<and> same_half (client x) (client y)
     \<and> (\<forall>i < length (units 1 req). (cl, frame_of sv req i) \<in> wire y)"
proof -
  obtain y where y: "runs f cl sv handles req x y" "same_server x y" "grows x y" "cpc y = C_Send (Sending 0)"
    "same_half (client x) (client y)" "unat (c_seqNum (client y)) = Suc 0"
    using run_client_synack [OF ok pc syn, of f] by (elim exE conjE)
  obtain z where z: "runs f cl sv handles req y z" "same_server y z" "grows y z" "cpc z = C_Send Sent"
    "same_half (client y) (client z)"
    "\<forall>i. 0 \<le> i \<and> i < length (units 1 req) \<longrightarrow> (cl, frame_of sv req i) \<in> wire z"
    using run_client_sends [OF hosts fits runs_ok [OF hosts fits ok y(1)] y(4,6), of f]
    by (elim exE conjE) simp
  with runs_trans [OF y(1) z(1)] same_server_trans [OF y(2) z(2)] grows_trans [OF y(3) z(3)]
    same_half_trans [OF y(5) z(5)]
  show ?thesis by (intro exI [of _ z]) simp
qed

subsection \<open>The request arrives\<close>

definition keeps_server :: "HttpServer \<Rightarrow> HttpServer \<Rightarrow> bool" where
  "keeps_server s s' \<longleftrightarrow>
     s_checker s' = s_checker s \<and> s_deliveryMessage s' = s_deliveryMessage s
     \<and> (\<forall>i. s_receiverWindow s ! i \<noteq> None \<longrightarrow> s_receiverWindow s' ! i \<noteq> None)"

lemma server_takes_unit:
  assumes inv: "server_inv s" and fits: "fits req" and n: "n < length (units 1 req)"
    and q: "carried cl (units 1 req ! n) b q"
  shows "\<exists>s' out. server_receive b s = Inr (s', out) \<and> keeps_server s s'
     \<and> s_receiverWindow s' ! Suc n \<noteq> None \<and> ack_frame cl n \<in> fst ` set out"
proof -
  from q have p: "ParsePacket b = (Some q, None)" "FromAddr q = Some cl" "content q = units 1 req ! n"
    by (simp_all add: carried_def)
  have u: "content q \<in> set (units 1 req)" using n p(3) by simp
  have "fst (snd (units 1 req ! n)) = 1 + n" using units_nth_any [OF n] by simp
  then have seq: "unat (SeqNum q) = Suc n" using p(3) [symmetric] by (simp add: content_def)
  have ty: "Type q = DATA \<or> Type q = DELIVER" using unit_slot [OF u] by (auto split: if_splits)
  have lt: "Suc n < WindowSize" using n fits by (simp add: fits_chunks)
  have hs: "(if \<not> isConnected s then server_on_handshake q s else s) = s"
    using ty by (auto simp: server_on_handshake_def Let_def)
  obtain ws where ws: "window_save q (s_receiverWindow s) = Inr ws"
    using lt seq inv by (simp add: window_save_eq server_inv_def)
  have "server_receive b s = Inr (s\<lparr>s_receiverWindow := ws\<rparr>, [(ack_frame cl n, s_routerAddr s)])"
    using ty p(2) ws seq by (auto simp: server_receive_eq [OF p(1)] hs server_on_data_def ack_frame_def)
  moreover have "keeps_server s (s\<lparr>s_receiverWindow := ws\<rparr>)"
    using window_save_filled [OF ws] by (simp add: keeps_server_def)
  moreover have "ws ! Suc n \<noteq> None" using window_save_slot [OF ws] seq by simp
  ultimately show ?thesis by (intro exI [of _ "s\<lparr>s_receiverWindow := ws\<rparr>"]) auto
qed

lemma keeps_server_trans: "keeps_server s t \<Longrightarrow> keeps_server t u \<Longrightarrow> keeps_server s u"
  by (simp add: keeps_server_def)

lemma run_units_to_server:
  assumes hosts: "hosts cl sv" and fits: "session_fits handles req" and f: "forwards f"
    and ok: "sys_ok cl sv handles req w0 x" and n: "n \<le> length (units 1 req)"
    and w: "\<forall>i < length (units 1 req). (cl, frame_of sv req i) \<in> wire x"
  shows "\<exists>y. runs f cl sv handles req x y \<and> same_client x y \<and> grows x y \<and> spc y = spc x
     \<and> handled y = handled x \<and> world y = world x \<and> keeps_server (server x) (server y)
     \<and> (\<forall>i < n. s_receiverWindow (server y) ! Suc i \<noteq> None)"
  using n
proof (induction n)
  case 0
  show ?case by (intro exI [of _ x]) (simp add: same_client_def keeps_server_def)
next
  case (Suc n)
  then obtain y where y: "runs f cl sv handles req x y" "same_client x y" "grows x y" "spc y = spc x"
    "handled y = handled x" "world y = world x" "keeps_server (server x) (server y)"
    "\<forall>i < n. s_receiverWindow (server y) ! Suc i \<noteq> None" by auto
  from fits have req: "fits req" by (simp add: session_fits_def)
  have inv: "server_inv (server y)"
    using runs_ok [OF hosts fits ok y(1)] by (simp add: sys_ok_def server_ok_def)
  have n: "n < length (units 1 req)" using Suc.prems by simp
  have wy: "(cl, raw_bytes (packet_of (Some sv) (units 1 req ! n))) \<in> wire y"
    using w n y(3) by (auto simp: frame_of_def grows_def)
  have "\<forall>b q. carried cl (units 1 req ! n) b q \<longrightarrow> (\<exists>s' out. server_receive b (server y) = Inr (s', out)
      \<and> keeps_server (server y) s' \<and> s_receiverWindow s' ! Suc n \<noteq> None)"
    using server_takes_unit [OF inv req n] by blast
  from to_server [OF hosts f unit_small [OF req nth_mem [OF n]] wy this, of handles req]
  obtain z where z: "runs f cl sv handles req y z" "same_client y z" "grows y z" "spc z = spc y"
    "handled z = handled y" "world z = world y" "keeps_server (server y) (server z)"
    "s_receiverWindow (server z) ! Suc n \<noteq> None" by auto
  have "s_receiverWindow (server z) ! Suc i \<noteq> None" if "i < Suc n" for i
    using that y(8) z(7,8) by (cases "i = n") (auto simp: keeps_server_def)
  with y z runs_trans [OF y(1) z(1)] grows_trans [OF y(3) z(3)] same_client_trans [OF y(2) z(2)]
    keeps_server_trans [OF y(7) z(7)]
  show ?case by (intro exI [of _ z]) simp
qed

lemma run_request:
  assumes hosts: "hosts cl sv" and fits: "session_fits handles req" and f: "forwards f"
    and ok: "sys_ok cl sv handles req w0 x" and pc: "spc x = S_Await" and s: "waiting (server x)"
    and w: "\<forall>i < length (units 1 req). (cl, frame_of sv req i) \<in> wire x"
  shows "\<exists>y. runs f cl sv handles req x y \<and> same_client x y \<and> grows x y \<and> spc y = S_Handle req
     \<and> handled y = handled x \<and> world y = world x"
proof -
  let ?runs = "runs f cl sv handles req" and ?k = "int (length (units 1 req))"
  from fits have req: "fits req" by (simp add: session_fits_def)
  obtain y where y: "?runs x y" "same_client x y" "grows x y" "spc y = S_Await"
    "handled y = handled x" "world y = world x" "keeps_server (server x) (server y)"
    "\<forall>i < length (units 1 req). s_receiverWindow (server y) ! Suc i \<noteq> None"
    using run_units_to_server [OF hosts fits f ok order_refl w] pc by auto
  let ?s = "server y" and ?ws = "s_receiverWindow (server y)"
  from runs_ok [OF hosts fits ok y(1)] have inv: "server_inv ?s" and rx: "rx_agrees [req] ?ws"
    by (simp_all add: sys_ok_def server_ok_def server_rx_ok_def)
  from s y(7) have wait: "s_checker ?s = Some (-1)" "chan_buf (s_deliveryMessage ?s) = []"
    by (simp_all add: waiting_def keeps_server_def)
  have "?ws ! i \<noteq> None" if "i \<in> {1..Suc (length (chunks req))}" for i
    using y(8) that by (cases i) auto
  then have full: "first_complete [req] ?ws" by (simp add: first_complete_def window_complete_def)
  note rounds = check_rounds_complete [OF rx _ full, simplified, OF req]
  have s1: "server_checkForDeliver ?s = Inr (?s\<lparr>s_checker := Some ?k\<rparr>)"
    using wait rounds(1) by (simp add: server_checkForDeliver_def)
  from server_polls [OF this, of f cl sv handles req]
  obtain y1 where y1: "?runs y y1" "same_client y y1" "grows y y1" "server y1 = ?s\<lparr>s_checker := Some ?k\<rparr>"
    "spc y1 = S_Await" "handled y1 = handled y" "world y1 = world y" using y(4) by auto
  obtain ch where ch: "chan_send True (s_deliveryMessage ?s) = Some ch" "chan_buf ch = [True]"
    using inv wait(2) by (auto simp: server_inv_def chan_send_def chan_len_def)
  let ?s2 = "?s\<lparr>s_checker := None, s_deliveryMessage := ch\<rparr>"
  have "server_checkForDeliver (server y1) = Inr ?s2"
    using rounds(2) ch y1(4) by (simp add: server_checkForDeliver_def)
  from server_polls [OF this, of f cl sv handles req]
  obtain y2 where y2: "?runs y1 y2" "same_client y1 y2" "grows y1 y2" "server y2 = ?s2"
    "spc y2 = S_Await" "handled y2 = handled y1" "world y2 = world y1" using y1(5) by auto
  have raw: "window_packets ?ws = Inr req" using first_reassembled [OF rx full] req by simp
  obtain s3 where s3: "server_await_request ?s2 = Some (Inr (s3, req))"
    using ch(2) raw by (simp add: server_await_request_def server_getPackets_def chan_recv_def Let_def)
  from server_runs [of handles y2 "[]" s3 "S_Handle req" "handled y2" "world y2" f cl sv req]
    server_main.await [OF s3, of handles "handled y2" "world y2"]
  obtain y3 where y3: "?runs y2 y3" "same_client y2 y3" "grows y2 y3" "spc y3 = S_Handle req"
    "handled y3 = handled y2" "world y3 = world y2"
    using y2(4,5) by auto
  from y y1 y2 y3 runs_trans [OF y(1) runs_trans [OF y1(1) runs_trans [OF y2(1) y3(1)]]]
    grows_trans [OF y(3) grows_trans [OF y1(3) grows_trans [OF y2(3) y3(3)]]]
    same_client_trans [OF y(2) same_client_trans [OF y1(2) same_client_trans [OF y2(2) y3(2)]]]
  show ?thesis by (intro exI [of _ y3]) simp
qed

end
