(* ===== verification/Session_Complete.thy ===== *)
theory Session_Complete
  imports Session_Runs
begin

section \<open>Runs: the response, the end of a session, and the next\<close>

text \<open>
  The second half of a session, from the handled request to the client's result and to the server's
  reset.
\<close>

subsection \<open>The server sends a response\<close>

lemma run_server_sends_one:
  assumes ok: "sys_ok cl sv handles req w0 x" and pc: "spc x = S_Send resp (Sending st)"
  shows "\<exists>y n next. runs f cl sv handles req x y \<and> same_client x y \<and> grows x y \<and> spc y = S_Send resp next
     \<and> handled y = handled x \<and> world y = world x \<and> unat (s_seqNum (server x)) = Suc n
     \<and> n < length (units 1 resp) \<and> (sv, frame_of cl resp n) \<in> wire y
     \<and> (if Suc n = length (units 1 resp) then next = Sent else \<exists>st'. next = Sending st')
     \<and> unat (s_seqNum (server y)) = Suc (Suc n)"
proof -
  let ?s = "server x"
  from ok pc have tx: "server_tx_ok cl (handled x) (S_Send resp (Sending st)) ?s"
    and to: "s_clientAddr ?s = Some cl" and hist: "\<forall>(q, r) \<in> set (handled x). q = req \<and> fits r"
    by (simp_all add: sys_ok_def server_ok_def server_tx_ok_def)
  have "server_phase (handled x) (S_Send resp (Sending st)) = Some (resp, Sending st)"
    by (simp add: server_phase_def)
  then obtain n where n: "handled x \<noteq> []" "resp = snd (last (handled x))" "send_at cl resp (Sending st) n"
    "tx_ok cl resp (s_senderWindow ?s) n" "s_seqNum ?s = word_of_nat (Suc n)" "unat (s_seqNum ?s) = Suc n"
    by (rule server_tx_phase [OF tx])
  obtain p "next" where nx: "next_packet (s_seqNum ?s) (s_clientAddr ?s) resp st = (p, next)" by fastforce
  have at: "send_at cl resp (Storing p next) n"
    using send_at_next [OF n(3)] nx to n(5) by simp
  then have p: "n < length (units 1 resp)" "p = packet_of (Some cl) (units 1 resp ! n)" by simp_all
  have w: "server_write p ?s = Inr (frame_of cl resp n, s_routerAddr ?s)"
    by (simp add: server_write_def p(2) frame_of_def)
  from server_runs [of handles x "[frame_of cl resp n]" ?s "S_Send resp (Storing p next)" "handled x" "world x"
      f cl sv req]
    server_main.tx [OF nx w, of handles "handled x" "world x"]
  obtain y1 where y1: "runs f cl sv handles req x y1" "same_client x y1" "grows x y1" "server y1 = ?s"
    "spc y1 = S_Send resp (Storing p next)" "handled y1 = handled x" "world y1 = world x"
    "(sv, frame_of cl resp n) \<in> wire y1"
    using pc by auto
  have "last (handled x) \<in> set (handled x)" using n(1) by simp
  with hist n(2) have "fits resp" by (auto simp: case_prod_unfold)
  with p(1) have lt: "Suc n < WindowSize" by (simp add: fits_chunks)
  then obtain s' where s': "server_store p ?s = Inr s'" "s_seqNum s' = word_of_nat (Suc (Suc n))"
    using n(5,6) tx_ok_length [OF n(4)] by (auto simp: server_store_def go_store_def)
  from server_runs [of handles y1 "[]" s' "S_Send resp next" "handled y1" "world y1" f cl sv req]
    server_main.store [OF s'(1) [folded y1(4)], of handles resp "next" "handled y1" "world y1"]
  obtain y2 where y2: "runs f cl sv handles req y1 y2" "same_client y1 y2" "grows y1 y2" "server y2 = s'"
    "spc y2 = S_Send resp next" "handled y2 = handled y1" "world y2 = world y1"
    using y1(5) by auto
  have seq: "unat (s_seqNum s') = Suc (Suc n)" unfolding s'(2) by (rule seq_unat [OF lt])
  have "if Suc n = length (units 1 resp) then next = Sent else \<exists>st'. next = Sending st'"
    using nx n(3) chunk_index [of n resp] by (auto simp: next_packet_def split: if_splits)
  with y1 y2 seq n(6) p(1) runs_trans [OF y1(1) y2(1)] show ?thesis
    by (intro exI [of _ y2] exI [of _ n] exI [of _ "next"]) (auto simp: same_client_def grows_def)
qed

lemma run_server_sends:
  assumes hosts: "hosts cl sv" and fits: "session_fits handles req"
    and ok: "sys_ok cl sv handles req w0 x" and pc: "spc x = S_Send resp (Sending st)"
    and n: "unat (s_seqNum (server x)) = Suc n"
  shows "\<exists>y. runs f cl sv handles req x y \<and> same_client x y \<and> grows x y \<and> spc y = S_Send resp Sent
     \<and> handled y = handled x \<and> world y = world x
     \<and> (\<forall>i. n \<le> i \<and> i < length (units 1 resp) \<longrightarrow> (sv, frame_of cl resp i) \<in> wire y)"
  using ok pc n
proof (induction "length (units 1 resp) - n" arbitrary: x st n rule: less_induct)
  case less
  obtain y "next" where y: "runs f cl sv handles req x y" "same_client x y" "grows x y"
    "spc y = S_Send resp next" "handled y = handled x" "world y = world x"
    "n < length (units 1 resp)" "(sv, frame_of cl resp n) \<in> wire y"
    "if Suc n = length (units 1 resp) then next = Sent else \<exists>st'. next = Sending st'"
    "unat (s_seqNum (server y)) = Suc (Suc n)"
    using run_server_sends_one [OF less.prems(1,2), of f] less.prems(3) by (elim exE conjE) simp
  show ?case
  proof (cases "Suc n = length (units 1 resp)")
    case True
    have "(sv, frame_of cl resp i) \<in> wire y" if "n \<le> i \<and> i < length (units 1 resp)" for i
      using that True y(8) by (cases "i = n") simp_all
    with True y(1-6,9) show ?thesis by (intro exI [of _ y]) simp
  next
    case False
    with y(9) obtain st' where st': "spc y = S_Send resp (Sending st')" using y(4) by auto
    have dec: "length (units 1 resp) - Suc n < length (units 1 resp) - n" using y(7) by simp
    obtain z where z: "runs f cl sv handles req y z" "same_client y z" "grows y z"
      "spc z = S_Send resp Sent" "handled z = handled y" "world z = world y"
      "\<forall>i. Suc n \<le> i \<and> i < length (units 1 resp) \<longrightarrow> (sv, frame_of cl resp i) \<in> wire z"
      using less.hyps [OF dec runs_ok [OF hosts fits less.prems(1) y(1)] st' y(10)] by (elim exE conjE)
    have "(sv, frame_of cl resp i) \<in> wire z" if "n \<le> i \<and> i < length (units 1 resp)" for i
      using that z(7,3) y(8) by (cases "i = n") (auto simp: grows_def)
    with z(4-6) y(5,6) runs_trans [OF y(1) z(1)] same_client_trans [OF y(2) z(2)] grows_trans [OF y(3) z(3)]
    show ?thesis by (intro exI [of _ z]) simp
  qed
qed

lemma run_response:
  assumes hosts: "hosts cl sv" and fits: "session_fits handles req"
    and ok: "sys_ok cl sv handles req w0 x" and pc: "spc x = S_Handle req"
    and h: "handles req (world x) resp w'"
  shows "\<exists>y. runs f cl sv handles req x y \<and> same_client x y \<and> grows x y \<and> spc y = S_Send resp Sent
     \<and> handled y = handled x @ [(req, resp)] \<and> world y = w'
     \<and> (\<forall>i < length (units 1 resp). (sv, frame_of cl resp i) \<in> wire y)"
proof -
  from server_runs [of handles x "[]" "server x" "S_Send resp (Sending 0)" "handled x @ [(req, resp)]" w' f cl sv req]
    server_main.handle [of handles req "world x" resp w' "server x" "handled x", OF h]
  obtain y where y: "runs f cl sv handles req x y" "same_client x y" "grows x y" "server y = server x"
    "spc y = S_Send resp (Sending 0)" "handled y = handled x @ [(req, resp)]" "world y = w'"
    using pc by auto
  have "s_seqNum (server x) = 1"
    using ok pc by (simp add: sys_ok_def server_ok_def server_tx_ok_def server_phase_def handling_def)
  then have seq: "unat (s_seqNum (server y)) = Suc 0" using y(4) by simp
  obtain z where z: "runs f cl sv handles req y z" "same_client y z" "grows y z"
    "spc z = S_Send resp Sent" "handled z = handled y" "world z = world y"
    "\<forall>i. 0 \<le> i \<and> i < length (units 1 resp) \<longrightarrow> (sv, frame_of cl resp i) \<in> wire z"
    using run_server_sends [OF hosts fits runs_ok [OF hosts fits ok y(1)] y(5) seq, of f]
    by (elim exE conjE)
  with y runs_trans [OF y(1) z(1)] same_client_trans [OF y(2) z(2)] grows_trans [OF y(3) z(3)]
  show ?thesis by (intro exI [of _ z]) simp
qed

subsection \<open>The response arrives\<close>

definition keeps_client :: "HttpClient \<Rightarrow> HttpClient \<Rightarrow> bool" where
  "keeps_client c c' \<longleftrightarrow>
     c_checker c' = c_checker c \<and> c_deliveryMessage c' = c_deliveryMessage c
     \<and> (\<forall>i. c_receiverWindow c ! i \<noteq> None \<longrightarrow> c_receiverWindow c' ! i \<noteq> None)"

lemma keeps_client_trans: "keeps_client s t \<Longrightarrow> keeps_client t u \<Longrightarrow> keeps_client s u"
  by (simp add: keeps_client_def)

lemma client_takes_unit:
  assumes inv: "client_inv c" and fits: "fits resp" and n: "n < length (units 1 resp)"
    and q: "carried sv (units 1 resp ! n) b q"
  shows "\<exists>c' out. client_receive b c = Inr (c', out) \<and> keeps_client c c'
     \<and> c_receiverWindow c' ! Suc n \<noteq> None \<and> ack_frame sv n \<in> fst ` set out"
proof -
  from q have p: "ParsePacket b = (Some q, None)" "FromAddr q = Some sv" "content q = units 1 resp ! n"
    by (simp_all add: carried_def)
  have u: "content q \<in> set (units 1 resp)" using n p(3) by simp
  have "fst (snd (units 1 resp ! n)) = 1 + n" using units_nth_any [OF n] by simp
  then have seq: "unat (SeqNum q) = Suc n" using p(3) [symmetric] by (simp add: content_def)
  have ty: "Type q = DATA \<or> Type q = DELIVER" using unit_slot [OF u] by (auto split: if_splits)
  have lt: "Suc n < WindowSize" using n fits by (simp add: fits_chunks)
  obtain ws where ws: "window_save q (c_receiverWindow c) = Inr ws"
    using lt seq inv by (simp add: window_save_eq client_inv_def)
  have "client_receive b c = Inr (c\<lparr>c_receiverWindow := ws\<rparr>, [(ack_frame sv n, c_routerAddr c)])"
    using ty p(2) ws seq by (auto simp: client_receive_eq [OF p(1)] client_on_data_def ack_frame_def)
  moreover have "keeps_client c (c\<lparr>c_receiverWindow := ws\<rparr>)"
    using window_save_filled [OF ws] by (simp add: keeps_client_def)
  moreover have "ws ! Suc n \<noteq> None" using window_save_slot [OF ws] seq by simp
  ultimately show ?thesis by (intro exI [of _ "c\<lparr>c_receiverWindow := ws\<rparr>"]) auto
qed

lemma run_units_to_client:
  assumes hosts: "hosts cl sv" and fits: "session_fits handles req" and f: "forwards f"
    and ok: "sys_ok cl sv handles req w0 x" and resp: "fits resp" and n: "n \<le> length (units 1 resp)"
    and w: "\<forall>i < length (units 1 resp). (sv, frame_of cl resp i) \<in> wire x"
  shows "\<exists>y. runs f cl sv handles req x y \<and> same_server x y \<and> grows x y \<and> cpc y = cpc x
     \<and> keeps_client (client x) (client y)
     \<and> (\<forall>i < n. c_receiverWindow (client y) ! Suc i \<noteq> None \<and> (cl, ack_frame sv i) \<in> wire y)"
  using n
proof (induction n)
  case 0
  show ?case by (intro exI [of _ x]) (simp add: same_server_def keeps_client_def)
next
  case (Suc n)
  then obtain y where y: "runs f cl sv handles req x y" "same_server x y" "grows x y" "cpc y = cpc x"
    "keeps_client (client x) (client y)"
    "\<forall>i < n. c_receiverWindow (client y) ! Suc i \<noteq> None \<and> (cl, ack_frame sv i) \<in> wire y" by auto
  have inv: "client_inv (client y)"
    using runs_ok [OF hosts fits ok y(1)] by (simp add: sys_ok_def client_ok_def)
  have n: "n < length (units 1 resp)" using Suc.prems by simp
  have wy: "(sv, raw_bytes (packet_of (Some cl) (units 1 resp ! n))) \<in> wire y"
    using w n y(3) by (auto simp: frame_of_def grows_def)
  have "\<forall>b q. carried sv (units 1 resp ! n) b q \<longrightarrow> (\<exists>c' out. client_receive b (client y) = Inr (c', out)
      \<and> keeps_client (client y) c' \<and> c_receiverWindow c' ! Suc n \<noteq> None \<and> ack_frame sv n \<in> fst ` set out)"
    using client_takes_unit [OF inv resp n] by blast
  from to_client [OF hosts f unit_small [OF resp nth_mem [OF n]] wy this, of handles req]
  obtain z where z: "runs f cl sv handles req y z" "same_server y z" "grows y z" "cpc z = cpc y"
    "keeps_client (client y) (client z)" "c_receiverWindow (client z) ! Suc n \<noteq> None"
    "(cl, ack_frame sv n) \<in> wire z" by auto
  have "c_receiverWindow (client z) ! Suc i \<noteq> None \<and> (cl, ack_frame sv i) \<in> wire z" if "i < Suc n" for i
    using that y(6) z(3,5-7) by (cases "i = n") (auto simp: keeps_client_def grows_def)
  with y z runs_trans [OF y(1) z(1)] grows_trans [OF y(3) z(3)] same_server_trans [OF y(2) z(2)]
    keeps_client_trans [OF y(5) z(5)]
  show ?case by (intro exI [of _ z]) simp
qed

definition idle :: "HttpClient \<Rightarrow> bool" where
  "idle c \<longleftrightarrow> c_checker c = Some (-1) \<and> chan_buf (c_deliveryMessage c) = []"

lemma run_result:
  assumes hosts: "hosts cl sv" and fits: "session_fits handles req"
    and ok: "sys_ok cl sv handles req w0 x" and pc: "cpc x = C_Send Sent" and c: "idle (client x)"
    and full: "first_complete (responses x) (c_receiverWindow (client x))"
  shows "\<exists>y. runs f cl sv handles req x y \<and> same_server x y \<and> grows x y \<and> cpc y = C_Done (hd (responses x))"
proof -
  let ?runs = "runs f cl sv handles req" and ?k = "int (length (units 1 (hd (responses x))))"
  let ?c = "client x" and ?ws = "c_receiverWindow (client x)"
  from ok have inv: "client_inv ?c" and rx: "rx_agrees (responses x) ?ws"
    by (simp_all add: sys_ok_def client_ok_def client_rx_ok_def)
  from ok have "server_ok cl req (c_receiverWindow ?c) (handled x) (spc x) (server x)"
    by (simp add: sys_ok_def)
  from sys_ok_resps [OF this] have r: "\<forall>m \<in> set (responses x). fits m"
    by (simp add: resps_ok_def responses_def)
  note rounds = check_rounds_complete [OF rx r full]
  from full r have hd: "fits (hd (responses x))" by (simp add: first_complete_def)
  have "client_checkForDeliver ?c = Inr (?c\<lparr>c_checker := Some ?k\<rparr>)"
    using c rounds(1) by (simp add: client_checkForDeliver_def idle_def)
  from client_polls [OF this, of f cl sv handles req]
  obtain y1 where y1: "?runs x y1" "same_server x y1" "grows x y1" "client y1 = ?c\<lparr>c_checker := Some ?k\<rparr>"
    "cpc y1 = C_Send Sent" using pc by auto
  obtain ch where ch: "chan_send True (c_deliveryMessage ?c) = Some ch" "chan_buf ch = [True]"
    using inv c by (auto simp: client_inv_def chan_send_def chan_len_def idle_def)
  let ?c2 = "?c\<lparr>c_checker := None, c_deliveryMessage := ch\<rparr>"
  have "client_checkForDeliver (client y1) = Inr ?c2"
    using rounds(2) ch y1(4) by (simp add: client_checkForDeliver_def)
  from client_polls [OF this, of f cl sv handles req]
  obtain y2 where y2: "?runs y1 y2" "same_server y1 y2" "grows y1 y2" "client y2 = ?c2"
    "cpc y2 = C_Send Sent" using y1(5) by auto
  have raw: "window_packets ?ws = Inr (hd (responses x))" by (rule first_reassembled [OF rx full hd])
  obtain c3 where c3: "client_await_response ?c2 = Some (Inr (c3, hd (responses x)))"
    using ch(2) raw by (simp add: client_await_response_def client_getPackets_def chan_recv_def Let_def)
  from client_runs [of req y2 "[]" c3 "C_Done (hd (responses x))" f cl sv handles]
    client_main.await [OF c3, of req]
  obtain y3 where y3: "?runs y2 y3" "same_server y2 y3" "grows y2 y3" "cpc y3 = C_Done (hd (responses x))"
    using y2(4,5) by auto
  from y3(4) runs_trans [OF y1(1) runs_trans [OF y2(1) y3(1)]]
    grows_trans [OF y1(3) grows_trans [OF y2(3) y3(3)]]
    same_server_trans [OF y1(2) same_server_trans [OF y2(2) y3(2)]]
  show ?thesis by (intro exI [of _ y3]) simp
qed

end
