(* ===== verification/Session_Ends.thy ===== *)
theory Session_Ends
  imports Session_Complete
begin

section \<open>Runs: acknowledgements, the end of a session, and whole sessions\<close>

text \<open>
  The acknowledgements reach the server, \<open>send\<close> returns there and \<open>reset\<close> runs.  Put together with
  the theories before: a session that is complete on both sides, one whose request is handled twice,
  and one in which an acknowledgement overtakes the client's store.
\<close>

subsection \<open>The acknowledgements arrive\<close>

definition keeps_acked :: "HttpServer \<Rightarrow> HttpServer \<Rightarrow> bool" where
  "keeps_acked s s' \<longleftrightarrow>
     s_seqNum s' = s_seqNum s \<and> length (s_senderWindow s') = length (s_senderWindow s)
     \<and> (\<forall>i. s_senderWindow s ! i \<noteq> None \<longrightarrow> s_senderWindow s' ! i \<noteq> None)
     \<and> (\<forall>i. slot_acked i (s_senderWindow s) \<longrightarrow> slot_acked i (s_senderWindow s'))"

lemma keeps_acked_trans: "keeps_acked s t \<Longrightarrow> keeps_acked t u \<Longrightarrow> keeps_acked s u"
  by (simp add: keeps_acked_def)

lemma server_takes_ack_of:
  assumes inv: "server_inv s" and n: "Suc n < WindowSize" and slot: "s_senderWindow s ! Suc n \<noteq> None"
    and q: "carried cl (ACK, Suc n, []) b q"
  shows "\<exists>s' out. server_receive b s = Inr (s', out) \<and> keeps_acked s s'
     \<and> slot_acked (Suc n) (s_senderWindow s')"
proof -
  note q = carried_fields [OF q]
  from q(4) have nz: "SeqNum q \<noteq> 0" by auto
  have hs: "(if \<not> isConnected s then server_on_handshake q s else s) = s"
    using q(3) nz by (auto simp: server_on_handshake_def Let_def)
  from slot obtain w where w: "s_senderWindow s ! Suc n = Some w" by auto
  from inv n have len: "Suc n < length (s_senderWindow s)" by (simp add: server_inv_def)
  have "Some w \<in> set (s_senderWindow s)" unfolding w [symmetric] by (rule nth_mem [OF len])
  with inv have "element_ok w" by (auto simp: server_inv_def send_window_ok_def)
  then have acked: "acked (ack_element q w)" by (rule ack_element_ok(2))
  let ?s' = "s\<lparr>s_senderWindow := (s_senderWindow s)[Suc n := Some (ack_element q w)]\<rparr>"
  have "server_receive b s = Inr (?s', [])"
    using q(3,4) nz w len by (simp add: server_receive_eq [OF q(1)] hs server_on_ack_def)
  moreover have "keeps_acked s ?s'"
    unfolding keeps_acked_def
  proof (intro conjI allI impI)
    fix i
    show "s_senderWindow ?s' ! i \<noteq> None" if "s_senderWindow s ! i \<noteq> None"
      using that len by (cases "i = Suc n") simp_all
    show "slot_acked i (s_senderWindow ?s')" if "slot_acked i (s_senderWindow s)"
      using slot_acked_update [OF that] acked by simp
  qed simp_all
  moreover have "slot_acked (Suc n) (s_senderWindow ?s')"
    using len acked by (simp add: slot_acked_def)
  ultimately show ?thesis by blast
qed

lemma run_acks_to_server:
  assumes hosts: "hosts cl sv" and fits: "session_fits handles req" and f: "forwards f"
    and ok: "sys_ok cl sv handles req w0 x" and m: "m < WindowSize"
    and slots: "\<forall>i < m. s_senderWindow (server x) ! Suc i \<noteq> None"
    and w: "\<forall>i < m. (cl, ack_frame sv i) \<in> wire x" and n: "n \<le> m"
  shows "\<exists>y. runs f cl sv handles req x y \<and> same_client x y \<and> grows x y \<and> spc y = spc x
     \<and> handled y = handled x \<and> world y = world x \<and> keeps_acked (server x) (server y)
     \<and> (\<forall>i < n. slot_acked (Suc i) (s_senderWindow (server y)))"
  using n
proof (induction n)
  case 0
  show ?case by (intro exI [of _ x]) (simp add: same_client_def keeps_acked_def)
next
  case (Suc n)
  then obtain y where y: "runs f cl sv handles req x y" "same_client x y" "grows x y" "spc y = spc x"
    "handled y = handled x" "world y = world x" "keeps_acked (server x) (server y)"
    "\<forall>i < n. slot_acked (Suc i) (s_senderWindow (server y))" by auto
  have inv: "server_inv (server y)"
    using runs_ok [OF hosts fits ok y(1)] by (simp add: sys_ok_def server_ok_def)
  have lt: "Suc n < WindowSize" and slot: "s_senderWindow (server y) ! Suc n \<noteq> None"
    and wy: "(cl, raw_bytes (packet_of (Some sv) (ACK, Suc n, []))) \<in> wire y"
    using Suc.prems m slots w y(3,7) by (auto simp: keeps_acked_def grows_def ack_frame_def)
  have "small (ACK, Suc n, [])" using lt by (simp add: small_def)
  from to_server [OF hosts f this wy, of "\<lambda>s' _. keeps_acked (server y) s' \<and> slot_acked (Suc n) (s_senderWindow s')"
      handles req] server_takes_ack_of [OF inv lt slot]
  obtain z where z: "runs f cl sv handles req y z" "same_client y z" "grows y z" "spc z = spc y"
    "handled z = handled y" "world z = world y" "keeps_acked (server y) (server z)"
    "slot_acked (Suc n) (s_senderWindow (server z))" by blast
  have "slot_acked (Suc i) (s_senderWindow (server z))" if "i < Suc n" for i
    using that y(8) z(7,8) by (cases "i = n") (auto simp: keeps_acked_def)
  with y z runs_trans [OF y(1) z(1)] grows_trans [OF y(3) z(3)] same_client_trans [OF y(2) z(2)]
    keeps_acked_trans [OF y(7) z(7)]
  show ?case by (intro exI [of _ z]) simp
qed

text \<open>With all of them there, the last loop of \<open>send\<close> ends, and \<open>disconnected\<close> and \<open>reset\<close> run.\<close>

lemma all_acked_unblocked:
  assumes tx: "tx_ok cl resp (s_senderWindow s) n" and seq: "unat (s_seqNum s) = Suc n"
    and acked: "\<forall>i < n. slot_acked (Suc i) (s_senderWindow s)"
  shows "server_send_blocked s = Inr False"
proof -
  have "\<not> slot_blocks (s_senderWindow s ! i)" if "i < Suc n" for i
  proof (cases i)
    case 0
    with tx_ok_slot [OF tx, of 0] show ?thesis by (simp add: slot_blocks_def)
  next
    case (Suc j)
    with that acked show ?thesis by (auto simp: slot_acked_def slot_blocks_def acked_def)
  qed
  moreover have "Suc n \<le> length (s_senderWindow s)" using tx by (simp add: tx_ok_def)
  ultimately show ?thesis
    unfolding server_send_blocked_def by (simp only: seq blocked_below_eq) blast
qed

lemma run_reset:
  assumes hosts: "hosts cl sv" and fits: "session_fits handles req" and f: "forwards f"
    and ok: "sys_ok cl sv handles req w0 x" and pc: "spc x = S_Send resp Sent"
    and w: "\<forall>i < length (units 1 resp). (cl, ack_frame sv i) \<in> wire x"
  shows "\<exists>y. runs f cl sv handles req x y \<and> same_client x y \<and> grows x y \<and> spc y = S_Syn
     \<and> handled y = handled x \<and> world y = world x \<and> fresh (server y)
     \<and> (\<exists>g. server y = initHttpServer g)"
proof -
  let ?runs = "runs f cl sv handles req"
  have phase: "server_phase h (S_Send resp Sent) = Some (resp, Sent)" for h by (simp add: server_phase_def)
  have tx: "\<exists>n. tx_ok cl resp (s_senderWindow (server y)) n \<and> n = length (units 1 resp)
      \<and> unat (s_seqNum (server y)) = Suc n"
    if "sys_ok cl sv handles req w0 y" "spc y = S_Send resp Sent" for y
  proof -
    from that have "server_tx_ok cl (handled y) (S_Send resp Sent) (server y)"
      by (simp add: sys_ok_def server_ok_def)
    then obtain n where n: "handled y \<noteq> []" "resp = snd (last (handled y))" "send_at cl resp Sent n"
      "tx_ok cl resp (s_senderWindow (server y)) n" "s_seqNum (server y) = word_of_nat (Suc n)"
      "unat (s_seqNum (server y)) = Suc n"
      by (rule server_tx_phase [OF _ phase])
    from n(3) have "n = length (units 1 resp)" by (simp only: send_at.simps)
    with n(4,6) show ?thesis by blast
  qed
  from tx [OF ok pc] obtain n where n: "tx_ok cl resp (s_senderWindow (server x)) n"
    "n = length (units 1 resp)" by blast
  have lt: "length (units 1 resp) < WindowSize" using n by (simp add: tx_ok_def)
  have slots: "\<forall>i < length (units 1 resp). s_senderWindow (server x) ! Suc i \<noteq> None"
  proof (intro allI impI)
    fix i assume "i < length (units 1 resp)"
    with lt tx_ok_slot [OF n(1), of "Suc i"] n(2) show "s_senderWindow (server x) ! Suc i \<noteq> None"
      by linarith
  qed
  obtain y where y: "?runs x y" "same_client x y" "grows x y" "spc y = S_Send resp Sent"
    "handled y = handled x" "world y = world x"
    "\<forall>i < length (units 1 resp). slot_acked (Suc i) (s_senderWindow (server y))"
    using run_acks_to_server [OF hosts fits f ok lt slots w order_refl] pc by auto
  from tx [OF runs_ok [OF hosts fits ok y(1)] y(4)] y(7)
  have free: "server_send_blocked (server y) = Inr False"
    by (metis all_acked_unblocked)
  from server_runs [of handles y "[]" "server y" S_Close "handled y" "world y" f cl sv req]
    server_main.unblock [OF free, of handles resp "handled y" "world y"]
  obtain y1 where y1: "?runs y y1" "same_client y y1" "grows y y1" "server y1 = server y" "spc y1 = S_Close"
    "handled y1 = handled y" "world y1 = world y" using y(4) by auto
  from server_runs [of handles y1 "[]" "disconnected (server y1)" S_Reset "handled y1" "world y1" f cl sv req]
    server_main.close [of handles "server y1" "handled y1" "world y1"]
  obtain y2 where y2: "?runs y1 y2" "same_client y1 y2" "grows y1 y2" "server y2 = disconnected (server y1)"
    "spc y2 = S_Reset" "handled y2 = handled y1" "world y2 = world y1" using y1(5) by auto
  from server_runs [of handles y2 "[]" "server_reset (server y2)" S_Syn "handled y2" "world y2" f cl sv req]
    server_main.reset [of handles "server y2" "handled y2" "world y2"]
  obtain y3 where y3: "?runs y2 y3" "same_client y2 y3" "grows y2 y3" "server y3 = server_reset (server y2)"
    "spc y3 = S_Syn" "handled y3 = handled y2" "world y3 = world y2" using y2(5) by auto
  have "fresh (server y3)"
    unfolding y3(4) y2(4) by (simp add: fresh_def server_reset_def disconnected_def)
  moreover have "server y3 = initHttpServer (s_routerAddr (server y1))"
    unfolding y3(4) y2(4) by (simp add: initHttpServer_def server_reset_def disconnected_def)
  ultimately have "fresh (server y3) \<and> (\<exists>g. server y3 = initHttpServer g)" by blast
  with y y1 y2 y3 runs_trans [OF y(1) runs_trans [OF y1(1) runs_trans [OF y2(1) y3(1)]]]
    grows_trans [OF y(3) grows_trans [OF y1(3) grows_trans [OF y2(3) y3(3)]]]
    same_client_trans [OF y(2) same_client_trans [OF y1(2) same_client_trans [OF y2(2) y3(2)]]]
  show ?thesis by (intro exI [of _ y3]) simp
qed

subsection \<open>Whole sessions\<close>

lemma run_syn:
  fixes w0 :: 'w
  shows "\<exists>x. runs f cl sv handles req (sys_init verbose gate sv w0) x \<and> cpc x = C_Select \<and> spc x = S_Syn
     \<and> fresh (server x) \<and> idle (client x) \<and> handled x = [] \<and> world x = w0
     \<and> (cl, raw_bytes (packet_of (Some sv) (SYN, 0, []))) \<in> wire x"
proof -
  let ?x = "sys_init verbose gate sv w0 :: 'w sys" and ?b = "raw_bytes (packet_of (Some sv) (SYN, 0, []))"
  have "client_send_syn (client ?x) = Inr (client ?x, [(?b, c_routerAddr (client ?x))])"
    by (simp add: sys_init_def initHttpClient_def client_send_syn_def)
  from client_main.syn [OF this, of req]
  have "client_main req (client ?x) (cpc ?x) (map fst [(?b, c_routerAddr (client ?x))]) (client ?x) C_Select"
    by (simp add: sys_init_def)
  from client_runs [OF this, of f cl sv handles]
  obtain y where y: "runs f cl sv handles req ?x y" "same_server ?x y" "client y = client ?x"
    "cpc y = C_Select" "(cl, ?b) \<in> wire y" by auto
  then show ?thesis
    by (intro exI [of _ y]) (simp add: same_server_def sys_init_def fresh_def initHttpServer_def idle_def
        initHttpClient_def)
qed

lemma idle_synced: "idle c \<Longrightarrow> synced c c' \<Longrightarrow> idle c'"
  by (auto simp: idle_def synced_def)

lemma idle_half: "idle c \<Longrightarrow> same_half c c' \<Longrightarrow> idle c'"
  by (simp add: idle_def same_half_def)

lemma idle_keeps: "idle c \<Longrightarrow> keeps_client c c' \<Longrightarrow> idle c'"
  by (simp add: idle_def keeps_client_def)

text \<open>From the first SYN to the point where both programs have sent everything.\<close>

lemma run_first:
  assumes hosts: "hosts cl sv" and fits: "session_fits handles req" and f: "forwards f"
    and h: "handles req w0 resp w1"
  shows "\<exists>x. runs f cl sv handles req (sys_init verbose gate sv w0) x \<and> cpc x = C_Send Sent
     \<and> spc x = S_Send resp Sent \<and> idle (client x) \<and> handled x = [(req, resp)] \<and> world x = w1
     \<and> (cl, raw_bytes (packet_of (Some sv) (SYN, 0, []))) \<in> wire x
     \<and> (\<forall>i < length (units 1 req). (cl, frame_of sv req i) \<in> wire x)
     \<and> (\<forall>i < length (units 1 resp). (sv, frame_of cl resp i) \<in> wire x)"
proof -
  let ?runs = "runs f cl sv handles req" and ?syn = "raw_bytes (packet_of (Some sv) (SYN, 0, []))"
  let ?x = "sys_init verbose gate sv w0"
  note ok = runs_ok [OF hosts fits sys_ok_init [of cl sv handles req w0 verbose gate]]
  obtain x1 where x1: "?runs ?x x1" "cpc x1 = C_Select" "spc x1 = S_Syn" "fresh (server x1)"
    "idle (client x1)" "handled x1 = []" "world x1 = w0" "(cl, ?syn) \<in> wire x1"
    using run_syn [of f cl sv handles req verbose gate w0] by (elim exE conjE)
  obtain x2 where x2: "?runs x1 x2" "grows x1 x2" "spc x2 = S_Await" "handled x2 = handled x1"
    "world x2 = world x1" "cpc x2 = cpc x1" "waiting (server x2)" "synced (client x1) (client x2)"
    using run_handshake [OF hosts f ok [OF x1(1)] x1(3,4,8)] by (elim exE conjE)
  note r2 = runs_trans [OF x1(1) x2(1)]
  have "chan_len (c_handshakeSYNACKChannel (client x2)) \<noteq> 0" "cpc x2 = C_Select"
    using x2(6,8) x1(2) by (auto simp: synced_def)
  from run_client_request [OF hosts fits ok [OF r2] this(2,1), of f]
  obtain x3 where x3: "?runs x2 x3" "same_server x2 x3" "grows x2 x3" "cpc x3 = C_Send Sent"
    "same_half (client x2) (client x3)" "\<forall>i < length (units 1 req). (cl, frame_of sv req i) \<in> wire x3"
    by (elim exE conjE)
  note r3 = runs_trans [OF r2 x3(1)]
  have s3: "spc x3 = S_Await" "waiting (server x3)" "handled x3 = []" "world x3 = w0"
    using x3(2) x2 x1 by (simp_all add: same_server_def)
  obtain x4 where x4: "?runs x3 x4" "same_client x3 x4" "grows x3 x4" "spc x4 = S_Handle req"
    "handled x4 = handled x3" "world x4 = world x3"
    using run_request [OF hosts fits f ok [OF r3] s3(1,2) x3(6)] by (elim exE conjE)
  note r4 = runs_trans [OF r3 x4(1)]
  have "handles req (world x4) resp w1" using h x4(6) s3(4) by simp
  from run_response [OF hosts fits ok [OF r4] x4(4) this, of f]
  obtain x5 where x5: "?runs x4 x5" "same_client x4 x5" "grows x4 x5" "spc x5 = S_Send resp Sent"
    "handled x5 = handled x4 @ [(req, resp)]" "world x5 = w1"
    "\<forall>i < length (units 1 resp). (sv, frame_of cl resp i) \<in> wire x5"
    by (elim exE conjE)
  have c: "cpc x5 = C_Send Sent" "client x5 = client x3"
    using x5(2) x4(2) x3(4) by (simp_all add: same_client_def)
  moreover have "idle (client x3)"
    by (rule idle_half [OF idle_synced [OF x1(5) x2(8)] x3(5)])
  moreover have "grows x3 x5" by (rule grows_trans [OF x4(3) x5(3)])
  moreover have "grows x1 x5" by (rule grows_trans [OF x2(2) grows_trans [OF x3(3) \<open>grows x3 x5\<close>]])
  moreover have "handled x5 = [(req, resp)]" using x5(5) x4(5) s3(3) by simp
  ultimately show ?thesis
    using runs_trans [OF r4 x5(1)] x5(4,6,7) x1(8) x3(6)
    by (intro exI [of _ x5]) (auto simp: grows_def)
qed

text \<open>The client gets the response.\<close>

lemma run_done:
  assumes hosts: "hosts cl sv" and fits: "session_fits handles req" and f: "forwards f"
    and h: "handles req w0 resp w1"
  shows "\<exists>x. runs f cl sv handles req (sys_init verbose gate sv w0) x \<and> cpc x = C_Done resp
     \<and> spc x = S_Send resp Sent \<and> handled x = [(req, resp)] \<and> world x = w1
     \<and> (cl, raw_bytes (packet_of (Some sv) (SYN, 0, []))) \<in> wire x
     \<and> (\<forall>i < length (units 1 req). (cl, frame_of sv req i) \<in> wire x)
     \<and> (\<forall>i < length (units 1 resp). (cl, ack_frame sv i) \<in> wire x)"
proof -
  let ?runs = "runs f cl sv handles req"
  let ?x = "sys_init verbose gate sv w0"
  note ok = runs_ok [OF hosts fits sys_ok_init [of cl sv handles req w0 verbose gate]]
  obtain x1 where x1: "?runs ?x x1" "cpc x1 = C_Send Sent" "spc x1 = S_Send resp Sent" "idle (client x1)"
    "handled x1 = [(req, resp)]" "world x1 = w1" "(cl, raw_bytes (packet_of (Some sv) (SYN, 0, []))) \<in> wire x1"
    "\<forall>i < length (units 1 req). (cl, frame_of sv req i) \<in> wire x1"
    "\<forall>i < length (units 1 resp). (sv, frame_of cl resp i) \<in> wire x1"
    using run_first [OF assms, of verbose gate] by (elim exE conjE)
  from fits h have resp: "fits resp" by (auto simp: session_fits_def)
  obtain x2 where x2: "?runs x1 x2" "same_server x1 x2" "grows x1 x2" "cpc x2 = cpc x1"
    "keeps_client (client x1) (client x2)"
    "\<forall>i < length (units 1 resp). c_receiverWindow (client x2) ! Suc i \<noteq> None \<and> (cl, ack_frame sv i) \<in> wire x2"
    using run_units_to_client [OF hosts fits f ok [OF x1(1)] resp order_refl x1(9)] by (elim exE conjE)
  note r2 = runs_trans [OF x1(1) x2(1)]
  have s2: "responses x2 = [resp]" using x2(2) x1(5) by (simp add: same_server_def responses_def)
  have "c_receiverWindow (client x2) ! i \<noteq> None" if "i \<in> {1..Suc (length (chunks resp))}" for i
    using x2(6) that by (cases i) auto
  then have full: "first_complete (responses x2) (c_receiverWindow (client x2))"
    by (simp add: s2 first_complete_def window_complete_def)
  have c2: "cpc x2 = C_Send Sent" using x2(4) x1(2) by simp
  obtain x3 where x3: "?runs x2 x3" "same_server x2 x3" "grows x2 x3" "cpc x3 = C_Done (hd (responses x2))"
    using run_result [OF hosts fits ok [OF r2] c2 idle_keeps [OF x1(4) x2(5)] full, of f] by (elim exE conjE)
  have "grows x1 x3" by (rule grows_trans [OF x2(3) x3(3)])
  with x3(4) s2 runs_trans [OF r2 x3(1)] same_server_trans [OF x2(2) x3(2)] x1(3,5-8) x2(6) x3(3) show ?thesis
    by (intro exI [of _ x3]) (auto simp: same_server_def grows_def)
qed

lemma run_complete:
  assumes hosts: "hosts cl sv" and fits: "session_fits handles req" and f: "forwards f"
    and h: "handles req w0 resp w1"
  shows "\<exists>x. runs f cl sv handles req (sys_init verbose gate sv w0) x \<and> cpc x = C_Done resp \<and> spc x = S_Syn
     \<and> (\<exists>g. server x = initHttpServer g) \<and> handled x = [(req, resp)] \<and> world x = w1"
proof -
  let ?x = "sys_init verbose gate sv w0"
  note ok = runs_ok [OF hosts fits sys_ok_init [of cl sv handles req w0 verbose gate]]
  obtain x1 where x1: "runs f cl sv handles req ?x x1" "cpc x1 = C_Done resp" "spc x1 = S_Send resp Sent"
    "handled x1 = [(req, resp)]" "world x1 = w1" "\<forall>i < length (units 1 resp). (cl, ack_frame sv i) \<in> wire x1"
    using run_done [OF assms, of verbose gate] by (elim exE conjE)
  obtain x2 where "runs f cl sv handles req x1 x2" "same_client x1 x2" "spc x2 = S_Syn"
    "handled x2 = handled x1" "world x2 = world x1" "\<exists>g. server x2 = initHttpServer g"
    using run_reset [OF hosts fits f ok [OF x1(1)] x1(3,6)] by blast
  with x1(2,4,5) runs_trans [OF x1(1)] show ?thesis by (intro exI [of _ x2]) (simp add: same_client_def)
qed

text \<open>
  After the reset the router gives the server the SYN of the session that is over, and the client's
  \<open>receive\<close> answers the SYN-ACK; the old packets then make the same request again.
\<close>

lemma run_twice:
  assumes hosts: "hosts cl sv" and fits: "session_fits handles req" and f: "forwards f"
    and h1: "handles req w0 r1 w1" and h2: "handles req w1 r2 w2"
  shows "\<exists>x. runs f cl sv handles req (sys_init verbose gate sv w0) x \<and> cpc x = C_Done r1
     \<and> handled x = [(req, r1), (req, r2)] \<and> world x = w2"
proof -
  let ?runs = "runs f cl sv handles req"
  let ?x = "sys_init verbose gate sv w0"
  note ok = runs_ok [OF hosts fits sys_ok_init [of cl sv handles req w0 verbose gate]]
  obtain x1 where x1: "?runs ?x x1" "cpc x1 = C_Done r1" "spc x1 = S_Send r1 Sent"
    "handled x1 = [(req, r1)]" "world x1 = w1" "(cl, raw_bytes (packet_of (Some sv) (SYN, 0, []))) \<in> wire x1"
    "\<forall>i < length (units 1 req). (cl, frame_of sv req i) \<in> wire x1"
    "\<forall>i < length (units 1 r1). (cl, ack_frame sv i) \<in> wire x1"
    using run_done [OF hosts fits f h1, of verbose gate] by (elim exE conjE)
  obtain x2 where x2: "?runs x1 x2" "same_client x1 x2" "grows x1 x2" "spc x2 = S_Syn"
    "handled x2 = handled x1" "world x2 = world x1" "fresh (server x2)"
    using run_reset [OF hosts fits f ok [OF x1(1)] x1(3,8)] by blast
  note r2 = runs_trans [OF x1(1) x2(1)]
  have syn: "(cl, raw_bytes (packet_of (Some sv) (SYN, 0, []))) \<in> wire x2"
    using x1(6) x2(3) by (auto simp: grows_def)
  obtain x3 where x3: "?runs x2 x3" "grows x2 x3" "spc x3 = S_Await" "handled x3 = handled x2"
    "world x3 = world x2" "cpc x3 = cpc x2" "waiting (server x3)" "synced (client x2) (client x3)"
    using run_handshake [OF hosts f ok [OF r2] x2(4,7) syn] by (elim exE conjE)
  note r3 = runs_trans [OF r2 x3(1)]
  have frames: "\<forall>i < length (units 1 req). (cl, frame_of sv req i) \<in> wire x3"
    using x1(7) grows_trans [OF x2(3) x3(2)] by (auto simp: grows_def)
  obtain x4 where x4: "?runs x3 x4" "same_client x3 x4" "grows x3 x4" "spc x4 = S_Handle req"
    "handled x4 = handled x3" "world x4 = world x3"
    using run_request [OF hosts fits f ok [OF r3] x3(3,7) frames] by (elim exE conjE)
  note r4 = runs_trans [OF r3 x4(1)]
  have "handles req (world x4) r2 w2" using h2 x4(6) x3(5) x2(6) x1(5) by simp
  from run_response [OF hosts fits ok [OF r4] x4(4) this, of f]
  obtain x5 where x5: "?runs x4 x5" "same_client x4 x5" "handled x5 = handled x4 @ [(req, r2)]" "world x5 = w2"
    by (elim exE conjE)
  have "cpc x5 = C_Done r1" using x5(2) x4(2) x3(6) x2(2) x1(2) by (simp add: same_client_def)
  moreover have "handled x5 = [(req, r1), (req, r2)]" using x5(3) x4(5) x3(4) x2(5) x1(4) by simp
  ultimately show ?thesis
    using runs_trans [OF r4 x5(1)] x5(4) by (intro exI [of _ x5]) simp
qed

subsection \<open>The race in sendPacket\<close>

text \<open>
  The first packet is written, reaches the server and is acknowledged, and the acknowledgement is
  back, all before the client stores the window element: \<open>receive\<close> then calls a method of the
  element that is not there.
\<close>

lemma run_race:
  assumes hosts: "hosts cl sv" and fits: "session_fits handles req" and f: "forwards f"
  shows "\<exists>x. runs f cl sv handles req (sys_init verbose gate sv w0) x \<and> client_panics cl req x"
proof -
  let ?runs = "runs f cl sv handles req"
  let ?x = "sys_init verbose gate sv w0"
  note ok = runs_ok [OF hosts fits sys_ok_init [of cl sv handles req w0 verbose gate]]
  from fits have req: "fits req" by (simp add: session_fits_def)
  obtain x1 where x1: "?runs ?x x1" "cpc x1 = C_Select" "spc x1 = S_Syn" "fresh (server x1)"
    "(cl, raw_bytes (packet_of (Some sv) (SYN, 0, []))) \<in> wire x1"
    using run_syn [of f cl sv handles req verbose gate w0] by (elim exE conjE)
  obtain x2 where x2: "?runs x1 x2" "cpc x2 = cpc x1" "synced (client x1) (client x2)"
    using run_handshake [OF hosts f ok [OF x1(1)] x1(3-5)] by (elim exE conjE)
  note r2 = runs_trans [OF x1(1) x2(1)]
  have "chan_len (c_handshakeSYNACKChannel (client x2)) \<noteq> 0" "cpc x2 = C_Select"
    using x2(2,3) x1(2) by (auto simp: synced_def)
  from run_client_synack [OF ok [OF r2] this(2,1), of f]
  obtain x3 where x3: "?runs x2 x3" "cpc x3 = C_Send (Sending 0)" "unat (c_seqNum (client x3)) = Suc 0"
    by (elim exE conjE)
  note r3 = runs_trans [OF r2 x3(1)]
  obtain x4 n "next" where x4: "?runs x3 x4" "client x4 = client x3"
    "cpc x4 = C_Send (Storing (packet_of (Some sv) (units 1 req ! n)) next)"
    "unat (c_seqNum (client x3)) = Suc n" "n < length (units 1 req)" "(cl, frame_of sv req n) \<in> wire x4"
    using run_client_writes [OF ok [OF r3] x3(2), of f] by (elim exE conjE)
  note r4 = runs_trans [OF r3 x4(1)]
  from ok [OF r3] x3(2) have tx: "client_tx_ok sv req (C_Send (Sending 0)) (client x3)"
    by (simp add: sys_ok_def client_ok_def)
  have "client_phase (C_Send (Sending 0)) = Some (Sending 0)" by (simp add: client_phase_def)
  then obtain k where k: "send_at sv req (Sending 0) k" "tx_ok sv req (c_senderWindow (client x3)) k"
    "c_seqNum (client x3) = word_of_nat (Suc k)" "unat (c_seqNum (client x3)) = Suc k"
    "client_written (C_Send (Sending 0)) (client x3) = written (Sending 0) k"
    by (rule client_tx_phase [OF tx])
  have n: "k = n" "Suc n < WindowSize" using k(4) x4(4,5) req by (simp_all add: fits_chunks)
  with tx_ok_slot [OF k(2) n(2)] have slot: "c_senderWindow (client x3) ! Suc n = None" by auto
  from ok [OF r4] have inv: "server_inv (server x4)" by (simp add: sys_ok_def server_ok_def)
  have wn: "(cl, raw_bytes (packet_of (Some sv) (units 1 req ! n))) \<in> wire x4"
    using x4(6) by (simp add: frame_of_def)
  from to_server [OF hosts f unit_small [OF req nth_mem [OF x4(5)]] wn, of "\<lambda>s' out. ack_frame cl n \<in> fst ` set out"
      handles req] server_takes_unit [OF inv req x4(5)]
  obtain x5 where x5: "?runs x4 x5" "same_client x4 x5" "(sv, ack_frame cl n) \<in> wire x5" by blast
  note r5 = runs_trans [OF r4 x5(1)]
  have "small (ACK, Suc n, [])" using n(2) by (simp add: small_def)
  from forward_written [OF hosts f this, of sv cl x5 handles req] x5(3)
  obtain x6 b q where x6: "?runs x5 x6" "same_client x5 x6" "b \<in> reads cl x6" "carried sv (ACK, Suc n, []) b q"
    by (auto simp: ack_frame_def)
  note q = carried_fields [OF x6(4)]
  have c: "client x6 = client x3" using x6(2) x5(2) x4(2) by (simp add: same_client_def)
  from q(4) have nz: "SeqNum q \<noteq> 0" by auto
  have "client_receive b (client x6) = Inl Nil_deref"
    using q(3,4) nz slot tx_ok_length [OF k(2)] n(2)
    by (simp add: c client_receive_eq [OF q(1)] client_on_ack_def deref_def)
  with x6(3) have "client_panics cl req x6" by (rule client_panics.rx)
  with runs_trans [OF r5 x6(1)] show ?thesis by blast
qed

subsection \<open>As reachable states\<close>

lemma reachable_runs:
  "runs f cl sv handles req (sys_init verbose gate sv w0) x \<Longrightarrow> session_reachable f gate cl sv handles req w0 x"
  by (auto simp: session_reachable_def runs_def)

text \<open>A handler for examples: it answers \<open>OK\<close> and leaves the world alone.\<close>

definition ok_handler :: "bool handler" where
  "ok_handler q w r w' \<longleftrightarrow> r = [79, 75] \<and> w' = w"

lemma ok_handler_fits: "fits req \<Longrightarrow> session_fits ok_handler req"
  by (auto simp: session_fits_def ok_handler_def fits_def)

lemma fits_GET: "fits [71, 69, 84]"
  by (simp add: fits_def)

lemma forwards_reliable: "forwards reliable"
  by (simp add: forwards_def reliable_def)

lemma example_session:
  "\<exists>x. session_reachable reliable gate ClientAddr ServerAddr ok_handler [71, 69, 84] True x \<and> cpc x = C_Done [79, 75]"
  using run_done [OF example_hosts ok_handler_fits [OF fits_GET] forwards_reliable, of True "[79, 75]" True]
    reachable_runs
  by (fastforce simp: ok_handler_def)

end
