(* ===== verification/Url.thy ===== *)
theory Url
  imports Go_Prelude
begin

section \<open>URLs (what the sources use of net/url)\<close>

text \<open>
  \<open>url.Parse\<close> and \<open>url.ParseRequestURI\<close>: the scheme, the authority and the percent-decoded
  path of a URL.  The programs read \<open>Host\<close> and \<open>Path\<close> only; the query is cut off, user
  information is checked and dropped.
\<close>

subsection \<open>Characters\<close>

definition is_letter :: "char \<Rightarrow> bool" where
  "is_letter c \<longleftrightarrow> (let n = of_char c :: nat in (65 \<le> n \<and> n \<le> 90) \<or> (97 \<le> n \<and> n \<le> 122))"

definition is_ctl :: "char \<Rightarrow> bool" where
  "is_ctl c \<longleftrightarrow> (let n = of_char c :: nat in n < 32 \<or> n = 127)"

definition ishex :: "char \<Rightarrow> bool" where
  "ishex c \<longleftrightarrow> (let n = of_char c :: nat in is_digit c \<or> (65 \<le> n \<and> n \<le> 70) \<or> (97 \<le> n \<and> n \<le> 102))"

definition unhex :: "char \<Rightarrow> nat" where
  "unhex c =
     (let n = of_char c :: nat in
      if is_digit c then n - 48 else if 97 \<le> n then n - 87 else n - 55)"

definition lower_char :: "char \<Rightarrow> char" where
  "lower_char c = (let n = of_char c :: nat in if 65 \<le> n \<and> n \<le> 90 then char_of (n + 32) else c)"

definition upper_char :: "char \<Rightarrow> char" where
  "upper_char c = (let n = of_char c :: nat in if 97 \<le> n \<and> n \<le> 122 then char_of (n - 32) else c)"

subsection \<open>Percent-decoding\<close>

text \<open>\<open>unescape\<close> in the modes \<open>encodePath\<close> (\<open>host = False\<close>) and \<open>encodeHost\<close>: a host may only
  contain certain characters, and only non-ASCII bytes and the percent sign escaped.\<close>

definition host_char :: "char \<Rightarrow> bool" where
  "host_char c \<longleftrightarrow>
     is_letter c \<or> is_digit c \<or> 128 \<le> (of_char c :: nat)
     \<or> c \<in> set ''!$&()*+,;=:[]<>-_.~'' \<or> c = CHR 0x27 \<or> c = CHR 0x22"

fun unescape :: "bool \<Rightarrow> string \<Rightarrow> string option" where
  "unescape host [] = Some []"
| "unescape host (c # s) =
     (if c = CHR ''%'' then
        (case s of
           a # b # s' \<Rightarrow>
             if ishex a \<and> ishex b \<and> \<not> (host \<and> unhex a < 8 \<and> \<not> (a = CHR ''2'' \<and> b = CHR ''5''))
             then map_option (Cons (char_of (16 * unhex a + unhex b))) (unescape host s')
             else None
         | _ \<Rightarrow> None)
      else if host \<and> \<not> host_char c then None
      else map_option (Cons c) (unescape host s))"

lemma unescape_plain:
  "CHR ''%'' \<notin> set s \<Longrightarrow> (host \<longrightarrow> (\<forall>c \<in> set s. host_char c)) \<Longrightarrow> unescape host s = Some s"
  by (induction s) auto

subsection \<open>Cutting\<close>

text \<open>\<open>strings.Cut\<close> at a single character, and \<open>strings.LastIndex\<close> of one as a cut.\<close>

definition cut_at :: "char \<Rightarrow> string \<Rightarrow> (string \<times> string) option" where
  "cut_at c s =
     (if c \<in> set s then Some (takeWhile (\<lambda>x. x \<noteq> c) s, drop 1 (dropWhile (\<lambda>x. x \<noteq> c) s)) else None)"

definition cut_last :: "char \<Rightarrow> string \<Rightarrow> (string \<times> string) option" where
  "cut_last c s = map_option (\<lambda>(a, b). (rev b, rev a)) (cut_at c (rev s))"

lemma cut_at_None [simp]: "c \<notin> set s \<Longrightarrow> cut_at c s = None"
  by (simp add: cut_at_def)

lemma cut_at_Some [simp]: "c \<notin> set a \<Longrightarrow> cut_at c (a @ c # b) = Some (a, b)"
  by (induction a) (auto simp: cut_at_def)

lemma cut_last_None [simp]: "c \<notin> set s \<Longrightarrow> cut_last c s = None"
  by (simp add: cut_last_def)

lemma cut_last_Some [simp]: "c \<notin> set b \<Longrightarrow> cut_last c (a @ c # b) = Some (a, b)"
  using cut_at_Some [of c "rev b" "rev a"] by (simp add: cut_last_def)

subsection \<open>Parsing\<close>

record url =
  Scheme :: string
  Host :: string
  Path :: string
  Opaque :: string

text \<open>\<open>getScheme\<close>: \<open>None\<close> is its error (an empty scheme), otherwise the scheme and the rest.\<close>

fun scheme_len :: "nat \<Rightarrow> string \<Rightarrow> nat option option" where
  "scheme_len i [] = Some None"
| "scheme_len i (c # s) =
     (if is_letter c then scheme_len (Suc i) s
      else if is_digit c \<or> c \<in> set ''+-.'' then if i = 0 then Some None else scheme_len (Suc i) s
      else if c = CHR '':'' then if i = 0 then None else Some (Some i)
      else Some None)"

definition getScheme :: "string \<Rightarrow> (string \<times> string) option" where
  "getScheme s =
     (case scheme_len 0 s of
        None \<Rightarrow> None
      | Some None \<Rightarrow> Some ([], s)
      | Some (Some i) \<Rightarrow> Some (take i s, drop (Suc i) s))"

definition validOptionalPort :: "string \<Rightarrow> bool" where
  "validOptionalPort port \<longleftrightarrow>
     (case port of [] \<Rightarrow> True | c # ds \<Rightarrow> c = CHR '':'' \<and> list_all is_digit ds)"

definition parseHost :: "string \<Rightarrow> string option" where
  "parseHost host =
     (let port_ok =
        (if take 1 host = ''['' then
           (case cut_last CHR '']'' host of None \<Rightarrow> False | Some (a, b) \<Rightarrow> validOptionalPort b)
         else
           (case cut_last CHR '':'' host of
              None \<Rightarrow> True
            | Some (a, b) \<Rightarrow> validOptionalPort (CHR '':'' # b)))
      in if port_ok then unescape True host else None)"

definition validUserinfo :: "string \<Rightarrow> bool" where
  "validUserinfo s \<longleftrightarrow>
     (\<forall>c \<in> set s. is_letter c \<or> is_digit c \<or> c \<in> set ''-._:~!$&()*+,;=%@'' \<or> c = CHR 0x27)"

definition parseAuthority :: "string \<Rightarrow> string option" where
  "parseAuthority authority =
     (case cut_last CHR ''@'' authority of
        None \<Rightarrow> parseHost authority
      | Some (user, host) \<Rightarrow>
          (case parseHost host of
             None \<Rightarrow> None
           | Some h \<Rightarrow> if validUserinfo user \<and> unescape False user \<noteq> None then Some h else None))"

text \<open>Cutting off the query, then the authority and the path of what is left.\<close>

definition cut_query :: "string \<Rightarrow> string" where
  "cut_query s = (case cut_at CHR ''?'' s of None \<Rightarrow> s | Some (a, q) \<Rightarrow> a)"

definition parse_hierarchy :: "string \<Rightarrow> bool \<Rightarrow> string \<Rightarrow> url option" where
  "parse_hierarchy scheme viaRequest rest =
     (let has_authority =
            (scheme \<noteq> [] \<or> (\<not> viaRequest \<and> take 3 rest \<noteq> ''///'')) \<and> take 2 rest = ''//'';
          after = drop 2 rest;
          authority = (if has_authority then takeWhile (\<lambda>c. c \<noteq> CHR ''/'') after else []);
          path = (if has_authority then dropWhile (\<lambda>c. c \<noteq> CHR ''/'') after else rest)
      in case (if has_authority then parseAuthority authority else Some []) of
           None \<Rightarrow> None
         | Some host \<Rightarrow>
             map_option (\<lambda>p. \<lparr>Scheme = scheme, Host = host, Path = p, Opaque = []\<rparr>)
               (unescape False path))"

definition url_parse :: "string \<Rightarrow> bool \<Rightarrow> url option" where
  "url_parse raw viaRequest =
     (if (\<exists>c \<in> set raw. is_ctl c) then None
      else if raw = [] \<and> viaRequest then None
      else if raw = ''*'' then Some \<lparr>Scheme = [], Host = [], Path = ''*'', Opaque = []\<rparr>
      else
        (case getScheme raw of
           None \<Rightarrow> None
         | Some (s, r) \<Rightarrow>
             let scheme = map lower_char s; rest = cut_query r in
             if take 1 rest \<noteq> ''/'' then
               if scheme \<noteq> [] then Some \<lparr>Scheme = scheme, Host = [], Path = [], Opaque = rest\<rparr>
               else if viaRequest then None
               else if CHR '':'' \<in> set (takeWhile (\<lambda>c. c \<noteq> CHR ''/'') rest) then None
               else parse_hierarchy scheme viaRequest rest
             else parse_hierarchy scheme viaRequest rest))"

definition ParseRequestURI :: "string \<Rightarrow> url option" where
  "ParseRequestURI raw = url_parse raw True"

definition Parse :: "string \<Rightarrow> url option" where
  "Parse raw =
     (case cut_at CHR ''#'' raw of
        None \<Rightarrow> url_parse raw False
      | Some (u, frag) \<Rightarrow> if unescape False frag = None then None else url_parse u False)"

subsection \<open>URLs of the usual form\<close>

text \<open>
  A URL as the tools are called with: \<open>http://\<close>, a host of letters, digits, dots and a port, and a
  path that needs no decoding and has no query.
\<close>

definition plain_host :: "string \<Rightarrow> bool" where
  "plain_host h \<longleftrightarrow> (\<exists>name port. h = name @ '':'' @ port \<and> list_all is_digit port
     \<and> list_all (\<lambda>c. is_letter c \<or> is_digit c \<or> c = CHR ''.'') name)"

definition plain_path_char :: "char \<Rightarrow> bool" where
  "plain_path_char c \<longleftrightarrow> \<not> is_ctl c \<and> c \<notin> set ''%?# ''"

definition http_url :: "string \<Rightarrow> string \<Rightarrow> string" where
  "http_url host path = ''http://'' @ host @ path"

lemma plain_host_chars:
  assumes "plain_host h" "c \<in> set h"
  shows "is_letter c \<or> is_digit c \<or> c = CHR ''.'' \<or> c = CHR '':''"
  using assms by (auto simp: plain_host_def list_all_iff)

lemma plain_host_char_facts:
  assumes "plain_host h" "c \<in> set h"
  shows "host_char c" and "plain_path_char c" and "c \<noteq> CHR ''/''" and "c \<noteq> CHR ''@''"
    and "c \<noteq> CHR ''[''"
  using plain_host_chars [OF assms]
  by (auto simp: host_char_def plain_path_char_def is_ctl_def is_letter_def is_digit_def Let_def)

lemma parseHost_plain:
  assumes "plain_host h"
  shows "parseHost h = Some h"
proof -
  from assms obtain name port where h: "h = name @ CHR '':'' # port" "list_all is_digit port"
    by (auto simp: plain_host_def)
  then have "CHR '':'' \<notin> set port" by (auto simp: list_all_iff is_digit_def)
  then have "cut_last CHR '':'' h = Some (name, port)" using h by simp
  moreover have "unescape True h = Some h"
    using plain_host_char_facts [OF assms] by (intro unescape_plain) (auto simp: plain_path_char_def)
  moreover have "take 1 h \<noteq> ''[''"
  proof (cases h)
    case (Cons c cs)
    then show ?thesis using plain_host_char_facts(5) [OF assms, of c] by simp
  qed simp
  ultimately show ?thesis using h(2) by (simp add: parseHost_def validOptionalPort_def)
qed

lemma getScheme_http: "getScheme (''http://'' @ s) = Some (''http'', ''//'' @ s)"
  by (simp add: getScheme_def is_letter_def is_digit_def Let_def)

lemma url_parse_http:
  assumes h: "plain_host h" and p: "path = [] \<or> take 1 path = ''/''" "list_all plain_path_char path"
  shows "url_parse (http_url h path) via =
    Some \<lparr>Scheme = ''http'', Host = h, Path = path, Opaque = []\<rparr>"
proof -
  have hc: "\<forall>c \<in> set h. plain_path_char c" using plain_host_char_facts(2) [OF h] by blast
  have noctl: "\<not> (\<exists>c \<in> set (http_url h path). is_ctl c)"
    using hc p(2) by (auto simp: http_url_def list_all_iff plain_path_char_def is_ctl_def Let_def)
  have noq: "CHR ''?'' \<notin> set (''//'' @ h @ path)"
    using hc p(2) by (auto simp: list_all_iff plain_path_char_def)
  have slash: "CHR ''/'' \<notin> set h" using plain_host_char_facts(3) [OF h] by blast
  have tw: "takeWhile (\<lambda>c. c \<noteq> CHR ''/'') (h @ path) = h"
    and dw: "dropWhile (\<lambda>c. c \<noteq> CHR ''/'') (h @ path) = path"
    using slash p(1) by (cases path; fastforce simp: takeWhile_append dropWhile_append)+
  have "cut_last CHR ''@'' h = None"
    using plain_host_char_facts(4) [OF h] by (intro cut_last_None) blast
  then have auth: "parseAuthority h = Some h"
    by (simp add: parseAuthority_def parseHost_plain [OF h])
  have path: "unescape False path = Some path"
    using p(2) by (intro unescape_plain) (auto simp: list_all_iff plain_path_char_def)
  have q: "cut_query (''//'' @ h @ path) = ''//'' @ h @ path"
    unfolding cut_query_def cut_at_None [OF noq] by simp
  show ?thesis
    using noctl q tw dw auth path getScheme_http [of "h @ path"]
    by (simp add: url_parse_def http_url_def parse_hierarchy_def lower_char_def Let_def)
qed

end
