(* ===== verification/Http_Message.thy ===== *)
theory Http_Message
  imports Url
begin

section \<open>HTTP messages (what the sources use of net/http)\<close>

text \<open>
  \<open>http.ReadRequest\<close> and \<open>http.ReadResponse\<close> on a message that is already in memory, as all four
  programs call them: the first line, the header fields with continuation lines, the \<open>Cache-Control\<close>
  field that a \<open>Pragma: no-cache\<close> adds, and the body as the reader \<open>io.ReadAll\<close> would drain.
  Trailer fields of chunked bodies are not looked at.
\<close>

subsection \<open>Lines\<close>

definition CRLF :: string where "CRLF = [CHR 0x0D, CHR 0x0A]"

definition HttpRequestHeaderEnd :: string where "HttpRequestHeaderEnd = CRLF @ CRLF"

lemma length_CRLF [simp]: "length CRLF = 2" "length HttpRequestHeaderEnd = 4"
  by (simp_all add: CRLF_def HttpRequestHeaderEnd_def)

definition is_blank :: "char \<Rightarrow> bool" where
  "is_blank c \<longleftrightarrow> c = CHR '' '' \<or> c = CHR 0x09"

definition trim_left :: "string \<Rightarrow> string" where
  "trim_left s = dropWhile is_blank s"

definition trim_right :: "string \<Rightarrow> string" where
  "trim_right s = rev (dropWhile is_blank (rev s))"

definition trim :: "string \<Rightarrow> string" where
  "trim s = trim_right (trim_left s)"

text \<open>The next line without its LF or CRLF, and what follows; \<open>None\<close> at the end of the input.\<close>

definition chomp :: "string \<Rightarrow> string" where
  "chomp l = (if l \<noteq> [] \<and> last l = CHR 0x0D then butlast l else l)"

definition read_line :: "string \<Rightarrow> (string \<times> string) option" where
  "read_line s =
     (if s = [] then None
      else (case cut_at CHR 0x0A s of
              None \<Rightarrow> Some (s, [])
            | Some (l, r) \<Rightarrow> Some (chomp l, r)))"

lemma length_cut_at: "cut_at c s = Some (a, b) \<Longrightarrow> length a + length b < length s"
proof (induction s arbitrary: a)
  case Nil
  then show ?case by (simp add: cut_at_def)
next
  case (Cons x s)
  then show ?case by (fastforce simp: cut_at_def split: if_splits)
qed

lemma read_line_shorter: "read_line s = Some (l, r) \<Longrightarrow> length r < length s"
  using length_cut_at by (fastforce simp: read_line_def split: if_splits option.splits)

lemma read_line_skip_shorter:
  "read_line (dropWhile P s) = Some (l, r) \<Longrightarrow> length r < length s"
  using read_line_shorter [of "dropWhile P s" l r] length_dropWhile_le [of P s] by linarith

lemma chomp_CR [simp]: "chomp (l @ [CHR 0x0D]) = l"
  by (simp add: chomp_def)

lemma read_line_CRLF [simp]:
  assumes "CHR 0x0A \<notin> set l"
  shows "read_line (l @ CRLF @ r) = Some (l, r)"
proof -
  have eq: "l @ CRLF @ r = (l @ [CHR 0x0D]) @ CHR 0x0A # r" by (simp add: CRLF_def)
  have "cut_at CHR 0x0A (l @ CRLF @ r) = Some (l @ [CHR 0x0D], r)"
    unfolding eq using assms by (intro cut_at_Some) simp
  then show ?thesis by (simp add: read_line_def CRLF_def)
qed

lemma read_line_blank [simp]: "read_line (CRLF @ r) = Some ([], r)"
  using read_line_CRLF [of "[]" r] by simp

subsection \<open>Header fields\<close>

type_synonym header = "(string \<times> string) list"

definition token_char :: "char \<Rightarrow> bool" where
  "token_char c \<longleftrightarrow>
     is_letter c \<or> is_digit c \<or> c \<in> set ''!#$%&*+-.^_|~'' \<or> c = CHR 0x27 \<or> c = CHR 0x60"

fun canonical_key :: "bool \<Rightarrow> string \<Rightarrow> string" where
  "canonical_key up [] = []"
| "canonical_key up (c # s) =
     (if up then upper_char c else lower_char c) # canonical_key (c = CHR ''-'') s"

definition header_values :: "string \<Rightarrow> header \<Rightarrow> string list" where
  "header_values k h = map snd (filter (\<lambda>(k', v). k' = k) h)"

definition header_get :: "string \<Rightarrow> header \<Rightarrow> string" where
  "header_get k h = (case header_values k h of [] \<Rightarrow> [] | v # _ \<Rightarrow> v)"

definition header_del :: "string \<Rightarrow> header \<Rightarrow> header" where
  "header_del k h = filter (\<lambda>(k', v). k' \<noteq> k) h"

text \<open>One field: the key up to the colon, which must be a token, and the trimmed value.\<close>

definition parse_field :: "string \<Rightarrow> (string \<times> string) option" where
  "parse_field kv =
     (case cut_at CHR '':'' kv of
        None \<Rightarrow> None
      | Some (k, v) \<Rightarrow>
          if k \<noteq> [] \<and> list_all token_char k then Some (canonical_key True k, trim_left v) else None)"

text \<open>The continuation lines of a field, appended to what was read of it.\<close>

function continuation :: "string \<Rightarrow> string \<Rightarrow> string \<times> string" where
  "continuation acc s =
     (if s \<noteq> [] \<and> is_blank (hd s) then
        (case read_line (dropWhile is_blank s) of
           None \<Rightarrow> (acc, [])
         | Some (l, r) \<Rightarrow> continuation (acc @ '' '' @ trim l) r)
      else (acc, s))"
  by pat_completeness auto
termination
  by (relation "measure (length \<circ> snd)") (auto dest: read_line_skip_shorter)

declare continuation.simps [simp del]

lemma continuation_shorter: "length (snd (continuation acc s)) \<le> length s"
proof (induction acc s rule: continuation.induct)
  case (1 acc s)
  then show ?case
    by (subst continuation.simps)
      (fastforce split: option.splits dest: read_line_skip_shorter)
qed

lemma continuation_shorter': "continuation acc s = (kv, r) \<Longrightarrow> length r \<le> length s"
  using continuation_shorter [of acc s] by simp

text \<open>\<open>ReadMIMEHeader\<close>: the fields up to the blank line and what follows; \<open>None\<close> is an error.\<close>

function read_header :: "string \<Rightarrow> (header \<times> string) option" where
  "read_header s =
     (if s \<noteq> [] \<and> is_blank (hd s) then None
      else
        (case read_line s of
           None \<Rightarrow> None
         | Some (l, r) \<Rightarrow>
             if l = [] then Some ([], r)
             else if CHR '':'' \<notin> set l then None
             else
               (case continuation (trim l) r of
                  (kv, r') \<Rightarrow>
                    (case parse_field kv of
                       None \<Rightarrow> None
                     | Some f \<Rightarrow>
                         (case read_header r' of None \<Rightarrow> None | Some (h, rest) \<Rightarrow> Some (f # h, rest))))))"
  by pat_completeness auto
termination
  by (relation "measure length")
    (auto dest!: read_line_shorter continuation_shorter' [OF sym])

declare read_header.simps [simp del]

subsection \<open>Bodies\<close>

datatype body = NoBody | Whole string | Short string | Chunked string

fun parse_hex :: "nat \<Rightarrow> string \<Rightarrow> nat option" where
  "parse_hex acc [] = Some acc"
| "parse_hex acc (c # cs) = (if ishex c then parse_hex (16 * acc + unhex c) cs else None)"

text \<open>The chunks of a chunked body: size line, data, CRLF, until a size of zero.\<close>

function unchunk :: "string \<Rightarrow> string option" where
  "unchunk s =
     (case read_line s of
        None \<Rightarrow> None
      | Some (l, r) \<Rightarrow>
          (let size = trim_right (takeWhile (\<lambda>c. c \<noteq> CHR '';'') l) in
           if size = [] then None
           else
             (case parse_hex 0 size of
                None \<Rightarrow> None
              | Some n \<Rightarrow>
                  if n = 0 then Some []
                  else if take 2 (drop n r) \<noteq> CRLF then None
                  else map_option (append (take n r)) (unchunk (drop (n + 2) r)))))"
  by pat_completeness auto
termination
  by (relation "measure length") (auto dest!: read_line_shorter)

declare unchunk.simps [simp del]

text \<open>\<open>io.ReadAll\<close> on a body: the data, or the text of the error.\<close>

definition ReadAll :: "body \<Rightarrow> string + string" where
  "ReadAll b =
     (case b of
        NoBody \<Rightarrow> Inr []
      | Whole s \<Rightarrow> Inr s
      | Short s \<Rightarrow> Inl ''unexpected EOF''
      | Chunked s \<Rightarrow> (case unchunk s of None \<Rightarrow> Inl ''unexpected EOF'' | Some d \<Rightarrow> Inr d))"

lemma ReadAll_simps [simp]:
  "ReadAll NoBody = Inr []" "ReadAll (Whole s) = Inr s" "ReadAll (Short s) = Inl ''unexpected EOF''"
  by (simp_all add: ReadAll_def)

definition limited :: "nat \<Rightarrow> string \<Rightarrow> body" where
  "limited n s =
     (if n = 0 then NoBody else if n \<le> length s then Whole (take n s) else Short s)"

text \<open>The length of a body from its \<open>Content-Length\<close> fields: \<open>Inr None\<close> when there is none.\<close>

definition parseContentLength :: "string \<Rightarrow> nat option" where
  "parseContentLength cl =
     (case parse_dec 0 cl of None \<Rightarrow> None | Some n \<Rightarrow> if n < 2 ^ 63 then Some n else None)"

definition fixLength :: "header \<Rightarrow> string + nat option" where
  "fixLength h =
     (case map trim (header_values ''Content-Length'' h) of
        [] \<Rightarrow> Inr None
      | cl # cls \<Rightarrow>
          if (\<exists>c \<in> set cls. c \<noteq> cl) then Inl ''http: message cannot contain multiple Content-Length headers''
          else if cl = [] then Inr None
          else (case parseContentLength cl of
                  None \<Rightarrow> Inl (''bad Content-Length '' @ cl)
                | Some n \<Rightarrow> Inr (Some n)))"

text \<open>
  \<open>readTransfer\<close>: \<open>unbounded\<close> is what a missing length means, the end of the connection for a
  response and no body for a request.
\<close>

definition read_transfer :: "bool \<Rightarrow> bool \<Rightarrow> header \<Rightarrow> string \<Rightarrow> string + header \<times> body" where
  "read_transfer http11 unbounded h rest =
     (let te = header_values ''Transfer-Encoding'' h;
          h1 = header_del ''Transfer-Encoding'' h;
          chunked = (http11 \<and> te \<noteq> [])
      in if chunked \<and> \<not> (length te = 1 \<and> map lower_char (te ! 0) = ''chunked'')
         then Inl ''unsupported transfer encoding''
         else if chunked then Inr (header_del ''Content-Length'' h1, Chunked rest)
         else
           (case fixLength h1 of
              Inl e \<Rightarrow> Inl e
            | Inr (Some n) \<Rightarrow> Inr (h1, limited n rest)
            | Inr None \<Rightarrow>
                Inr (header_del ''Content-Length'' h1, if unbounded then Whole rest else NoBody)))"

subsection \<open>Requests and responses\<close>

record request =
  Method :: string
  URL :: url
  Header :: header
  Body :: body

record response =
  StatusCode :: nat
  res_Header :: header
  res_Body :: body

definition ParseHTTPVersion :: "string \<Rightarrow> (nat \<times> nat) option" where
  "ParseHTTPVersion v =
     (if take 5 v = ''HTTP/'' \<and> length v = 8 \<and> v ! 6 = CHR ''.''
         \<and> is_digit (v ! 5) \<and> is_digit (v ! 7)
      then Some (digit_val (v ! 5), digit_val (v ! 7)) else None)"

definition at_least_11 :: "nat \<times> nat \<Rightarrow> bool" where
  "at_least_11 v \<longleftrightarrow> 1 < fst v \<or> (fst v = 1 \<and> 1 \<le> snd v)"

definition parseRequestLine :: "string \<Rightarrow> (string \<times> string \<times> string) option" where
  "parseRequestLine l =
     (case cut_at CHR '' '' l of
        None \<Rightarrow> None
      | Some (m, r) \<Rightarrow>
          (case cut_at CHR '' '' r of None \<Rightarrow> None | Some (u, p) \<Rightarrow> Some (m, u, p)))"

text \<open>The target of the request line; that of \<open>CONNECT\<close> is a bare authority.\<close>

definition request_url :: "string \<Rightarrow> string \<Rightarrow> url option" where
  "request_url m u =
     (if m = ''CONNECT'' \<and> take 1 u \<noteq> ''/''
      then map_option (\<lambda>x. x\<lparr>Scheme := []\<rparr>) (ParseRequestURI (''http://'' @ u))
      else ParseRequestURI u)"

text \<open>
  \<open>fixPragmaCacheControl\<close>, which both readers call on the header they have read: a \<open>Pragma: no-cache\<close>
  without a \<open>Cache-Control\<close> field gives one.
\<close>

definition fixPragmaCacheControl :: "header \<Rightarrow> header" where
  "fixPragmaCacheControl h =
     (case header_values ''Pragma'' h of
        [] \<Rightarrow> h
      | v # _ \<Rightarrow>
          if v = ''no-cache'' \<and> header_values ''Cache-Control'' h = []
          then h @ [(''Cache-Control'', ''no-cache'')] else h)"

lemma fixPragma_values [simp]:
  "k \<noteq> ''Cache-Control'' \<Longrightarrow> header_values k (fixPragmaCacheControl h) = header_values k h"
  by (auto simp: fixPragmaCacheControl_def header_values_def split: list.split)

lemma fixPragma_get [simp]:
  "k \<noteq> ''Cache-Control'' \<Longrightarrow> header_get k (fixPragmaCacheControl h) = header_get k h"
  by (simp add: header_get_def)

lemma fixPragma_absent:
  "\<forall>f \<in> set h. fst f \<noteq> k \<Longrightarrow> k \<noteq> ''Cache-Control'' \<Longrightarrow>
   \<forall>f \<in> set (fixPragmaCacheControl h). fst f \<noteq> k"
  by (auto simp: fixPragmaCacheControl_def split: list.split)

lemma fixPragma_Cons:
  "k \<noteq> ''Pragma'' \<Longrightarrow> k \<noteq> ''Cache-Control'' \<Longrightarrow>
   fixPragmaCacheControl ((k, v) # h) = (k, v) # fixPragmaCacheControl h"
  by (simp add: fixPragmaCacheControl_def header_values_def split: list.split)

lemma fixPragma_none:
  "\<forall>f \<in> set h. fst f \<noteq> ''Pragma'' \<Longrightarrow> fixPragmaCacheControl h = h"
proof -
  assume "\<forall>f \<in> set h. fst f \<noteq> ''Pragma''"
  then have "header_values ''Pragma'' h = []" by (auto simp: header_values_def filter_empty_conv)
  then show ?thesis by (simp add: fixPragmaCacheControl_def)
qed

definition ReadRequest :: "string \<Rightarrow> string + request" where
  "ReadRequest s =
     (case read_line s of
        None \<Rightarrow> Inl ''EOF''
      | Some (l, r) \<Rightarrow>
        (case parseRequestLine l of
           None \<Rightarrow> Inl (''malformed HTTP request '' @ l)
         | Some (m, u, p) \<Rightarrow>
           if m = [] \<or> \<not> list_all token_char m then Inl (''invalid method '' @ m)
           else
             (case ParseHTTPVersion p of
                None \<Rightarrow> Inl (''malformed HTTP version '' @ p)
              | Some v \<Rightarrow>
                (case request_url m u of
                   None \<Rightarrow> Inl (''parse '' @ u)
                 | Some x \<Rightarrow>
                   (case read_header r of
                      None \<Rightarrow> Inl ''malformed MIME header''
                    | Some (h, rest) \<Rightarrow>
                      if 1 < length (header_values ''Host'' h) then Inl ''too many Host headers''
                      else
                        (case read_transfer (at_least_11 v) False
                               (header_del ''Host'' (fixPragmaCacheControl h)) rest of
                           Inl e \<Rightarrow> Inl e
                         | Inr (h', b) \<Rightarrow> Inr \<lparr>Method = m, URL = x, Header = h', Body = b\<rparr>))))))"

definition no_body_status :: "nat \<Rightarrow> bool" where
  "no_body_status n \<longleftrightarrow> n div 100 = 1 \<or> n = 204 \<or> n = 304"

definition ReadResponse :: "string \<Rightarrow> string + response" where
  "ReadResponse s =
     (case read_line s of
        None \<Rightarrow> Inl ''unexpected EOF''
      | Some (l, r) \<Rightarrow>
        (case cut_at CHR '' '' l of
           None \<Rightarrow> Inl (''malformed HTTP response '' @ l)
         | Some (p, status) \<Rightarrow>
           (let st = dropWhile (\<lambda>c. c = CHR '' '') status;
                code = takeWhile (\<lambda>c. c \<noteq> CHR '' '') st
            in if length code \<noteq> 3 then Inl (''malformed HTTP status code '' @ code)
               else
                 (case parse_dec 0 code of
                    None \<Rightarrow> Inl (''malformed HTTP status code '' @ code)
                  | Some n \<Rightarrow>
                    (case ParseHTTPVersion p of
                       None \<Rightarrow> Inl (''malformed HTTP version '' @ p)
                     | Some v \<Rightarrow>
                       (case read_header r of
                          None \<Rightarrow> Inl ''unexpected EOF''
                        | Some (h, rest) \<Rightarrow>
                          (case read_transfer (at_least_11 v) True (fixPragmaCacheControl h) rest of
                             Inl e \<Rightarrow> Inl e
                           | Inr (h', b) \<Rightarrow>
                               Inr \<lparr>StatusCode = n, res_Header = h',
                                    res_Body = (if no_body_status n then NoBody else b)\<rparr>)))))))"

definition StatusText :: "nat \<Rightarrow> string" where
  "StatusText n =
     (if n = 200 then ''OK'' else if n = 201 then ''Created''
      else if n = 404 then ''Not Found'' else if n = 500 then ''Internal Server Error'' else [])"

subsection \<open>Messages built from lines\<close>

text \<open>
  A message as the programs print it: lines, a blank line and a body.  A line is plain when it is
  not empty and has no LF, a field line when it also reads as one field.
\<close>

definition message :: "string list \<Rightarrow> string \<Rightarrow> string" where
  "message ls rest = concat (map (\<lambda>l. l @ CRLF) ls) @ CRLF @ rest"

definition plain_line :: "string \<Rightarrow> bool" where
  "plain_line l \<longleftrightarrow> l \<noteq> [] \<and> CHR 0x0A \<notin> set l"

definition field_line :: "string \<Rightarrow> bool" where
  "field_line l \<longleftrightarrow> plain_line l \<and> \<not> is_blank (hd l) \<and> CHR '':'' \<in> set l \<and> parse_field (trim l) \<noteq> None"

lemma message_simps:
  "message [] rest = CRLF @ rest"
  "message (l # ls) rest = l @ CRLF @ message ls rest"
  by (simp_all add: message_def)

lemma head_end_skip:
  "CHR 0x0A \<notin> set l \<Longrightarrow>
   str_index (l @ CRLF @ s) HttpRequestHeaderEnd =
     (if take 2 s = CRLF then Some (length l)
      else map_option (\<lambda>i. i + length l + 2) (str_index s HttpRequestHeaderEnd))"
proof (induction l)
  case Nil
  show ?case
    by (auto simp: CRLF_def HttpRequestHeaderEnd_def numeral_2_eq_2 option.map_comp comp_def)
next
  case (Cons x l)
  have "take 4 (x # l @ CRLF @ s) \<noteq> HttpRequestHeaderEnd"
    using Cons.prems by (cases l) (auto simp: CRLF_def HttpRequestHeaderEnd_def)
  with Cons show ?case by (auto simp: option.map_comp comp_def)
qed

lemma message_not_CRLF:
  assumes "plain_line l"
  shows "take 2 (l @ CRLF @ s) \<noteq> CRLF"
proof (cases l)
  case (Cons x l')
  with assms show ?thesis by (cases l') (auto simp: plain_line_def CRLF_def)
qed (use assms in \<open>simp add: plain_line_def\<close>)

text \<open>The first end of a header in such a message is where the lines end.\<close>

lemma message_end:
  assumes "ls \<noteq> []" "\<forall>l \<in> set ls. plain_line l"
  shows "str_index (message ls rest) HttpRequestHeaderEnd =
           Some (length (concat (map (\<lambda>l. l @ CRLF) ls)) - 2)"
  using assms
proof (induction ls)
  case (Cons l ls)
  show ?case
  proof (cases ls)
    case Nil
    with Cons.prems head_end_skip [of l "CRLF @ rest"] show ?thesis
      by (simp add: message_simps plain_line_def)
  next
    case (Cons l2 ls2)
    have "take 2 (message ls rest) \<noteq> CRLF"
      using Cons Cons.prems message_not_CRLF [of l2] by (simp add: message_simps)
    moreover have "2 \<le> length (concat (map (\<lambda>l. l @ CRLF) ls))" using Cons by simp
    ultimately show ?thesis
      using Cons.IH Cons.prems Cons head_end_skip [of l "message ls rest"]
      by (simp add: message_simps(2) plain_line_def)
  qed
qed simp

lemma message_head:
  assumes "ls \<noteq> []"
  shows "take (length (concat (map (\<lambda>l. l @ CRLF) ls)) - 2) (message ls rest) @ HttpRequestHeaderEnd
      = message ls []"
    and "drop (length (concat (map (\<lambda>l. l @ CRLF) ls)) - 2 + 4) (message ls rest) = rest"
    and "length (concat (map (\<lambda>l. l @ CRLF) ls)) - 2 + 4 \<le> length (message ls rest)"
proof -
  obtain ks l where ls: "ls = ks @ [l]" using assms by (cases ls rule: rev_cases) auto
  let ?a = "concat (map (\<lambda>l. l @ CRLF) ks) @ l"
  have a: "concat (map (\<lambda>l. l @ CRLF) ls) = ?a @ CRLF" by (simp add: ls)
  then have n: "length (concat (map (\<lambda>l. l @ CRLF) ls)) - 2 = length ?a" by simp
  have m: "message ls rest = ?a @ HttpRequestHeaderEnd @ rest" for rest
    by (simp add: message_def a HttpRequestHeaderEnd_def)
  show "take (length (concat (map (\<lambda>l. l @ CRLF) ls)) - 2) (message ls rest) @ HttpRequestHeaderEnd
      = message ls []"
    unfolding n m by simp
  show "drop (length (concat (map (\<lambda>l. l @ CRLF) ls)) - 2 + 4) (message ls rest) = rest"
    unfolding n m by simp
  show "length (concat (map (\<lambda>l. l @ CRLF) ls)) - 2 + 4 \<le> length (message ls rest)"
    unfolding n m by simp
qed

lemma continuation_stops:
  "r = [] \<or> \<not> is_blank (hd r) \<Longrightarrow> continuation acc r = (acc, r)"
  by (subst continuation.simps) auto

lemma CR_not_blank [simp]: "\<not> is_blank (hd (CRLF @ r))"
  by (simp add: is_blank_def CRLF_def)

text \<open>Reading the fields of such a message.\<close>

lemma read_header_message:
  assumes "\<forall>l \<in> set ls. field_line l"
  shows "read_header (message ls rest) = Some (map (\<lambda>l. the (parse_field (trim l))) ls, rest)"
  using assms
proof (induction ls)
  case Nil
  show ?case by (subst read_header.simps) (simp add: message_simps)
next
  case (Cons l ls)
  from Cons.prems have l: "plain_line l" "\<not> is_blank (hd l)" "CHR '':'' \<in> set l"
    "parse_field (trim l) \<noteq> None" by (auto simp: field_line_def)
  have next_ok: "\<not> is_blank (hd (message ls rest))"
  proof (cases ls)
    case (Cons k ks)
    then have "plain_line k" "\<not> is_blank (hd k)" using Cons.prems by (auto simp: field_line_def)
    then show ?thesis using Cons by (simp add: message_simps plain_line_def)
  qed (simp add: message_simps)
  have "read_line (l @ CRLF @ message ls rest) = Some (l, message ls rest)"
    using l(1) by (intro read_line_CRLF) (simp add: plain_line_def)
  moreover have "\<not> is_blank (hd (l @ CRLF @ message ls rest))" "l \<noteq> []"
    using l by (simp_all add: plain_line_def)
  ultimately show ?case
    using l Cons.IH Cons.prems continuation_stops [of "message ls rest" "trim l"] next_ok
    by (subst read_header.simps) (auto simp: message_simps)
qed

text \<open>The fields the programs print themselves.\<close>

lemma trim_plain: "s \<noteq> [] \<Longrightarrow> \<not> is_blank (hd s) \<Longrightarrow> \<not> is_blank (last s) \<Longrightarrow> trim s = s"
proof -
  assume s: "s \<noteq> []" "\<not> is_blank (hd s)" "\<not> is_blank (last s)"
  then have "trim_left s = s" by (cases s) (simp_all add: trim_left_def)
  moreover have "trim_right s = s"
    using s(1,3) by (cases s rule: rev_cases) (simp_all add: trim_right_def)
  ultimately show ?thesis by (simp add: trim_def)
qed

lemma parse_field_colon:
  assumes "k \<noteq> []" "list_all token_char k"
  shows "parse_field (k @ '':'' @ v) = Some (canonical_key True k, trim_left v)"
proof -
  have "CHR '':'' \<notin> set k"
    using assms(2) by (auto simp: list_all_iff token_char_def is_letter_def is_digit_def)
  then have "cut_at CHR '':'' (k @ CHR '':'' # v) = Some (k, v)" by simp
  with assms show ?thesis by (simp add: parse_field_def)
qed

lemma trim_value:
  assumes "v \<noteq> []" "\<not> is_blank (hd v)" "\<not> is_blank (last v)" "k \<noteq> []" "\<not> is_blank (hd k)"
  shows "trim (k @ '': '' @ v) = k @ '': '' @ v"
  using assms by (intro trim_plain) auto

lemma printed_field:
  assumes "k \<noteq> []" "list_all token_char k" "v \<noteq> []" "\<not> is_blank (hd v)" "\<not> is_blank (last v)"
    and "CHR 0x0A \<notin> set v"
  shows "field_line (k @ '': '' @ v)"
    and "parse_field (trim (k @ '': '' @ v)) = Some (canonical_key True k, v)"
proof -
  have blank: "\<not> token_char c" if "is_blank c \<or> c = CHR 0x0A" for c
    using that by (auto simp: token_char_def is_blank_def is_letter_def is_digit_def Let_def)
  have k: "\<not> is_blank (hd k)" "CHR 0x0A \<notin> set k"
    using assms(1,2) blank [of "hd k"] blank [of "CHR 0x0A"] by (cases k; auto simp: list_all_iff)+
  have t: "trim (k @ '': '' @ v) = k @ '':'' @ ('' '' @ v)"
    using trim_value [OF assms(3-5,1) k(1)] by simp
  have "trim_left ('' '' @ v) = v"
    using assms(3,4) by (cases v) (simp_all add: trim_left_def is_blank_def)
  then show p: "parse_field (trim (k @ '': '' @ v)) = Some (canonical_key True k, v)"
    unfolding t parse_field_colon [OF assms(1,2)] by simp
  show "field_line (k @ '': '' @ v)"
    using p k assms(1,6) by (simp add: field_line_def plain_line_def)
qed

lemma itoa_ends [simp]: "\<not> is_blank (hd (itoa n))" "\<not> is_blank (last (itoa n))" "CHR 0x0A \<notin> set (itoa n)"
proof -
  have "c \<in> set (itoa n) \<Longrightarrow> \<not> is_blank c \<and> c \<noteq> CHR 0x0A" for c
    using itoa_digits [of c n] by (auto simp: is_digit_def is_blank_def)
  moreover have "hd (itoa n) \<in> set (itoa n)" "last (itoa n) \<in> set (itoa n)" by simp_all
  ultimately show "\<not> is_blank (hd (itoa n))" "\<not> is_blank (last (itoa n))" "CHR 0x0A \<notin> set (itoa n)"
    by blast+
qed

end
