(* ===== verification/File_System.thy ===== *)
theory File_System
  imports Go_Prelude "HOL-Library.Char_ord" "HOL-Library.List_Lexorder"
begin

section \<open>Files (what the sources use of os and path/filepath)\<close>

text \<open>
  A file system of directories and regular files without links, addressed by absolute paths; the
  operations \<open>ReadFile\<close>, \<open>Create\<close>, \<open>Write\<close>, \<open>WriteFile\<close>, \<open>Stat\<close>, \<open>Getwd\<close> and \<open>WalkDir\<close> with
  the errors of Linux.  Permissions, exhausted disks and the like are not computed but injected:
  \<open>faults\<close> may make any operation on any path fail, and every theorem about the file servers
  that does not say otherwise holds for all \<open>faults\<close>.
\<close>

subsection \<open>Paths\<close>

text \<open>A path is its list of names; the order is the one in which \<open>WalkDir\<close> visits, names compared
  byte by byte and a directory before what is in it.\<close>

datatype fpath = FPath (names: "string list")

instantiation fpath :: linorder
begin

definition less_eq_fpath :: "fpath \<Rightarrow> fpath \<Rightarrow> bool" where
  "less_eq_fpath p q \<longleftrightarrow> names p \<le> names q"

definition less_fpath :: "fpath \<Rightarrow> fpath \<Rightarrow> bool" where
  "less_fpath p q \<longleftrightarrow> names p < names q"

instance
proof
  fix p q r :: fpath
  show "p < q \<longleftrightarrow> p \<le> q \<and> \<not> q \<le> p" by (auto simp: less_eq_fpath_def less_fpath_def)
  show "p \<le> p" by (simp add: less_eq_fpath_def)
  show "p \<le> q \<Longrightarrow> q \<le> r \<Longrightarrow> p \<le> r" by (simp add: less_eq_fpath_def)
  show "p \<le> q \<Longrightarrow> q \<le> p \<Longrightarrow> p = q" by (simp add: less_eq_fpath_def fpath.expand)
  show "p \<le> q \<or> q \<le> p" by (auto simp: less_eq_fpath_def)
qed

end

definition path_comps :: "string \<Rightarrow> string list" where
  "path_comps s = filter (\<lambda>c. c \<noteq> []) (split_on CHR ''/'' s)"

definition trailing_slash :: "string \<Rightarrow> bool" where
  "trailing_slash s \<longleftrightarrow> s \<noteq> [] \<and> last s = CHR ''/''"

definition below :: "string list \<Rightarrow> fpath \<Rightarrow> bool" where
  "below d p \<longleftrightarrow> length d < length (names p) \<and> take (length d) (names p) = d"

lemma split_on_append: "split_on c (xs @ c # ys) = split_on c xs @ split_on c ys"
  by (induction xs) (auto split: list.splits)

lemma path_comps_append: "path_comps (xs @ CHR ''/'' # ys) = path_comps xs @ path_comps ys"
  by (simp add: path_comps_def split_on_append)

lemma path_comps_single:
  "CHR ''/'' \<notin> set s \<Longrightarrow> s \<noteq> [] \<Longrightarrow> path_comps s = [s]"
  by (simp add: path_comps_def split_on_single)

lemma split_on_infix: "f \<in> set (split_on c s) \<Longrightarrow> \<exists>a b. s = a @ f @ b"
proof (induction s arbitrary: f)
  case (Cons x s)
  show ?case
  proof (cases "x = c")
    case True
    with Cons.prems consider "f = []" | "f \<in> set (split_on c s)" by auto
    then show ?thesis
    proof cases
      case 2
      then obtain a b where "s = a @ f @ b" using Cons.IH by blast
      then show ?thesis by (intro exI [of _ "x # a"] exI [of _ b]) simp
    qed (auto intro: exI [of _ "[]"])
  next
    case False
    obtain g gs where g: "split_on c s = g # gs" by (cases "split_on c s") auto
    with False Cons.prems consider "f = x # g" | "f \<in> set gs" by auto
    then show ?thesis
    proof cases
      case 1
      from g have "\<exists>b. s = g @ b"
      proof (induction s arbitrary: g gs)
        case (Cons y s)
        then show ?case by (auto split: if_splits list.splits)
      qed simp
      with 1 show ?thesis by (metis append_Cons append_Nil)
    next
      case 2
      with g obtain a b where "s = a @ f @ b" using Cons.IH [of f] by auto
      then show ?thesis by (intro exI [of _ "x # a"] exI [of _ b]) simp
    qed
  qed
qed simp

lemma no_dotdot_comps:
  assumes "\<not> str_contains s ''..''"
  shows "''..'' \<notin> set (path_comps s)"
  using assms split_on_infix by (fastforce simp: path_comps_def str_contains_iff)

subsection \<open>Errors\<close>

datatype errno = ENOENT | ENOTDIR | EISDIR | EINVAL | EACCES | ENOSPC | EIO

fun errno_text :: "errno \<Rightarrow> string" where
  "errno_text ENOENT = ''no such file or directory''"
| "errno_text ENOTDIR = ''not a directory''"
| "errno_text EISDIR = ''is a directory''"
| "errno_text EINVAL = ''invalid argument''"
| "errno_text EACCES = ''permission denied''"
| "errno_text ENOSPC = ''no space left on device''"
| "errno_text EIO = ''input/output error''"

datatype go_error =
    PathError string string errno
  | Errorf string

fun Error :: "go_error \<Rightarrow> string" where
  "Error (PathError oper path e) = oper @ '' '' @ path @ '': '' @ errno_text e"
| "Error (Errorf s) = s"

definition IsNotExist :: "go_error \<Rightarrow> bool" where
  "IsNotExist e \<longleftrightarrow> (case e of PathError oper path n \<Rightarrow> n = ENOENT | Errorf s \<Rightarrow> False)"

subsection \<open>State\<close>

datatype node = File string | Directory

datatype os_op = Open_op | Read_op | Create_op | Write_op | List_op | Stat_op | Getwd_op

record os =
  tree :: "(fpath \<times> node) list"
  cwd :: string
  faults :: "os_op \<Rightarrow> string \<Rightarrow> errno option"

definition no_faults :: "os_op \<Rightarrow> string \<Rightarrow> errno option" where
  "no_faults oper path = None"

text \<open>The root is always a directory.\<close>

definition lookup :: "os \<Rightarrow> string list \<Rightarrow> node option" where
  "lookup s p = (if p = [] then Some Directory else map_of (tree s) (FPath p))"

definition tree_ok :: "os \<Rightarrow> bool" where
  "tree_ok s \<longleftrightarrow> distinct (map fst (tree s))
     \<and> (\<forall>(p, n) \<in> set (tree s). names p \<noteq> [] \<and> lookup s (butlast (names p)) = Some Directory)"

text \<open>Following the names of a path: each directory on the way must exist.\<close>

fun walk :: "os \<Rightarrow> string list \<Rightarrow> string list \<Rightarrow> errno + string list" where
  "walk s cur [] = Inr cur"
| "walk s cur (c # cs) =
     (case lookup s cur of
        None \<Rightarrow> Inl ENOENT
      | Some (File d) \<Rightarrow> Inl ENOTDIR
      | Some Directory \<Rightarrow>
          walk s (if c = ''.'' then cur else if c = ''..'' then butlast cur else cur @ [c]) cs)"

definition absolute :: "os \<Rightarrow> string \<Rightarrow> string" where
  "absolute s path = (if take 1 path = ''/'' then path else cwd s @ ''/'' @ path)"

definition resolve :: "os \<Rightarrow> string \<Rightarrow> errno + string list" where
  "resolve s path =
     (if CHR 0x00 \<in> set path then Inl EINVAL
      else if path = [] then Inl ENOENT
      else walk s [] (path_comps (absolute s path)))"

lemma walk_append:
  "walk s cur (xs @ ys) = (case walk s cur xs of Inl e \<Rightarrow> Inl e | Inr d \<Rightarrow> walk s d ys)"
  by (induction xs arbitrary: cur) (auto split: option.splits node.splits)

lemma walk_forward:
  assumes "walk s cur cs = Inr p" "''..'' \<notin> set cs"
  shows "p = cur @ filter (\<lambda>c. c \<noteq> ''.'') cs"
  using assms
proof (induction cs arbitrary: cur)
  case (Cons c cs)
  from Cons.prems obtain "walk s (if c = ''.'' then cur else cur @ [c]) cs = Inr p"
    by (auto split: option.splits node.splits if_splits)
  from Cons.IH [OF this] Cons.prems(2) show ?case by auto
qed simp

subsection \<open>Operations\<close>

definition open_read :: "string \<Rightarrow> os \<Rightarrow> errno + node" where
  "open_read path s =
     (case resolve s path of
        Inl e \<Rightarrow> Inl e
      | Inr p \<Rightarrow>
          (case faults s Open_op path of
             Some e \<Rightarrow> Inl e
           | None \<Rightarrow>
               (case lookup s p of
                  None \<Rightarrow> Inl ENOENT
                | Some Directory \<Rightarrow> Inr Directory
                | Some (File d) \<Rightarrow> if trailing_slash path then Inl ENOTDIR else Inr (File d))))"

definition ReadFile :: "string \<Rightarrow> os \<Rightarrow> go_error + string" where
  "ReadFile path s =
     (case open_read path s of
        Inl e \<Rightarrow> Inl (PathError ''open'' path e)
      | Inr Directory \<Rightarrow> Inl (PathError ''read'' path EISDIR)
      | Inr (File d) \<Rightarrow>
          (case faults s Read_op path of
             Some e \<Rightarrow> Inl (PathError ''read'' path e)
           | None \<Rightarrow> Inr d))"

definition set_file :: "string list \<Rightarrow> string \<Rightarrow> os \<Rightarrow> os" where
  "set_file p d s = s\<lparr>tree := (FPath p, File d) # filter (\<lambda>(q, n). q \<noteq> FPath p) (tree s)\<rparr>"

text \<open>\<open>os.Create\<close>: a missing file is made, an existing one is emptied; the result is the file that
  is open now.\<close>

definition Create :: "string \<Rightarrow> os \<Rightarrow> go_error + string list \<times> os" where
  "Create path s =
     (case resolve s path of
        Inl e \<Rightarrow> Inl (PathError ''open'' path e)
      | Inr p \<Rightarrow>
          (case faults s Create_op path of
             Some e \<Rightarrow> Inl (PathError ''open'' path e)
           | None \<Rightarrow>
               (case lookup s p of
                  Some Directory \<Rightarrow> Inl (PathError ''open'' path EISDIR)
                | Some (File d) \<Rightarrow>
                    if trailing_slash path then Inl (PathError ''open'' path ENOTDIR)
                    else Inr (p, set_file p [] s)
                | None \<Rightarrow>
                    if trailing_slash path then Inl (PathError ''open'' path EISDIR)
                    else if lookup s (butlast p) \<noteq> Some Directory then Inl (PathError ''open'' path ENOENT)
                    else Inr (p, set_file p [] s))))"

definition Write :: "string \<Rightarrow> string list \<Rightarrow> string \<Rightarrow> os \<Rightarrow> go_error option \<times> os" where
  "Write path p d s =
     (case faults s Write_op path of
        Some e \<Rightarrow> (Some (PathError ''write'' path e), s)
      | None \<Rightarrow> (None, set_file p d s))"

definition WriteFile :: "string \<Rightarrow> string \<Rightarrow> os \<Rightarrow> go_error option \<times> os" where
  "WriteFile path d s =
     (case Create path s of Inl e \<Rightarrow> (Some e, s) | Inr (p, s') \<Rightarrow> Write path p d s')"

definition Stat :: "string \<Rightarrow> os \<Rightarrow> go_error + node" where
  "Stat path s =
     (case resolve s path of
        Inl e \<Rightarrow> Inl (PathError ''stat'' path e)
      | Inr p \<Rightarrow>
          (case faults s Stat_op path of
             Some e \<Rightarrow> Inl (PathError ''stat'' path e)
           | None \<Rightarrow>
               (case lookup s p of
                  None \<Rightarrow> Inl (PathError ''stat'' path ENOENT)
                | Some n \<Rightarrow> Inr n)))"

definition Getwd :: "os \<Rightarrow> go_error + string" where
  "Getwd s =
     (case faults s Getwd_op [] of
        Some e \<Rightarrow> Inl (PathError ''getwd'' [] e)
      | None \<Rightarrow> Inr (cwd s))"

fun join_path :: "string list \<Rightarrow> string" where
  "join_path [] = []"
| "join_path [c] = c"
| "join_path (c # cs) = c @ ''/'' @ join_path cs"

text \<open>\<open>filepath.WalkDir\<close> with the callback both servers pass: the relative paths of the regular
  files, in order; a directory that cannot be read ends the walk with the error.\<close>

fun walk_entries :: "string \<Rightarrow> string list \<Rightarrow> os \<Rightarrow> fpath list \<Rightarrow> go_error + string list" where
  "walk_entries root d s [] = Inr []"
| "walk_entries root d s (p # ps) =
     (let rel = drop (length d) (names p) in
      case lookup s (names p) of
        Some (File c) \<Rightarrow> map_sum id (Cons (join_path rel)) (walk_entries root d s ps)
      | _ \<Rightarrow>
          (let path = join_path (root # rel) in
           case faults s List_op path of
             Some e \<Rightarrow> Inl (PathError ''open'' path e)
           | None \<Rightarrow> walk_entries root d s ps))"

definition list_files :: "string \<Rightarrow> os \<Rightarrow> go_error + string list" where
  "list_files root s =
     (case resolve s root of
        Inl e \<Rightarrow> Inl (PathError ''lstat'' root e)
      | Inr d \<Rightarrow>
          (case lookup s d of
             None \<Rightarrow> Inl (PathError ''lstat'' root ENOENT)
           | Some (File c) \<Rightarrow> Inr [''.'']
           | Some Directory \<Rightarrow>
               walk_entries root d s (FPath d # sort (filter (below d) (map fst (tree s))))))"

subsection \<open>Laws\<close>

lemma lookup_set_file:
  "lookup (set_file p d s) q = (if q = p \<and> p \<noteq> [] then Some (File d) else lookup s q)"
proof -
  have "map_of (filter (\<lambda>(r, n). r \<noteq> a) xs) b = (if b = a then None else map_of xs b)"
    for a b and xs :: "(fpath \<times> node) list"
    by (induction xs) auto
  then show ?thesis by (auto simp: lookup_def set_file_def)
qed

lemma set_file_fields [simp]:
  "cwd (set_file p d s) = cwd s" "faults (set_file p d s) = faults s"
  by (simp_all add: set_file_def)

lemma Create_frame:
  assumes "Create path s = Inr (p, s')"
  shows "s' = set_file p [] s" and "resolve s path = Inr p" and "p \<noteq> []"
    and "lookup s p = None \<or> (\<exists>d. lookup s p = Some (File d))"
    and "lookup s p = None \<Longrightarrow> lookup s (butlast p) = Some Directory"
proof -
  obtain r where r: "resolve s path = Inr r"
    using assms by (cases "resolve s path") (auto simp: Create_def)
  have f: "faults s Create_op path = None"
    using assms r by (cases "faults s Create_op path") (auto simp: Create_def)
  consider "lookup s r = None" "lookup s (butlast r) = Some Directory" | d where "lookup s r = Some (File d)"
    using assms r f
    by (cases "lookup s r"; cases "the (lookup s r)") (auto simp: Create_def split: if_splits)
  then have "s' = set_file p [] s \<and> resolve s path = Inr p \<and> p \<noteq> []
      \<and> (lookup s p = None \<or> (\<exists>d. lookup s p = Some (File d)))
      \<and> (lookup s p = None \<longrightarrow> lookup s (butlast p) = Some Directory)"
    using assms r f by cases (auto simp: Create_def lookup_def split: if_splits)
  then show "s' = set_file p [] s" "resolve s path = Inr p" "p \<noteq> []"
    "lookup s p = None \<or> (\<exists>d. lookup s p = Some (File d))"
    "lookup s p = None \<Longrightarrow> lookup s (butlast p) = Some Directory"
    by blast+
qed

lemma Write_frame:
  assumes "Write path p d s = (err, s')"
  shows "s' = (if err = None then set_file p d s else s)"
  using assms by (auto simp: Write_def split: option.splits)

lemma tree_ok_set_file:
  assumes "tree_ok s" "p \<noteq> []" "lookup s p \<noteq> Some Directory"
    and "lookup s (butlast p) = Some Directory"
  shows "tree_ok (set_file p d s)"
proof -
  have keep: "lookup (set_file p d s) q = Some Directory" if "lookup s q = Some Directory" for q
    using that assms(3) by (auto simp: lookup_set_file)
  have entry: "(q, n) \<in> set (tree (set_file p d s)) \<Longrightarrow> (q, n) \<in> set (tree s) \<or> (q = FPath p)" for q n
    by (auto simp: set_file_def)
  have "distinct (map fst (tree (set_file p d s)))"
    using assms(1) by (auto simp: tree_ok_def set_file_def intro: distinct_map_filter)
  moreover have "\<forall>(q, n) \<in> set (tree (set_file p d s)).
      names q \<noteq> [] \<and> lookup (set_file p d s) (butlast (names q)) = Some Directory"
  proof clarify
    fix q n assume "(q, n) \<in> set (tree (set_file p d s))"
    from entry [OF this] show "names q \<noteq> [] \<and> lookup (set_file p d s) (butlast (names q)) = Some Directory"
    proof
      assume "(q, n) \<in> set (tree s)"
      with assms(1) have "names q \<noteq> [] \<and> lookup s (butlast (names q)) = Some Directory"
        unfolding tree_ok_def by blast
      then show ?thesis using keep by blast
    next
      assume "q = FPath p"
      then show ?thesis using assms(2) keep [OF assms(4)] by simp
    qed
  qed
  ultimately show ?thesis unfolding tree_ok_def by blast
qed

lemma tree_ok_parent:
  assumes "tree_ok s" "lookup s p = Some n" "p \<noteq> []"
  shows "lookup s (butlast p) = Some Directory"
proof -
  have "(FPath p, n) \<in> set (tree s)"
    using assms(2,3) by (simp add: lookup_def map_of_SomeD)
  with assms(1) have "lookup s (butlast (names (FPath p))) = Some Directory"
    unfolding tree_ok_def by blast
  then show ?thesis by simp
qed

end
