(* ===== verification/Httpfs_Handler.thy ===== *)
theory Httpfs_Handler
  imports Http_Message File_System
begin

section \<open>The file server's requests (lab3/httpfs/httpfs.go, from makeResponse on)\<close>

text \<open>
  From the bytes of a request to the bytes of the response: parsing, the GET and POST handlers, and
  the responses they build.  The package variable \<open>workingDirectory\<close> and the time the response is
  made (the text after \<open>Date:\<close>) are arguments.
\<close>

subsection \<open>Responses\<close>

text \<open>\<open>json.Marshal\<close> on a string of valid UTF-8 (without U+2028 and U+2029).\<close>

definition hex_digit :: "nat \<Rightarrow> char" where
  "hex_digit n = (if n < 10 then char_of (48 + n) else char_of (87 + n))"

definition json_char :: "char \<Rightarrow> string" where
  "json_char c =
     (let n = of_char c :: nat in
      if c = CHR 0x22 \<or> c = CHR 0x5C then [CHR 0x5C, c]
      else if c = CHR 0x0A then [CHR 0x5C, CHR ''n'']
      else if c = CHR 0x0D then [CHR 0x5C, CHR ''r'']
      else if c = CHR 0x09 then [CHR 0x5C, CHR ''t'']
      else if n < 32 \<or> c \<in> set ''<>&''
      then CHR 0x5C # ''u00'' @ [hex_digit (n div 16), hex_digit (n mod 16)]
      else [c])"

definition json_string :: "string \<Rightarrow> string" where
  "json_string s = [CHR 0x22] @ concat (map json_char s) @ [CHR 0x22]"

fun json_items :: "string list \<Rightarrow> string" where
  "json_items [] = []"
| "json_items [s] = json_string s"
| "json_items (s # ss) = json_string s @ '','' @ json_items ss"

record fileListResponse =
  Files :: "string list"

record errorResponse =
  error_text :: string

definition marshal_files :: "fileListResponse \<Rightarrow> string" where
  "marshal_files r = ''{'' @ json_string ''files'' @ '':['' @ json_items (Files r) @ '']}''"

definition marshal_error :: "errorResponse \<Rightarrow> string" where
  "marshal_error r = ''{'' @ json_string ''error'' @ '':'' @ json_string (error_text r) @ ''}''"

definition response_text :: "string \<Rightarrow> nat \<Rightarrow> string \<Rightarrow> string \<Rightarrow> string \<Rightarrow> string" where
  "response_text date httpCode contentType contentDisposition body =
     ''HTTP/1.1 '' @ itoa httpCode @ '' '' @ StatusText httpCode @ CRLF
     @ ''Date: '' @ date @ CRLF
     @ (if body \<noteq> [] then
          ''Content-Type: '' @ contentType @ CRLF
          @ (if contentDisposition \<noteq> [] then ''Content-Disposition: '' @ contentDisposition @ CRLF else [])
          @ ''Content-Length: '' @ itoa (length body) @ HttpRequestHeaderEnd @ body
        else HttpRequestHeaderEnd)"

definition makeResponse :: "string \<Rightarrow> nat \<Rightarrow> string \<Rightarrow> string \<Rightarrow> string \<Rightarrow> bytes" where
  "makeResponse date httpCode contentType contentDisposition body =
     bytes_of (response_text date httpCode contentType contentDisposition body)"

definition packetErrorReponse :: "string \<Rightarrow> nat \<Rightarrow> go_error \<Rightarrow> bytes" where
  "packetErrorReponse date httpStatusCode err =
     makeResponse date httpStatusCode ''application/json'' [] (marshal_error \<lparr>error_text = Error err\<rparr>)"

subsection \<open>Handlers\<close>

definition handleGet :: "string \<Rightarrow> string \<Rightarrow> request \<Rightarrow> os \<Rightarrow> bytes \<times> go_error option" where
  "handleGet wd date req s =
     (if Path (URL req) = [] then
        (case list_files wd s of
           Inl err \<Rightarrow> (packetErrorReponse date 500 err, Some err)
         | Inr fs \<Rightarrow>
             (makeResponse date 200 ''application/json'' [] (marshal_files \<lparr>Files = fs\<rparr>), None))
      else
        (case ReadFile (wd @ ''/'' @ drop 1 (Path (URL req))) s of
           Inl err \<Rightarrow>
             if IsNotExist err then (packetErrorReponse date 404 err, Some err)
             else (packetErrorReponse date 500 err, Some err)
         | Inr file \<Rightarrow>
             (makeResponse date 200 ''text/plain''
                (''attachment; filename='' @ drop 1 (Path (URL req))) file, None)))"

definition verifyFilePath :: "string \<Rightarrow> bool" where
  "verifyFilePath s = (if str_contains s ''..'' then False else True)"

text \<open>\<open>req.URL.Path[1:]\<close> panics on an empty path; the first use of it is the call of
  \<open>verifyFilePath\<close>.  The error returned beside the answer to an invalid path is the nil \<open>err\<close>.\<close>

definition handlePost ::
    "string \<Rightarrow> string \<Rightarrow> request \<Rightarrow> os \<Rightarrow> (os \<times> bytes \<times> go_error option) go" where
  "handlePost wd date req s =
     (case ReadAll (Body req) of
        Inl e \<Rightarrow> Inr (s, packetErrorReponse date 500 (Errorf e), Some (Errorf e))
      | Inr b \<Rightarrow>
          go_bind (go_slice (Path (URL req)) 1 (length (Path (URL req)))) (\<lambda>name.
            if \<not> verifyFilePath name then
              Inr (s, packetErrorReponse date 500 (Errorf (''invalid file path: '' @ name)), None)
            else
              (case Create (wd @ ''/'' @ name) s of
                 Inl err \<Rightarrow> Inr (s, packetErrorReponse date 500 err, Some err)
               | Inr (f, s1) \<Rightarrow>
                   (case Write (wd @ ''/'' @ name) f b s1 of
                      (Some err, s2) \<Rightarrow> Inr (s2, packetErrorReponse date 500 err, Some err)
                    | (None, s2) \<Rightarrow> Inr (s2, makeResponse date 201 [] [] [], None)))))"

subsection \<open>Requests\<close>

text \<open>
  Without the end of a header in the message \<open>request\<close> stays nil, and its \<open>Header\<close> is followed all
  the same.
\<close>

definition parseHttpRequest :: "bytes \<Rightarrow> (go_error + request) go" where
  "parseHttpRequest req =
     (let tmp = string_of req; at = str_index tmp HttpRequestHeaderEnd in
      case (case at of
              None \<Rightarrow> Inr None
            | Some i \<Rightarrow>
                (case ReadRequest (take i tmp @ HttpRequestHeaderEnd) of
                   Inl e \<Rightarrow> Inl (Errorf e)
                 | Inr r \<Rightarrow> Inr (Some r))) of
        Inl e \<Rightarrow> Inr (Inl e)
      | Inr request \<Rightarrow>
          go_bind (deref request) (\<lambda>r.
            let body = (case at of None \<Rightarrow> tmp | Some i \<Rightarrow> drop (i + length HttpRequestHeaderEnd) tmp)
            in if header_get ''Content-Length'' (Header r) = itoa (length body)
               then Inr (Inr (r\<lparr>Body := Whole body\<rparr>))
               else Inr (Inr r)))"

definition handleRequest ::
    "string \<Rightarrow> string \<Rightarrow> bytes \<Rightarrow> os \<Rightarrow> (os \<times> bytes \<times> go_error option) go" where
  "handleRequest wd date req s =
     go_bind (parseHttpRequest req) (\<lambda>parsed.
       case parsed of
         Inl err \<Rightarrow> Inr (s, [], Some err)
       | Inr request \<Rightarrow>
           if Method request = ''GET'' then
             (case handleGet wd date request s of (response, err) \<Rightarrow> Inr (s, response, err))
           else if Method request = ''POST'' then handlePost wd date request s
           else Inr (s, [], Some (Errorf (''Unsupported request '' @ string_of req))))"

text \<open>The start of \<open>main\<close>: the directory the server reads and writes.\<close>

definition start_directory :: "string \<Rightarrow> os \<Rightarrow> string + string" where
  "start_directory directory s =
     (case Getwd s of
        Inl err \<Rightarrow> Inl (''failed to use working directory '' @ Error err)
      | Inr wd \<Rightarrow>
          if directory \<noteq> [] then
            (case Stat (wd @ directory) s of
               Inl err \<Rightarrow>
                 if IsNotExist err then Inl (''failed to use working directory '' @ Error err)
                 else Inr (wd @ directory)
             | Inr n \<Rightarrow> Inr (wd @ directory))
          else Inr wd)"

subsection \<open>Where a request can write\<close>

lemma resolve_inside:
  assumes root: "resolve s wd = Inr root" and r: "resolve s (wd @ ''/'' @ name) = Inr p"
  shows "walk s root (path_comps name) = Inr p"
proof -
  have "wd \<noteq> []" using root by (auto simp: resolve_def split: if_splits)
  then have "absolute s (wd @ ''/'' @ name) = absolute s wd @ CHR ''/'' # name"
    by (cases wd) (simp_all add: absolute_def)
  then have "path_comps (absolute s (wd @ ''/'' @ name)) = path_comps (absolute s wd) @ path_comps name"
    by (simp add: path_comps_append)
  with root r show ?thesis
    by (auto simp: resolve_def walk_append split: if_splits sum.splits)
qed

lemma resolve_below:
  assumes root: "resolve s wd = Inr root" and r: "resolve s (wd @ ''/'' @ name) = Inr p"
    and safe: "verifyFilePath name"
  shows "p = root @ filter (\<lambda>c. c \<noteq> ''.'') (path_comps name)"
proof (rule walk_forward [OF resolve_inside [OF root r]])
  show "''..'' \<notin> set (path_comps name)"
    using safe by (intro no_dotdot_comps) (simp add: verifyFilePath_def split: if_splits)
qed

lemma create_below:
  assumes "resolve s wd = Inr root" "lookup s root = Some Directory" "verifyFilePath name"
    and "Create (wd @ ''/'' @ name) s = Inr (p, s1)"
  shows "below root (FPath p)"
proof -
  note c = Create_frame [OF assms(4)]
  have p: "p = root @ filter (\<lambda>c. c \<noteq> ''.'') (path_comps name)"
    by (rule resolve_below [OF assms(1) c(2) assms(3)])
  moreover have "p \<noteq> root" using c(4) assms(2) by auto
  ultimately show ?thesis by (auto simp: below_def)
qed

lemma handlePost_cases:
  assumes "handlePost wd date req s = Inr (s', response, err)"
  obtains (unchanged) "s' = s"
  | (created) name p d s1 where "verifyFilePath name" "Create (wd @ ''/'' @ name) s = Inr (p, s1)"
      "s' = set_file p d s"
proof -
  let ?name = "drop 1 (Path (URL req))"
  consider "s' = s"
    | p s1 b e where "verifyFilePath ?name" "Create (wd @ ''/'' @ ?name) s = Inr (p, s1)"
      "Write (wd @ ''/'' @ ?name) p b s1 = (e, s')"
    using assms
    by (auto simp: handlePost_def go_slice_def split: sum.splits if_splits option.splits prod.splits)
  then show ?thesis
  proof cases
    case 2
    note c = Create_frame [OF 2(2)]
    have twice: "set_file p b (set_file p [] s) = set_file p b s"
      by (simp add: set_file_def)
    have "s' = set_file p b s \<or> s' = set_file p [] s"
      using Write_frame [OF 2(3)] c(1) twice by (cases e) auto
    with 2(1,2) created show ?thesis by blast
  qed (rule unchanged)
qed

lemma handleRequest_cases:
  assumes "handleRequest wd date req s = Inr (s', response, err)"
  obtains (unchanged) "s' = s" | (post) r where "handlePost wd date r s = Inr (s', response, err)"
proof -
  obtain parsed where parsed: "parseHttpRequest req = Inr parsed"
    using assms by (cases "parseHttpRequest req") (auto simp: handleRequest_def)
  show ?thesis
  proof (cases parsed)
    case (Inl e)
    with assms parsed show ?thesis by (intro unchanged) (simp add: handleRequest_def)
  next
    case (Inr r)
    consider "Method r = ''GET''" | "Method r = ''POST''" | "Method r \<noteq> ''GET'' \<and> Method r \<noteq> ''POST''"
      by blast
    then show ?thesis
      using assms parsed Inr
      by cases (auto simp: handleRequest_def split: prod.splits intro: unchanged post)
  qed
qed

subsection \<open>Reading back\<close>

lemma walk_keeps:
  assumes "walk s cur cs = Inr p"
    and "\<And>q. lookup s q = Some Directory \<Longrightarrow> lookup s' q = Some Directory"
  shows "walk s' cur cs = Inr p"
  using assms(1)
proof (induction cs arbitrary: cur)
  case (Cons c cs)
  then have "lookup s cur = Some Directory"
    by (auto split: option.splits node.splits)
  with Cons assms(2) show ?case by auto
qed simp

lemma ReadFile_created:
  assumes "Create path s = Inr (p, s1)" "faults s = no_faults"
  shows "ReadFile path (set_file p d s) = Inr d"
proof -
  note c = Create_frame [OF assms(1)]
  have "lookup s q = Some Directory \<Longrightarrow> lookup (set_file p d s) q = Some Directory" for q
    using c(4) by (auto simp: lookup_set_file)
  with c(2) have "resolve (set_file p d s) path = Inr p"
    by (auto simp: resolve_def absolute_def intro: walk_keeps split: if_splits)
  moreover have "\<not> trailing_slash path"
    using assms(1) c(2,4) by (auto simp: Create_def split: option.splits if_splits)
  ultimately show ?thesis
    using c(3) assms(2) by (simp add: ReadFile_def open_read_def lookup_set_file no_faults_def)
qed

lemma walk_entries_ok:
  assumes "\<And>path. faults s List_op path = None"
  shows "walk_entries root d s ps =
    Inr (map (\<lambda>p. join_path (drop (length d) (names p)))
          (filter (\<lambda>p. \<exists>c. lookup s (names p) = Some (File c)) ps))"
proof (induction ps)
  case (Cons p ps)
  show ?case
  proof (cases "\<exists>c. lookup s (names p) = Some (File c)")
    case True
    then show ?thesis by (auto simp: Cons.IH)
  next
    case False
    then have "walk_entries root d s (p # ps) = walk_entries root d s ps"
      using assms by (auto simp: Let_def split: option.splits node.splits)
    with False Cons.IH show ?thesis by simp
  qed
qed simp

subsection \<open>Examples\<close>

text \<open>A small tree: \<open>/srv\<close> with a file and a directory, and a file beside it.\<close>

definition example_os :: os where
  "example_os =
     \<lparr>tree = [(FPath [''srv''], Directory), (FPath [''srv'', ''b.txt''], File ''bee''),
              (FPath [''srv'', ''a''], Directory), (FPath [''srv'', ''a'', ''c''], File ''sea''),
              (FPath [''key''], File ''secret'')],
      cwd = ''/srv'', faults = no_faults\<rparr>"

definition example_url :: "string \<Rightarrow> url" where
  "example_url path = \<lparr>Scheme = ''http'', Host = ''127.0.0.1:8007'', Path = path, Opaque = []\<rparr>"

lemma example_os_facts [simp]:
  "resolve example_os ''/srv'' = Inr [''srv'']"
  "lookup example_os [''srv''] = Some Directory"
  "lookup example_os [''key''] = Some (File ''secret'')"
  "lookup example_os [''srv'', ''b.txt''] = Some (File ''bee'')"
  "lookup example_os [''srv'', ''x''] = None"
  "lookup example_os [] = Some Directory"
  "faults example_os = no_faults"
  "tree_ok example_os"
  by (simp_all add: example_os_def resolve_def absolute_def path_comps_def lookup_def tree_ok_def)

subsection \<open>Properties\<close>

text \<open>
  C13. A request can only write below the working directory: whatever bytes arrive, and whatever
  operation of the file system fails, everything that is not strictly below the directory is as
  it was, and the file system stays well-formed.
\<close>

theorem request_confined:
  assumes "tree_ok s" "resolve s wd = Inr root" "lookup s root = Some Directory"
    and "handleRequest wd date req s = Inr (s', response, err)"
  shows "tree_ok s' \<and> (\<forall>p. \<not> below root (FPath p) \<longrightarrow> lookup s' p = lookup s p)"
proof (cases rule: handleRequest_cases [OF assms(4)])
  case (2 r)
  then show ?thesis
  proof (cases rule: handlePost_cases)
      case (created name p d s1)
      note c = Create_frame [OF created(2)]
      have "lookup s (butlast p) = Some Directory"
        using c(3,4,5) tree_ok_parent [OF assms(1), of p] by blast
      then have "tree_ok s'"
        unfolding created(3) using c(3,4) by (intro tree_ok_set_file [OF assms(1)]) auto
      with create_below [OF assms(2,3) created(1,2)] created(3) show ?thesis
        by (auto simp: lookup_set_file)
  qed (simp add: assms(1))
qed (simp add: assms(1))

theorem request_confined_witness:
  "\<exists>s' response err. handleRequest ''/srv'' ''now'' (bytes_of (''POST /x HTTP/1.0'' @ HttpRequestHeaderEnd)) example_os
      = Inr (s', response, err)
    \<and> tree_ok s' \<and> lookup s' [''key''] = Some (File ''secret'')"
proof -
  have "case handleRequest ''/srv'' ''now'' (bytes_of (''POST /x HTTP/1.0'' @ HttpRequestHeaderEnd)) example_os
      of Inl e \<Rightarrow> False | Inr x \<Rightarrow> True"
    by code_simp
  then obtain s' response err where
    r: "handleRequest ''/srv'' ''now'' (bytes_of (''POST /x HTTP/1.0'' @ HttpRequestHeaderEnd)) example_os
      = Inr (s', response, err)"
    by (auto split: sum.splits)
  from request_confined [OF _ _ _ r] r show ?thesis by (auto simp: below_def)
qed

text \<open>
  C23. When the server panics in a request, and when it answers nothing: a message without the end
  of a header stops it with a nil dereference; one whose header does not parse is answered with
  nothing; otherwise it stops exactly on a POST to an empty path whose body can be read.
\<close>

theorem request_outcomes:
  "case str_index (string_of req) HttpRequestHeaderEnd of
      None \<Rightarrow> handleRequest wd date req s = Inl Nil_deref
    | Some i \<Rightarrow>
        (case ReadRequest (take i (string_of req) @ HttpRequestHeaderEnd) of
           Inl e \<Rightarrow> handleRequest wd date req s = Inr (s, [], Some (Errorf e))
         | Inr r \<Rightarrow>
             (let body = drop (i + 4) (string_of req);
                  b = (if header_get ''Content-Length'' (Header r) = itoa (length body) then Whole body else Body r)
              in if Method r = ''POST'' \<and> Path (URL r) = [] \<and> (\<exists>d. ReadAll b = Inr d)
                 then handleRequest wd date req s = Inl Slice_bounds
                 else \<exists>res. handleRequest wd date req s = Inr res))"
proof (cases "str_index (string_of req) HttpRequestHeaderEnd")
  case None
  then show ?thesis by (simp add: handleRequest_def parseHttpRequest_def)
next
  case (Some i)
  show ?thesis
  proof (cases "ReadRequest (take i (string_of req) @ HttpRequestHeaderEnd)")
    case (Inl e)
    with Some show ?thesis by (simp add: handleRequest_def parseHttpRequest_def)
  next
    case (Inr r)
    define body where "body = drop (i + 4) (string_of req)"
    define r' where "r' = (if header_get ''Content-Length'' (Header r) = itoa (length body)
        then r\<lparr>Body := Whole body\<rparr> else r)"
    have eq: "handleRequest wd date req s =
        (if Method r' = ''GET'' then
           (case handleGet wd date r' s of (response, err) \<Rightarrow> Inr (s, response, err))
         else if Method r' = ''POST'' then handlePost wd date r' s
         else Inr (s, [], Some (Errorf (''Unsupported request '' @ string_of req))))"
      using Some Inr by (simp add: handleRequest_def parseHttpRequest_def r'_def body_def)
    have r': "Method r' = Method r" "URL r' = URL r"
      "Body r' = (if header_get ''Content-Length'' (Header r) = itoa (length body) then Whole body else Body r)"
      by (simp_all add: r'_def)
    have post: "(if Path (URL r) = [] \<and> (\<exists>d. ReadAll (Body r') = Inr d)
        then handlePost wd date r' s = Inl Slice_bounds else \<exists>res. handlePost wd date r' s = Inr res)"
      by (auto simp: handlePost_def r' go_slice_def Suc_le_eq split: sum.splits option.splits prod.splits)
    then show ?thesis
      using Some Inr by (auto simp: eq r' simp flip: body_def split: prod.splits)
  qed
qed

text \<open>
  C24. The listing: a GET with an empty path, when every directory can be read, is answered with
  the JSON list of the files below the working directory and nothing else, each once, in the order
  of their paths.
\<close>

theorem listing_exact:
  assumes "tree_ok s" "resolve s wd = Inr root" "lookup s root = Some Directory"
    and "\<And>path. faults s List_op path = None" "Path (URL req) = []"
  shows "\<exists>ps. handleGet wd date req s =
       (makeResponse date 200 ''application/json'' []
          (marshal_files \<lparr>Files = map (\<lambda>p. join_path (drop (length root) (names p))) ps\<rparr>), None)
     \<and> sorted ps \<and> distinct ps
     \<and> set ps = {p. below root p \<and> (\<exists>c. lookup s (names p) = Some (File c))}"
proof -
  define qs where "qs = sort (filter (below root) (map fst (tree s)))"
  define ps where "ps = filter (\<lambda>p. \<exists>c. lookup s (names p) = Some (File c)) qs"
  have "list_files wd s = Inr (map (\<lambda>p. join_path (drop (length root) (names p))) ps)"
    using assms(2,3) walk_entries_ok [OF assms(4)]
    by (simp add: list_files_def ps_def qs_def del: walk_entries.simps)
  moreover have "sorted ps" "distinct ps"
    using assms(1) by (simp_all add: ps_def qs_def sorted_wrt_filter tree_ok_def distinct_filter)
  moreover have "set ps = {p. below root p \<and> (\<exists>c. lookup s (names p) = Some (File c))}"
  proof -
    have "p \<in> fst ` set (tree s)" if "below root p" "lookup s (names p) = Some (File c)" for p c
      using that map_of_SomeD [of "tree s" p] by (force simp: lookup_def below_def split: if_splits)
    then show ?thesis by (auto simp: ps_def qs_def)
  qed
  ultimately show ?thesis using assms(5) by (auto simp: handleGet_def)
qed

theorem listing_exact_witness:
  "handleGet ''/srv'' ''now'' \<lparr>Method = ''GET'', URL = example_url [], Header = [], Body = NoBody\<rparr> example_os
     = (makeResponse ''now'' 200 ''application/json'' []
          (marshal_files \<lparr>Files = [''a/c'', ''b.txt'']\<rparr>), None)"
proof -
  let ?req = "\<lparr>Method = ''GET'', URL = example_url [], Header = [], Body = NoBody\<rparr>"
  have f: "faults example_os List_op path = None" for path by (simp add: no_faults_def)
  have p: "Path (URL ?req) = []" by (simp add: example_url_def)
  obtain ps where ps: "handleGet ''/srv'' ''now'' ?req example_os =
       (makeResponse ''now'' 200 ''application/json'' []
          (marshal_files \<lparr>Files = map (\<lambda>p. join_path (drop (length [''srv'']) (names p))) ps\<rparr>), None)"
    and l: "sorted ps" "distinct ps"
      "set ps = {p. below [''srv''] p \<and> (\<exists>c. lookup example_os (names p) = Some (File c))}"
    using listing_exact [OF example_os_facts(8,1,2) f p, of "''now''"] by blast
  have "{p. below [''srv''] p \<and> (\<exists>c. lookup example_os (names p) = Some (File c))}
      = set [FPath [''srv'', ''a'', ''c''], FPath [''srv'', ''b.txt'']]"
    by (auto simp: below_def lookup_def example_os_def split: if_splits)
  with l have "ps = [FPath [''srv'', ''a'', ''c''], FPath [''srv'', ''b.txt'']]"
    by (intro sorted_distinct_set_unique) (auto simp: less_eq_fpath_def)
  with ps show ?thesis by simp
qed

text \<open>
  What is posted can be read back: a POST whose body can be read, to a path without two dots
  on which the file can be created, when nothing fails, is answered with 201, sets the contents
  of that one file to the body, and a GET of the same path is then answered with 200 and exactly
  these contents.
\<close>

theorem post_then_get:
  assumes "Path (URL req) = ''/'' @ name" "verifyFilePath name" "ReadAll (Body req) = Inr d"
    and "Create (wd @ ''/'' @ name) s = Inr (p, s1)" "faults s = no_faults"
    and "Path (URL req') = ''/'' @ name"
  shows "handlePost wd date req s = Inr (set_file p d s, makeResponse date 201 [] [] [], None)
     \<and> handleGet wd date' req' (set_file p d s) =
         (makeResponse date' 200 ''text/plain'' (''attachment; filename='' @ name) d, None)"
proof -
  have "s1 = set_file p [] s" by (rule Create_frame(1) [OF assms(4)])
  then have "Write (wd @ ''/'' @ name) p d s1 = (None, set_file p d s)"
    using assms(5) by (simp add: Write_def no_faults_def set_file_def)
  moreover have "go_slice (''/'' @ name) 1 (length (''/'' @ name)) = Inr name"
    by (simp add: go_slice_def)
  moreover have "ReadFile (wd @ ''/'' @ name) (set_file p d s) = Inr d"
    by (rule ReadFile_created [OF assms(4,5)])
  ultimately show ?thesis
    using assms by (simp add: handlePost_def handleGet_def)
qed

theorem post_then_get_witness:
  "\<exists>s'. handlePost ''/srv'' ''now'' \<lparr>Method = ''POST'', URL = example_url ''/x'', Header = [], Body = Whole ''data''\<rparr>
        example_os = Inr (s', makeResponse ''now'' 201 [] [] [], None)
     \<and> handleGet ''/srv'' ''then'' \<lparr>Method = ''GET'', URL = example_url ''/x'', Header = [], Body = NoBody\<rparr> s'
        = (makeResponse ''then'' 200 ''text/plain'' ''attachment; filename=x'' ''data'', None)"
proof -
  have c: "Create (''/srv'' @ ''/'' @ ''x'') example_os =
      Inr ([''srv'', ''x''], set_file [''srv'', ''x''] [] example_os)"
    by (simp add: Create_def example_os_def resolve_def absolute_def path_comps_def lookup_def
        no_faults_def trailing_slash_def)
  have v: "verifyFilePath ''x''" by (simp add: verifyFilePath_def str_contains_def)
  show ?thesis
    using post_then_get [OF _ v _ c example_os_facts(7),
        of "\<lparr>Method = ''POST'', URL = example_url ''/x'', Header = [], Body = Whole ''data''\<rparr>" "''data''"
          "\<lparr>Method = ''GET'', URL = example_url ''/x'', Header = [], Body = NoBody\<rparr>" "''now''" "''then''"]
    by (simp add: example_url_def)
qed

text \<open>
  C34. A GET is not confined: \<open>handleGet\<close> does not call \<open>verifyFilePath\<close>, so from a working
  directory in any directory \<open>up\<close> the path \<open>/../name\<close> is answered with the contents of the file
  \<open>name\<close> in \<open>up\<close>, outside the working directory, while a POST to the path is refused.
\<close>

theorem get_escapes_directory:
  assumes "resolve s wd = Inr (up @ [x])" "lookup s (up @ [x]) = Some Directory"
    and "lookup s up = Some Directory" "lookup s (up @ [name]) = Some (File secret)"
    and "name \<noteq> []" "name \<noteq> ''.''" "name \<noteq> ''..''" "CHR ''/'' \<notin> set name" "CHR 0x00 \<notin> set name"
    and "faults s = no_faults" "Path (URL req) = ''/../'' @ name" "ReadAll (Body req) = Inr d"
  shows "\<not> below (up @ [x]) (FPath (up @ [name]))
     \<and> handleGet wd date req s =
         (makeResponse date 200 ''text/plain'' (''attachment; filename=../'' @ name) secret, None)
     \<and> (\<exists>response. handlePost wd date req s = Inr (s, response, None))"
proof -
  have wd: "wd \<noteq> []" "CHR 0x00 \<notin> set wd" and walk: "walk s [] (path_comps (absolute s wd)) = Inr (up @ [x])"
    using assms(1) by (auto simp: resolve_def split: if_splits)
  have "absolute s (wd @ ''/../'' @ name) = absolute s wd @ CHR ''/'' # ''..'' @ CHR ''/'' # name"
    using wd(1) by (cases wd) (simp_all add: absolute_def)
  then have "path_comps (absolute s (wd @ ''/../'' @ name)) =
      path_comps (absolute s wd) @ path_comps ''..'' @ path_comps name"
    by (simp only: path_comps_append)
  then have "path_comps (absolute s (wd @ ''/../'' @ name)) = path_comps (absolute s wd) @ [''..'', name]"
    using path_comps_single [OF assms(8,5)] by (simp add: path_comps_def)
  then have "resolve s (wd @ ''/../'' @ name) = Inr (up @ [name])"
    using assms wd walk by (simp add: resolve_def walk_append)
  moreover have "last name \<noteq> CHR ''/''"
    using assms(8) last_in_set [OF assms(5)] by metis
  then have "\<not> trailing_slash (wd @ ''/../'' @ name)"
    using assms(5) by (simp add: trailing_slash_def)
  ultimately have "ReadFile (wd @ ''/../'' @ name) s = Inr secret"
    using assms(4,10) by (simp add: ReadFile_def open_read_def no_faults_def)
  moreover have "\<not> verifyFilePath (''../'' @ name)"
    by (simp add: verifyFilePath_def str_contains_def)
  ultimately show ?thesis
    using assms(11,12) by (simp add: handleGet_def handlePost_def go_slice_def below_def)
qed

theorem get_escapes_directory_witness:
  "fst (handleGet ''/srv'' ''now''
      \<lparr>Method = ''GET'', URL = example_url ''/../key'', Header = [], Body = NoBody\<rparr> example_os)
    = makeResponse ''now'' 200 ''text/plain'' ''attachment; filename=../key'' ''secret''"
  using get_escapes_directory [of example_os "''/srv''" "[]" "''srv''" "''key''" "''secret''"
      "\<lparr>Method = ''GET'', URL = example_url ''/../key'', Header = [], Body = NoBody\<rparr>" "[]" "''now''"]
  by (simp add: example_url_def)

end
