(* ===== verification/Command_Line.thy ===== *)
theory Command_Line
  imports Url
begin

section \<open>Command lines (what the clients use of flag)\<close>

text \<open>
  Both clients read \<open>os.Args\<close> twice: \<open>flag.Parse\<close> with no flags defined, for the list of words, and a
  flag set with \<open>-v\<close>, \<open>-d\<close>, \<open>-f\<close>, \<open>-o\<close> and the repeatable \<open>-h\<close> on what follows the first word.
  An error of either ends the process.
\<close>

definition LF :: char where "LF = CHR 0x0A"

definition HT :: char where "HT = CHR 0x09"

fun join_lines :: "string list \<Rightarrow> string" where
  "join_lines [] = []"
| "join_lines [l] = l"
| "join_lines (l # ls) = l @ LF # join_lines ls"

type_synonym httpHeaderFlags = "string list"

text \<open>\<open>fmt.Sprint\<close> of the list, and the method the flag package calls for each \<open>-h\<close>.\<close>

fun join_spaces :: "string list \<Rightarrow> string" where
  "join_spaces [] = []"
| "join_spaces [x] = x"
| "join_spaces (x # xs) = x @ '' '' @ join_spaces xs"

definition headerFlags_String :: "httpHeaderFlags \<Rightarrow> string" where
  "headerFlags_String h = ''['' @ join_spaces h @ '']''"

definition headerFlags_Set :: "string \<Rightarrow> httpHeaderFlags \<Rightarrow> httpHeaderFlags" where
  "headerFlags_Set value h = h @ [value]"

record flags =
  fl_verbose :: bool
  fl_data :: string
  fl_file :: string
  fl_output :: string
  fl_headers :: httpHeaderFlags
  fl_args :: "string list"

definition default_flags :: flags where
  "default_flags =
     \<lparr>fl_verbose = False, fl_data = [], fl_file = [], fl_output = [], fl_headers = [], fl_args = []\<rparr>"

text \<open>\<open>strconv.ParseBool\<close>.\<close>

definition parse_bool :: "string \<Rightarrow> bool option" where
  "parse_bool s =
     (if s \<in> {''1'', ''t'', ''T'', ''TRUE'', ''true'', ''True''} then Some True
      else if s \<in> {''0'', ''f'', ''F'', ''FALSE'', ''false'', ''False''} then Some False
      else None)"

definition set_flag :: "string \<Rightarrow> string \<Rightarrow> flags \<Rightarrow> flags option" where
  "set_flag name v fl =
     (if name = ''v'' then map_option (\<lambda>b. fl\<lparr>fl_verbose := b\<rparr>) (parse_bool v)
      else if name = ''d'' then Some (fl\<lparr>fl_data := v\<rparr>)
      else if name = ''f'' then Some (fl\<lparr>fl_file := v\<rparr>)
      else if name = ''o'' then Some (fl\<lparr>fl_output := v\<rparr>)
      else if name = ''h'' then Some (fl\<lparr>fl_headers := headerFlags_Set v (fl_headers fl)\<rparr>)
      else None)"

definition is_flag :: "string \<Rightarrow> bool" where
  "is_flag s \<longleftrightarrow> 2 \<le> length s \<and> hd s = CHR ''-''"

text \<open>\<open>FlagSet.Parse\<close>: \<open>None\<close> is an error, after which \<open>flag.ExitOnError\<close> exits.\<close>

function parse_flags :: "string list \<Rightarrow> flags \<Rightarrow> flags option" where
  "parse_flags [] fl = Some (fl\<lparr>fl_args := []\<rparr>)"
| "parse_flags (s # rest) fl =
     (if \<not> is_flag s then Some (fl\<lparr>fl_args := s # rest\<rparr>)
      else if s = ''--'' then Some (fl\<lparr>fl_args := rest\<rparr>)
      else
        (let name = (if s ! 1 = CHR ''-'' then drop 2 s else drop 1 s) in
         if name = [] \<or> hd name = CHR ''-'' \<or> hd name = CHR ''='' then None
         else
           (case cut_at CHR ''='' name of
              Some (n, v) \<Rightarrow>
                (case set_flag n v fl of None \<Rightarrow> None | Some fl' \<Rightarrow> parse_flags rest fl')
            | None \<Rightarrow>
                if name = ''v'' then parse_flags rest (fl\<lparr>fl_verbose := True\<rparr>)
                else
                  (case rest of
                     [] \<Rightarrow> None
                   | v # rest' \<Rightarrow>
                       (case set_flag name v fl of
                          None \<Rightarrow> None
                        | Some fl' \<Rightarrow> parse_flags rest' fl')))))"
  by pat_completeness auto
termination
  by (relation "measure (length \<circ> fst)") auto

declare parse_flags.simps(2) [simp del]

text \<open>\<open>flag.Parse\<close> and \<open>flag.Args\<close> with no flag defined.\<close>

definition command_words :: "string list \<Rightarrow> string list option" where
  "command_words args =
     (case args of
        [] \<Rightarrow> Some []
      | s # rest \<Rightarrow>
          if \<not> is_flag s then Some (s # rest) else if s = ''--'' then Some rest else None)"

fun contains :: "string list \<Rightarrow> string \<Rightarrow> bool" where
  "contains [] e = False"
| "contains (a # s) e = (if a = e then True else contains s e)"

lemma contains_iff [simp]: "contains s e \<longleftrightarrow> e \<in> set s"
  by (induction s) auto

text \<open>What \<open>main\<close> gets of the command line: the words, the flags and the last argument.\<close>

definition read_args :: "string list \<Rightarrow> (string list \<times> flags \<times> string list) go" where
  "read_args args =
     (case command_words (drop 1 args) of
        None \<Rightarrow> Inl (Fatal ''exit status 2'')
      | Some commandLineInput \<Rightarrow>
          go_bind (go_slice args 2 (length args)) (\<lambda>rest.
            case parse_flags rest default_flags of
              None \<Rightarrow> Inl (Fatal ''exit status 2'')
            | Some fl \<Rightarrow> Inr (commandLineInput, fl, fl_args fl)))"

definition last_arg :: "string list \<Rightarrow> string go" where
  "last_arg args = go_index args (length args - 1)"

lemma parse_headers:
  assumes "\<not> is_flag url"
  shows "parse_flags (concat (map (\<lambda>h. [''-h'', h]) hs) @ [url]) fl =
    Some (fl\<lparr>fl_headers := fl_headers fl @ hs, fl_args := [url]\<rparr>)"
  using assms
proof (induction hs arbitrary: fl)
  case Nil
  then show ?case by (simp add: parse_flags.simps)
next
  case (Cons h hs)
  then show ?case
    by (simp add: parse_flags.simps(2) [of "''-h''"] is_flag_def cut_at_def set_flag_def headerFlags_Set_def)
qed

lemma parse_only_headers:
  "parse_flags (concat (map (\<lambda>h. [''-h'', h]) hs)) fl =
    Some (fl\<lparr>fl_headers := fl_headers fl @ hs, fl_args := []\<rparr>)"
proof (induction hs arbitrary: fl)
  case (Cons h hs)
  then show ?case
    by (simp add: parse_flags.simps(2) [of "''-h''"] is_flag_def cut_at_def set_flag_def headerFlags_Set_def)
qed simp

text \<open>What is left for \<open>Args\<close> is the end of the command line.\<close>

lemma parse_flags_step:
  assumes "parse_flags (s # rest) fl = Some fl'"
  obtains "fl_args fl' = s # rest" | "fl_args fl' = rest" | fl1 where "parse_flags rest fl1 = Some fl'"
    | v rest' fl1 where "rest = v # rest'" "parse_flags rest' fl1 = Some fl'"
proof (cases "is_flag s \<and> s \<noteq> ''--''")
  case False
  with assms show ?thesis
    by (cases "is_flag s") (use that(1,2) in \<open>auto simp: parse_flags.simps(2)\<close>)
next
  case True
  define name where "name = (if s ! 1 = CHR ''-'' then drop 2 s else drop 1 s)"
  note eq = assms [unfolded parse_flags.simps(2) Let_def, folded name_def]
  show ?thesis
  proof (cases "cut_at CHR ''='' name")
    case (Some nv)
    with eq True that(3) show ?thesis
      by (cases nv; cases "set_flag (fst nv) (snd nv) fl") (simp_all split: if_split_asm)
  next
    case None
    show ?thesis
    proof (cases "name = ''v''")
      case True
      with eq None \<open>is_flag s \<and> s \<noteq> ''--''\<close> that(3) show ?thesis by (simp split: if_split_asm)
    next
      case False
      with eq None True that(4) show ?thesis
        by (cases rest; cases "set_flag name (hd rest) fl") (simp_all split: if_split_asm)
    qed
  qed
qed

lemma parse_flags_rest:
  "parse_flags args fl = Some fl' \<Longrightarrow> \<exists>pre. args = pre @ fl_args fl'"
proof (induction args arbitrary: fl rule: length_induct)
  case (1 args)
  have IH: "\<exists>pre. ys = pre @ fl_args fl'" if "parse_flags ys fl1 = Some fl'" "length ys < length args" for ys fl1
    using "1.IH" that by blast
  show ?case
  proof (cases args)
    case Nil
    with "1.prems" show ?thesis by auto
  next
    case (Cons s rest)
    from "1.prems" [unfolded Cons] show ?thesis
    proof (cases rule: parse_flags_step)
      case 1
      with Cons show ?thesis by simp
    next
      case 2
      with Cons show ?thesis by (intro exI [of _ "[s]"]) simp
    next
      case (3 fl1)
      from IH [OF 3] Cons obtain pre where "rest = pre @ fl_args fl'" by auto
      with Cons show ?thesis by (intro exI [of _ "s # pre"]) simp
    next
      case (4 v rest' fl1)
      from IH [OF 4(2)] Cons 4(1) obtain pre where "rest' = pre @ fl_args fl'" by auto
      with Cons 4(1) show ?thesis by (intro exI [of _ "s # v # pre"]) simp
    qed
  qed
qed

end
