(* ===== verification/Httpc_Handler.thy ===== *)
theory Httpc_Handler
  imports Httpc Httpfs_Handler Command_Line
begin

section \<open>The client's requests (the rest of lab3/httpc/httpc.go)\<close>

text \<open>
  The requests the client writes, what it does with the response, and \<open>main\<close>.  The transport,
  \<open>c.send\<close>, is an argument \<open>send\<close> of the operations that use it: it is given the request and the
  state \<open>'w\<close> of whatever is at the other end, and returns the raw response.
\<close>

type_synonym 'w exchange = "url \<Rightarrow> bytes \<Rightarrow> 'w \<Rightarrow> (bytes \<times> 'w) go"

subsection \<open>Requests\<close>

definition header_lines :: "httpHeaderFlags \<Rightarrow> string" where
  "header_lines headers = concat (map (\<lambda>header. header @ CRLF) headers)"

definition get_text :: "string \<Rightarrow> string \<Rightarrow> string \<Rightarrow> httpHeaderFlags \<Rightarrow> string" where
  "get_text proto inputUrl host headers =
     ''GET '' @ inputUrl @ '' '' @ proto @ CRLF @ ''Host: '' @ host @ CRLF
     @ header_lines headers @ HttpRequestHeaderEnd"

definition post_text :: "string \<Rightarrow> string \<Rightarrow> string \<Rightarrow> httpHeaderFlags \<Rightarrow> string \<Rightarrow> string" where
  "post_text proto inputUrl host headers data =
     ''POST '' @ inputUrl @ '' '' @ proto @ CRLF @ ''Host: '' @ host @ CRLF
     @ header_lines headers
     @ ''Content-Length: '' @ itoa (length data) @ HttpRequestHeaderEnd @ data"

definition paresHttpResponse :: "bytes \<Rightarrow> string + response" where
  "paresHttpResponse rawRes = ReadResponse (string_of rawRes)"

definition client_get ::
    "'w exchange \<Rightarrow> HttpClient \<Rightarrow> string \<Rightarrow> httpHeaderFlags \<Rightarrow> 'w \<Rightarrow> ((string + response) \<times> bytes \<times> 'w) go" where
  "client_get send c inputUrl headers w =
     (case Parse inputUrl of
        None \<Rightarrow> Inl (Fatal ''[get][error]'')
      | Some u \<Rightarrow>
          go_bind (send u (bytes_of (get_text (c_proto c) inputUrl (Host u) headers)) w)
            (\<lambda>(rawRes, w'). Inr (paresHttpResponse rawRes, rawRes, w')))"

definition client_post ::
    "'w exchange \<Rightarrow> HttpClient \<Rightarrow> string \<Rightarrow> httpHeaderFlags \<Rightarrow> string \<Rightarrow> 'w
       \<Rightarrow> ((string + response) \<times> bytes \<times> 'w) go" where
  "client_post send c inputUrl headers data w =
     (case Parse inputUrl of
        None \<Rightarrow> Inl (Fatal ''[post][error]'')
      | Some u \<Rightarrow>
          go_bind (send u (bytes_of (post_text (c_proto c) inputUrl (Host u) headers data)) w)
            (\<lambda>(rawRes, w'). Inr (paresHttpResponse rawRes, rawRes, w')))"

definition validateUrl :: "string \<Rightarrow> bool go" where
  "validateUrl inputUrl =
     (case ParseRequestURI inputUrl of
        None \<Rightarrow> Inl (Fatal ''[validateUrl][error]'')
      | Some u \<Rightarrow> Inr True)"

subsection \<open>Responses\<close>

text \<open>The files after it and the line that was logged.\<close>

definition processHttpResponse ::
    "response \<Rightarrow> bytes \<Rightarrow> string \<Rightarrow> os \<Rightarrow> (os \<times> string option) go" where
  "processHttpResponse httpRes rawRes responseLog s =
     (if StatusCode httpRes = 200 then
        (case ReadAll (res_Body httpRes) of
           Inl err \<Rightarrow> Inl (Fatal (''[paresHttpResponse][error] '' @ err))
         | Inr body \<Rightarrow>
             if responseLog \<noteq> [] then
               (case WriteFile responseLog body s of
                  (Some err, s') \<Rightarrow> Inl (Fatal (''[paresHttpResponse][error] '' @ Error err))
                | (None, s') \<Rightarrow> Inr (s', None))
             else Inr (s, Some (''[paresHttpResponse] '' @ body)))
      else Inr (s, Some (''[paresHttpResponse] '' @ string_of rawRes)))"

definition loadDataFile :: "string \<Rightarrow> os \<Rightarrow> string go" where
  "loadDataFile file s =
     (case ReadFile file s of Inl err \<Rightarrow> Inl (Fatal (Error err)) | Inr contents \<Rightarrow> Inr contents)"

definition HandleGetRequest ::
    "'w exchange \<Rightarrow> HttpClient \<Rightarrow> string \<Rightarrow> httpHeaderFlags \<Rightarrow> string \<Rightarrow> os \<Rightarrow> 'w
       \<Rightarrow> (os \<times> string option \<times> 'w) go" where
  "HandleGetRequest send c url headers outputPath s w =
     go_bind (validateUrl url) (\<lambda>valid.
       if valid then
         go_bind (client_get send c url headers w) (\<lambda>(httpRes, resRaw, w').
           case httpRes of
             Inl err \<Rightarrow>
               Inr (s, Some (''[HandleGetRequest][error] response: '' @ string_of resRaw @ '', error: '' @ err), w')
           | Inr res \<Rightarrow>
               go_bind (processHttpResponse res resRaw outputPath s) (\<lambda>(s', log). Inr (s', log, w')))
       else Inr (s, Some (''[HandleGetRequest][error] invalid request url: '' @ url), w))"

definition HandlePostRequest ::
    "'w exchange \<Rightarrow> HttpClient \<Rightarrow> string \<Rightarrow> httpHeaderFlags \<Rightarrow> string \<Rightarrow> string \<Rightarrow> string \<Rightarrow> os \<Rightarrow> 'w
       \<Rightarrow> (os \<times> string option \<times> 'w) go" where
  "HandlePostRequest send c url headers data inputFilePath outputPath s w =
     (if data \<noteq> [] \<and> inputFilePath \<noteq> [] then Inl (Fatal ''cannot use [-d] and [-f] at same time'')
      else
        go_bind (validateUrl url) (\<lambda>valid.
          if valid then
            go_bind (if data = [] \<and> inputFilePath \<noteq> [] then loadDataFile inputFilePath s else Inr data)
              (\<lambda>data.
            go_bind (client_post send c url headers data w) (\<lambda>(httpRes, resRaw, w').
              case httpRes of
                Inl err \<Rightarrow>
                  Inr (s, Some (''[HandlePostRequest][error] response: '' @ string_of resRaw @ '', error: '' @ err), w')
              | Inr res \<Rightarrow>
                  go_bind (processHttpResponse res resRaw outputPath s) (\<lambda>(s', log). Inr (s', log, w'))))
          else Inr (s, None, w)))"

subsection \<open>main\<close>

definition HelpMsg :: string where
  "HelpMsg = join_lines
     [[], ''httpc help'',
      ''httpc is a curl-like application but supports HTTP protocol only.'',
      ''Usage:'',
      HT # ''httpc command [arguments]'',
      ''The commands are:'',
      HT # ''get     executes a HTTP GET request and prints the response.'',
      HT # ''post'' @ [HT] @ ''executes a HTTP POST request and prints the response.'',
      HT # ''help'' @ [HT] @ ''prints this screen.'',
      ''Use '' @ [CHR 0x22] @ ''httpc help [command]'' @ [CHR 0x22] @ '' for more information about a command.'']"

definition HelpGetMsg :: string where
  "HelpGetMsg = join_lines
     [[], ''httpc help get'', [],
      ''usage: httpc get [-v] [-h key:value] URL'', [],
      ''Get executes a HTTP GET request for a given URL.'',
      HT # ''-v'' @ [HT, HT, HT, HT]
        @ ''Prints the detail of the response such as protocol, status, and headers'',
      HT # ''-h key:value'' @ [HT]
        @ ''Associates headers to HTTP request with the format '' @ [CHR 0x27] @ ''key:value'' @ [CHR 0x27]]"

definition HelpPostMsg :: string where
  "HelpPostMsg = join_lines
     [[], ''httpc help post'', [],
      ''usage: httpc post [-v] [-h key:value] [-d inline-data] [-f file] URL'', [],
      ''Post executes a HTTP POST request for a given URL with inline data or from file.'',
      HT # ''-v'' @ [HT, HT, HT, HT]
        @ ''Prints the detail of the response such as protocol, status, and headers.'',
      HT # ''-h key:value'' @ [HT]
        @ ''Associates headers to HTTP Request with the format '' @ [CHR 0x27] @ ''key:value'' @ [CHR 0x27] @ ''.'',
      HT # ''-d string'' @ [HT, HT] @ ''Associates an inline data to the body HTTP POST request.'',
      HT # ''-f file'' @ [HT, HT, HT] @ ''Associates the content of a file to the body HTTP POST.'']"

text \<open>
  Up to the start of the goroutines: the command line, the client, the addresses.  \<open>resolver\<close> is
  \<open>net.ResolveUDPAddr\<close> with the name service behind it; the numeric constants do not need it.
\<close>

definition client_setup ::
    "(string \<Rightarrow> string + udp_addr) \<Rightarrow> string list
       \<Rightarrow> (HttpClient \<times> string list \<times> flags \<times> string) go" where
  "client_setup resolver args =
     go_bind (read_args args) (\<lambda>(commandLineInput, fl, rest).
     go_bind (last_arg rest) (\<lambda>requestUrl.
       case ResolveUDPAddr ''127.0.0.1:55341'' of
         Inl err \<Rightarrow> Inl (Fatal err)
       | Inr clientAddr \<Rightarrow>
         (case Parse requestUrl of
            None \<Rightarrow> Inl (Fatal (''parse '' @ requestUrl))
          | Some u \<Rightarrow>
            (case resolver (Host u) of
               Inl err \<Rightarrow> Inl (Fatal err)
             | Inr serverAddr \<Rightarrow>
               (case ResolveUDPAddr ''127.0.0.1:3000'' of
                  Inl err \<Rightarrow> Inl (Fatal err)
                | Inr routerAddr \<Rightarrow>
                    Inr (initHttpClient (fl_verbose fl) routerAddr serverAddr, commandLineInput, fl,
                         requestUrl))))))"

text \<open>After the handshake: what the first word asks for.  \<open>Spin\<close> is the empty loop at the end,
  which the GET and POST commands reach as well.\<close>

datatype command =
    Print_exit string
  | Get_request
  | Post_request
  | Spin

definition client_command :: "string list \<Rightarrow> command" where
  "client_command commandLineInput =
     (case commandLineInput of
        [] \<Rightarrow> Print_exit HelpMsg
      | word # _ \<Rightarrow>
          if word = ''help'' then
            if contains commandLineInput ''get'' then Print_exit HelpGetMsg
            else if contains commandLineInput ''post'' then Print_exit HelpPostMsg
            else Print_exit HelpMsg
          else if word = ''get'' then Get_request
          else if word = ''post'' then Post_request
          else Spin)"

definition client_run ::
    "'w exchange \<Rightarrow> HttpClient \<Rightarrow> string list \<Rightarrow> flags \<Rightarrow> string \<Rightarrow> os \<Rightarrow> 'w
       \<Rightarrow> (os \<times> string option \<times> 'w) go" where
  "client_run send c commandLineInput fl requestUrl s w =
     (case client_command commandLineInput of
        Print_exit text \<Rightarrow> Inl (Fatal text)
      | Get_request \<Rightarrow> HandleGetRequest send c requestUrl (fl_headers fl) (fl_output fl) s w
      | Post_request \<Rightarrow>
          HandlePostRequest send c requestUrl (fl_headers fl) (fl_data fl) (fl_file fl) (fl_output fl) s w
      | Spin \<Rightarrow> Inr (s, None, w))"

subsection \<open>Reading the client's requests\<close>

text \<open>
  A header given with \<open>-h\<close> that the server reads as one field, and not as one of the three fields
  it treats specially.
\<close>

definition field_of :: "string \<Rightarrow> string \<times> string" where
  "field_of l = the (parse_field (trim l))"

definition plain_header :: "string \<Rightarrow> bool" where
  "plain_header h \<longleftrightarrow> field_line h
     \<and> fst (field_of h) \<notin> {''Host'', ''Content-Length'', ''Transfer-Encoding''}"

lemma header_values_none:
  "(\<forall>f \<in> set h. fst f \<noteq> k) \<Longrightarrow> header_values k h = []"
  by (auto simp: header_values_def filter_empty_conv)

lemma header_del_none: "(\<forall>f \<in> set h. fst f \<noteq> k) \<Longrightarrow> header_del k h = h"
  by (auto simp: header_del_def filter_id_conv)

lemma plain_headers_keys:
  assumes "list_all plain_header hs" "k \<in> {''Host'', ''Content-Length'', ''Transfer-Encoding''}"
  shows "\<forall>f \<in> set (map field_of hs). fst f \<noteq> k"
  using assms by (auto simp: list_all_iff plain_header_def)

lemma tokens [simp]:
  "list_all token_char ''GET''" "list_all token_char ''POST''" "list_all token_char ''Host''"
  "list_all token_char ''Content-Length''" "list_all token_char ''Date''"
  "list_all token_char ''Content-Type''" "list_all token_char ''Content-Disposition''"
  by (simp_all add: token_char_def is_letter_def Let_def)

lemma host_line:
  assumes "plain_host host"
  shows "field_line (''Host: '' @ host)" and "field_of (''Host: '' @ host) = (''Host'', host)"
proof -
  have c: "\<not> is_blank c \<and> c \<noteq> CHR 0x0A" if "c \<in> set host" for c
    using plain_host_chars [OF assms that]
    by (auto simp: is_blank_def is_letter_def is_digit_def Let_def)
  have ne: "host \<noteq> []" using assms by (auto simp: plain_host_def)
  then have "\<not> is_blank (hd host)" "\<not> is_blank (last host)" "CHR 0x0A \<notin> set host"
    using c by auto
  from printed_field [OF _ tokens(3) ne this]
  show "field_line (''Host: '' @ host)" "field_of (''Host: '' @ host) = (''Host'', host)"
    by (simp_all add: field_of_def upper_char_def lower_char_def Let_def)
qed

lemma length_line:
  "field_line (''Content-Length: '' @ itoa n)"
  "field_of (''Content-Length: '' @ itoa n) = (''Content-Length'', itoa n)"
  using printed_field [OF _ tokens(4), of "itoa n"]
  by (simp_all add: field_of_def upper_char_def lower_char_def Let_def)

lemma plain_url_chars:
  assumes "plain_host host" "list_all plain_path_char path" "c \<in> set (http_url host path)"
  shows "c \<noteq> CHR '' ''" and "c \<noteq> CHR 0x0A"
proof -
  have "list_all plain_path_char ''http://''"
    by (simp add: plain_path_char_def is_ctl_def)
  with assms have "plain_path_char c"
    using plain_host_char_facts(2) [OF assms(1), of c] unfolding http_url_def list_all_iff set_append by blast
  then show "c \<noteq> CHR '' ''" "c \<noteq> CHR 0x0A"
    by (auto simp: plain_path_char_def is_ctl_def)
qed

lemma ReadRequest_message:
  assumes h: "plain_host host" and p: "path = [] \<or> take 1 path = ''/''" "list_all plain_path_char path"
    and m: "m \<noteq> []" "list_all token_char m" "m \<noteq> ''CONNECT''"
    and hs: "\<forall>l \<in> set hs. field_line l" "\<forall>f \<in> set (map field_of hs). fst f \<noteq> ''Host''"
  shows "ReadRequest (message ((m @ '' '' @ http_url host path @ '' HTTP/1.0'')
            # (''Host: '' @ host) # hs) []) =
     (case read_transfer False False (fixPragmaCacheControl (map field_of hs)) [] of
        Inl e \<Rightarrow> Inl e
      | Inr (h', b) \<Rightarrow>
          Inr \<lparr>Method = m, URL = \<lparr>Scheme = ''http'', Host = host, Path = path, Opaque = []\<rparr>,
               Header = h', Body = b\<rparr>)"
proof -
  let ?u = "http_url host path"
  let ?l = "m @ '' '' @ ?u @ '' HTTP/1.0''"
  have sp: "CHR '' '' \<notin> set ?u" and lf: "CHR 0x0A \<notin> set ?u"
    using plain_url_chars [OF h p(2)] by blast+
  have m_sp: "CHR '' '' \<notin> set m" "CHR 0x0A \<notin> set m"
    using m(2) by (auto simp: list_all_iff token_char_def is_letter_def is_digit_def)
  have line: "read_line (message (?l # (''Host: '' @ host) # hs) []) =
      Some (?l, message ((''Host: '' @ host) # hs) [])"
    unfolding message_simps(2) [of ?l] using m_sp lf by (intro read_line_CRLF) simp
  have "cut_at CHR '' '' ?l = Some (m, ?u @ '' HTTP/1.0'')"
    using cut_at_Some [OF m_sp(1), of "?u @ '' HTTP/1.0''"] by simp
  moreover have "cut_at CHR '' '' (?u @ '' HTTP/1.0'') = Some (?u, ''HTTP/1.0'')"
    using cut_at_Some [OF sp, of "''HTTP/1.0''"] by simp
  ultimately have req: "parseRequestLine ?l = Some (m, ?u, ''HTTP/1.0'')"
    by (simp add: parseRequestLine_def)
  have url: "request_url m ?u = Some \<lparr>Scheme = ''http'', Host = host, Path = path, Opaque = []\<rparr>"
    using m(3) url_parse_http [OF h p] by (simp add: request_url_def ParseRequestURI_def)
  have hdr: "read_header (message ((''Host: '' @ host) # hs) []) =
      Some ((''Host'', host) # map field_of hs, [])"
    using read_header_message [of "(''Host: '' @ host) # hs" "[]"] hs(1) host_line [OF h]
    by (simp add: field_of_def)
  have v: "ParseHTTPVersion ''HTTP/1.0'' = Some (1, 0)"
    by (simp add: ParseHTTPVersion_def is_digit_def digit_val_def)
  have host_once: "header_values ''Host'' ((''Host'', host) # map field_of hs) = [host]"
    using header_values_none [OF hs(2)] by (simp add: header_values_def)
  have del: "header_del ''Host'' (fixPragmaCacheControl ((''Host'', host) # map field_of hs)) =
      fixPragmaCacheControl (map field_of hs)"
    using header_del_none [OF fixPragma_absent [OF hs(2)]] by (simp add: fixPragma_Cons header_del_def)
  show ?thesis
    unfolding ReadRequest_def line option.case prod.case req url hdr v
    using m(1,2) host_once del by (simp add: at_least_11_def)
qed

lemma parse_message:
  assumes "ls \<noteq> []" "\<forall>l \<in> set ls. plain_line l" "ReadRequest (message ls []) = Inr r"
  shows "parseHttpRequest (bytes_of (message ls rest)) =
    Inr (Inr (if header_get ''Content-Length'' (Header r) = itoa (length rest)
              then r\<lparr>Body := Whole rest\<rparr> else r))"
  using message_end [OF assms(1,2), of rest] message_head [OF assms(1), of rest] assms(3)
  by (simp add: parseHttpRequest_def Let_def)

text \<open>The two requests as messages.\<close>

lemma get_text_message:
  "get_text proto url host headers =
     message ((''GET '' @ url @ '' '' @ proto) # (''Host: '' @ host) # headers) CRLF"
  by (simp add: get_text_def message_def header_lines_def HttpRequestHeaderEnd_def)

lemma post_text_message:
  "post_text proto url host headers data =
     message ((''POST '' @ url @ '' '' @ proto) # (''Host: '' @ host) # headers
              @ [''Content-Length: '' @ itoa (length data)]) data"
  by (simp add: post_text_def message_def header_lines_def HttpRequestHeaderEnd_def)

lemma request_line_plain:
  assumes "plain_host host" "list_all plain_path_char path" "m \<noteq> []" "list_all token_char m"
  shows "plain_line (m @ '' '' @ http_url host path @ '' HTTP/1.0'')"
  using assms plain_url_chars [OF assms(1,2)]
  by (auto simp: plain_line_def list_all_iff token_char_def is_letter_def is_digit_def)

lemma plain_headers_lines:
  assumes "list_all plain_header headers"
  shows "\<forall>l \<in> set headers. field_line l" and "\<forall>l \<in> set headers. plain_line l"
  using assms by (auto simp: list_all_iff plain_header_def field_line_def)

lemma get_parsed:
  assumes h: "plain_host host" and p: "path = [] \<or> take 1 path = ''/''" "list_all plain_path_char path"
    and hs: "list_all plain_header headers"
  shows "parseHttpRequest (bytes_of (get_text ''HTTP/1.0'' (http_url host path) host headers)) =
    Inr (Inr \<lparr>Method = ''GET'', URL = \<lparr>Scheme = ''http'', Host = host, Path = path, Opaque = []\<rparr>,
              Header = fixPragmaCacheControl (map field_of headers), Body = NoBody\<rparr>)"
proof -
  note keys = plain_headers_keys [OF hs]
  have "read_transfer False False (fixPragmaCacheControl (map field_of headers)) [] =
      Inr (fixPragmaCacheControl (map field_of headers), NoBody)"
    using header_values_none [OF keys] header_del_none [OF fixPragma_absent [OF keys]]
    by (simp add: read_transfer_def fixLength_def)
  moreover have "header_get ''Content-Length'' (map field_of headers) = []"
    using header_values_none [OF keys] by (simp add: header_get_def)
  moreover have "''GET'' @ '' '' @ s = ''GET '' @ s" for s by simp
  ultimately show ?thesis
    unfolding get_text_message
    using ReadRequest_message [OF h p _ tokens(1) _ plain_headers_lines(1) [OF hs]] keys
      request_line_plain [OF h p(2) _ tokens(1)] plain_headers_lines(2) [OF hs] host_line(1) [OF h]
    by (subst parse_message) (auto simp: field_line_def)
qed

lemma post_header:
  assumes h: "plain_host host" and p: "path = [] \<or> take 1 path = ''/''" "list_all plain_path_char path"
    and hs: "list_all plain_header headers" and size: "length data < 2 ^ 63"
    and ls: "ls = (''POST '' @ http_url host path @ '' HTTP/1.0'') # (''Host: '' @ host) # headers
              @ [''Content-Length: '' @ itoa (length data)]"
  shows "post_text ''HTTP/1.0'' (http_url host path) host headers data = message ls data"
    and "\<forall>l \<in> set ls. plain_line l"
    and "\<exists>b. ReadRequest (message ls []) =
      Inr \<lparr>Method = ''POST'', URL = \<lparr>Scheme = ''http'', Host = host, Path = path, Opaque = []\<rparr>,
           Header = fixPragmaCacheControl (map field_of headers @ [(''Content-Length'', itoa (length data))]), Body = b\<rparr>"
    and "header_get ''Content-Length'' (fixPragmaCacheControl (map field_of headers @ [(''Content-Length'', itoa (length data))]))
      = itoa (length data)"
proof -
  note keys = plain_headers_keys [OF hs]
  let ?cl = "''Content-Length: '' @ itoa (length data)"
  let ?h = "fixPragmaCacheControl (map field_of headers @ [(''Content-Length'', itoa (length data))])"
  have cl: "header_values ''Content-Length'' ?h = [itoa (length data)]"
    and te: "header_values ''Transfer-Encoding'' ?h = []"
    using header_values_none [OF keys]
    by (subst fixPragma_values; simp add: header_values_def)+
  have del: "header_del ''Transfer-Encoding'' ?h = ?h"
    using keys by (intro header_del_none fixPragma_absent) auto
  have "trim (itoa (length data)) = itoa (length data)" by (rule trim_plain) simp_all
  then have "fixLength ?h = Inr (Some (length data))"
    using cl size by (simp add: fixLength_def parseContentLength_def)
  then obtain b where "read_transfer False False ?h [] = Inr (?h, b)"
    using te del by (simp add: read_transfer_def)
  then show "\<exists>b. ReadRequest (message ls []) =
      Inr \<lparr>Method = ''POST'', URL = \<lparr>Scheme = ''http'', Host = host, Path = path, Opaque = []\<rparr>,
           Header = ?h, Body = b\<rparr>"
    using ReadRequest_message [OF h p _ tokens(2), of "headers @ [?cl]"] keys length_line
      plain_headers_lines(1) [OF hs] by (auto simp: ls)
  show "header_get ''Content-Length'' ?h = itoa (length data)"
    using cl by (simp add: header_get_def)
  show "\<forall>l \<in> set ls. plain_line l"
    using plain_headers_lines(2) [OF hs] request_line_plain [OF h p(2) _ tokens(2)] host_line(1) [OF h]
      length_line(1) by (auto simp: field_line_def ls)
  show "post_text ''HTTP/1.0'' (http_url host path) host headers data = message ls data"
    unfolding post_text_message ls by simp
qed

lemma post_parsed:
  assumes h: "plain_host host" and p: "path = [] \<or> take 1 path = ''/''" "list_all plain_path_char path"
    and hs: "list_all plain_header headers" and size: "length data < 2 ^ 63"
  shows "parseHttpRequest (bytes_of (post_text ''HTTP/1.0'' (http_url host path) host headers data)) =
    Inr (Inr \<lparr>Method = ''POST'', URL = \<lparr>Scheme = ''http'', Host = host, Path = path, Opaque = []\<rparr>,
              Header = fixPragmaCacheControl (map field_of headers @ [(''Content-Length'', itoa (length data))]),
              Body = Whole data\<rparr>)"
proof -
  note post = post_header [OF assms refl]
  let ?ls = "(''POST '' @ http_url host path @ '' HTTP/1.0'')
      # (''Host: '' @ host) # headers @ [''Content-Length: '' @ itoa (length data)]"
  from post(3) obtain r where r: "ReadRequest (message ?ls []) = Inr r"
    "r\<lparr>Body := Whole data\<rparr> = \<lparr>Method = ''POST'', URL = \<lparr>Scheme = ''http'', Host = host, Path = path, Opaque = []\<rparr>,
              Header = fixPragmaCacheControl (map field_of headers @ [(''Content-Length'', itoa (length data))]), Body = Whole data\<rparr>"
    "header_get ''Content-Length'' (Header r) = itoa (length data)"
    using post(4) by auto
  have "parseHttpRequest (bytes_of (message ?ls data)) = Inr (Inr
      (if header_get ''Content-Length'' (Header r) = itoa (length data) then r\<lparr>Body := Whole data\<rparr> else r))"
    by (rule parse_message [OF _ post(2) r(1)]) simp
  then show ?thesis by (simp only: post(1) r(2,3) if_True simp_thms)
qed

subsection \<open>Reading the server's responses\<close>

definition plain_value :: "string \<Rightarrow> bool" where
  "plain_value v \<longleftrightarrow> v \<noteq> [] \<and> \<not> is_blank (hd v) \<and> \<not> is_blank (last v) \<and> CHR 0x0A \<notin> set v"

lemma value_field:
  assumes "k \<noteq> []" "list_all token_char k" "plain_value v"
  shows "field_line (k @ '': '' @ v)" and "field_of (k @ '': '' @ v) = (canonical_key True k, v)"
  using printed_field [OF assms(1,2), of v] assms(3) by (simp_all add: plain_value_def field_of_def)

lemmas canonical_simps = upper_char_def lower_char_def Let_def

lemma length_itoa_3: "100 \<le> n \<Longrightarrow> n < 1000 \<Longrightarrow> length (itoa n) = 3"
proof -
  assume n: "100 \<le> n" "n < 1000"
  then have "10 \<le> n div 10" "n div 100 < 10" by linarith+
  with n show ?thesis
    by (simp add: itoa.simps [of n] itoa.simps [of "n div 10"] itoa.simps [of "n div 100"]
        div_mult2_eq [symmetric])
qed

lemma status_text_no_LF: "CHR 0x0A \<notin> set (StatusText n)"
  by (simp add: StatusText_def)

lemma ReadResponse_message:
  assumes code: "200 \<le> code" "code < 1000" "code \<noteq> 204" "code \<noteq> 304"
    and hs: "\<forall>l \<in> set hs. field_line l"
  shows "ReadResponse (message ((''HTTP/1.1 '' @ itoa code @ '' '' @ StatusText code) # hs) rest) =
     (case read_transfer True True (fixPragmaCacheControl (map field_of hs)) rest of
        Inl e \<Rightarrow> Inl e
      | Inr (h', b) \<Rightarrow> Inr \<lparr>StatusCode = code, res_Header = h', res_Body = b\<rparr>)"
proof -
  let ?l = "''HTTP/1.1 '' @ itoa code @ '' '' @ StatusText code"
  have line: "read_line (message (?l # hs) rest) = Some (?l, message hs rest)"
    unfolding message_simps(2) using status_text_no_LF by (intro read_line_CRLF) simp
  have sp: "CHR '' '' \<notin> set (itoa code)"
    using itoa_digits [of "CHR '' ''" code] by (auto simp: is_digit_def)
  have cut: "cut_at CHR '' '' ?l = Some (''HTTP/1.1'', itoa code @ '' '' @ StatusText code)"
    using cut_at_Some [of "CHR '' ''" "''HTTP/1.1''" "itoa code @ '' '' @ StatusText code"] by simp
  have "dropWhile (\<lambda>c. c = CHR '' '') (itoa code @ '' '' @ StatusText code)
      = itoa code @ '' '' @ StatusText code"
    using sp by (cases "itoa code") auto
  moreover have "takeWhile (\<lambda>c. c \<noteq> CHR '' '') (itoa code @ '' '' @ StatusText code) = itoa code"
    using sp by (auto simp: takeWhile_append)
  moreover have "length (itoa code) = 3" using code by (intro length_itoa_3) auto
  moreover have "ParseHTTPVersion ''HTTP/1.1'' = Some (1, 1)"
    by (simp add: ParseHTTPVersion_def is_digit_def digit_val_def)
  moreover have "\<not> no_body_status code"
  proof -
    have "2 \<le> code div 100" using code(1) by (simp add: less_eq_div_iff_mult_less_eq)
    with code show ?thesis by (simp add: no_body_status_def)
  qed
  ultimately show ?thesis
    using line cut read_header_message [OF hs, of rest]
    by (simp add: ReadResponse_def at_least_11_def field_of_def [abs_def] split: sum.split prod.split)
qed

definition response_lines :: "string \<Rightarrow> nat \<Rightarrow> string \<Rightarrow> string \<Rightarrow> string \<Rightarrow> string list" where
  "response_lines date code ctype cdisp body =
     (''Date: '' @ date) #
     (if body = [] then []
      else (''Content-Type: '' @ ctype)
        # (if cdisp \<noteq> [] then [''Content-Disposition: '' @ cdisp] else [])
        @ [''Content-Length: '' @ itoa (length body)])"

lemma response_text_message:
  "response_text date code ctype cdisp body =
     message ((''HTTP/1.1 '' @ itoa code @ '' '' @ StatusText code)
              # response_lines date code ctype cdisp body)
       (if body = [] then CRLF else body)"
  by (simp add: response_text_def response_lines_def message_def HttpRequestHeaderEnd_def)

lemma response_lines_fields:
  assumes "plain_value date" "plain_value ctype" "cdisp = [] \<or> plain_value cdisp"
  shows "\<forall>l \<in> set (response_lines date code ctype cdisp body). field_line l"
    and "map field_of (response_lines date code ctype cdisp body) =
      (''Date'', date) #
      (if body = [] then []
       else (''Content-Type'', ctype) # (if cdisp \<noteq> [] then [(''Content-Disposition'', cdisp)] else [])
         @ [(''Content-Length'', itoa (length body))])"
  using assms length_line value_field [OF _ tokens(5), of date] value_field [OF _ tokens(6), of ctype]
    value_field [OF _ tokens(7), of cdisp]
  by (auto simp: response_lines_def canonical_simps)

lemma response_parsed:
  assumes code: "200 \<le> code" "code < 1000" "code \<noteq> 204" "code \<noteq> 304"
    and plain: "plain_value date" "plain_value ctype" "cdisp = [] \<or> plain_value cdisp"
    and size: "length body < 2 ^ 63"
  shows "\<exists>h. paresHttpResponse (makeResponse date code ctype cdisp body) =
     Inr \<lparr>StatusCode = code, res_Header = h, res_Body = Whole (if body = [] then CRLF else body)\<rparr>"
proof -
  let ?h = "map field_of (response_lines date code ctype cdisp body)"
  note f = response_lines_fields [OF plain, of code body]
  have te: "header_values ''Transfer-Encoding'' ?h = []" "header_del ''Transfer-Encoding'' ?h = ?h"
    unfolding f(2) by (simp_all add: header_values_def header_del_def)
  have cl: "header_values ''Content-Length'' ?h = (if body = [] then [] else [itoa (length body)])"
    unfolding f(2) by (simp add: header_values_def)
  have "trim (itoa (length body)) = itoa (length body)" by (rule trim_plain) simp_all
  then have "fixLength ?h = Inr (if body = [] then None else Some (length body))"
    using cl size by (simp add: fixLength_def parseContentLength_def)
  moreover have "fixPragmaCacheControl ?h = ?h"
    unfolding f(2) by (rule fixPragma_none) auto
  ultimately obtain h where "read_transfer True True (fixPragmaCacheControl ?h) (if body = [] then CRLF else body) =
      Inr (h, Whole (if body = [] then CRLF else body))"
    using te by (cases "body = []") (simp_all add: read_transfer_def limited_def)
  then show ?thesis
    using ReadResponse_message [OF code f(1)]
    by (simp add: paresHttpResponse_def makeResponse_def response_text_message)
qed

end
