(* ===== verification/Http_Exchange.thy ===== *)
theory Http_Exchange
  imports Httpc_Handler
begin

section \<open>A client and a file server talking HTTP\<close>

text \<open>
  What the client's commands need of the transport is the contract \<open>message_exchange\<close>: a request
  that fits is answered with what the service at the other end makes of it.  The lemmas about GET
  and POST are proved from it; it is interpreted here on the file server's \<open>handleRequest\<close>
  reached directly.  (Theory Session shows what the packet transport delivers.)
\<close>

subsection \<open>The contract\<close>

text \<open>\<open>serve\<close> answers a request and changes the state at the other end; \<open>None\<close> when it panics.\<close>

locale message_exchange =
  fixes send :: "'w exchange"
    and serve :: "bytes \<Rightarrow> 'w \<Rightarrow> (bytes \<times> 'w) option"
  assumes answered: "serve req w = Some (resp, w') \<Longrightarrow> send u req w = Inr (resp, w')"
begin

lemma get_answered:
  assumes "Parse url = Some u" "ParseRequestURI url \<noteq> None"
    and "serve (bytes_of (get_text (c_proto c) url (Host u) headers)) w = Some (resp, w')"
    and "paresHttpResponse resp = Inr r"
  shows "HandleGetRequest send c url headers out s w =
     go_bind (processHttpResponse r resp out s) (\<lambda>(s', log). Inr (s', log, w'))"
  using assms answered [OF assms(3), of u]
  by (auto simp: HandleGetRequest_def validateUrl_def client_get_def)

lemma post_answered:
  assumes "Parse url = Some u" "ParseRequestURI url \<noteq> None" "data = [] \<or> file = []"
    and "(if data = [] \<and> file \<noteq> [] then loadDataFile file s else Inr data) = Inr d"
    and "serve (bytes_of (post_text (c_proto c) url (Host u) headers d)) w = Some (resp, w')"
    and "paresHttpResponse resp = Inr r"
  shows "HandlePostRequest send c url headers data file out s w =
     go_bind (processHttpResponse r resp out s) (\<lambda>(s', log). Inr (s', log, w'))"
  using assms answered [OF assms(5), of u]
  by (auto simp: HandlePostRequest_def validateUrl_def client_post_def)

end

subsection \<open>The file server as the service\<close>

definition serve_file :: "string \<Rightarrow> string \<Rightarrow> bytes \<Rightarrow> os \<Rightarrow> (bytes \<times> os) option" where
  "serve_file wd date req w =
     (case handleRequest wd date req w of Inl e \<Rightarrow> None | Inr (w', response, err) \<Rightarrow> Some (response, w'))"

definition direct_send :: "string \<Rightarrow> string \<Rightarrow> os exchange" where
  "direct_send wd date u req w =
     go_bind (handleRequest wd date req w) (\<lambda>(w', response, err). Inr (response, w'))"

interpretation direct: message_exchange "direct_send wd date" "serve_file wd date" for wd date
  by unfold_locales (auto simp: direct_send_def serve_file_def split: sum.splits)

lemma Parse_http_url:
  assumes "plain_host host" "path = [] \<or> take 1 path = ''/''" "list_all plain_path_char path"
  shows "Parse (http_url host path) =
      Some \<lparr>Scheme = ''http'', Host = host, Path = path, Opaque = []\<rparr>"
    and "ParseRequestURI (http_url host path) =
      Some \<lparr>Scheme = ''http'', Host = host, Path = path, Opaque = []\<rparr>"
proof -
  have "list_all plain_path_char ''http://''" by (simp add: plain_path_char_def is_ctl_def)
  then have "list_all plain_path_char (http_url host path)"
    using assms(3) plain_host_char_facts(2) [OF assms(1)]
    unfolding http_url_def list_all_iff set_append by blast
  then have "CHR ''#'' \<notin> set (http_url host path)"
    by (auto simp: list_all_iff plain_path_char_def)
  then show "Parse (http_url host path) =
      Some \<lparr>Scheme = ''http'', Host = host, Path = path, Opaque = []\<rparr>"
    using url_parse_http [OF assms] by (simp add: Parse_def)
  show "ParseRequestURI (http_url host path) =
      Some \<lparr>Scheme = ''http'', Host = host, Path = path, Opaque = []\<rparr>"
    using url_parse_http [OF assms] by (simp add: ParseRequestURI_def)
qed

lemma attachment_value:
  assumes "name \<noteq> []" "list_all plain_path_char name"
  shows "plain_value (''attachment; filename='' @ name)"
proof -
  have c: "\<not> is_blank c \<and> c \<noteq> CHR 0x0A" if "plain_path_char c" for c
    using that by (auto simp: plain_path_char_def is_blank_def is_ctl_def)
  have "plain_path_char (last name)" using assms by (simp add: list_all_iff)
  with c have "\<not> is_blank (last name)" by blast
  moreover have "CHR 0x0A \<notin> set name" using assms(2) c unfolding list_all_iff by blast
  ultimately have "\<not> is_blank (last name)" "CHR 0x0A \<notin> set name" by blast+
  then show ?thesis using assms(1) by (simp add: plain_value_def is_blank_def)
qed

lemma text_plain_value: "plain_value ''text/plain''"
  by (simp add: plain_value_def is_blank_def)

text \<open>What the client's requests do at the server.\<close>

lemma serve_post:
  assumes h: "plain_host host" and name: "list_all plain_path_char name" "verifyFilePath name"
    and hs: "list_all plain_header headers" and size: "length data < 2 ^ 63"
    and c: "Create (wd @ ''/'' @ name) w = Inr (p, w1)" "faults w = no_faults"
  shows "serve_file wd date (bytes_of (post_text ''HTTP/1.0'' (http_url host (''/'' @ name)) host headers data)) w
     = Some (makeResponse date 201 [] [] [], set_file p data w)"
proof -
  have path: "''/'' @ name = [] \<or> take 1 (''/'' @ name) = ''/''" "list_all plain_path_char (''/'' @ name)"
    using name(1) by (simp_all add: plain_path_char_def is_ctl_def)
  note parsed = post_parsed [OF h path hs size]
  have "w1 = set_file p [] w" by (rule Create_frame(1) [OF c(1)])
  then have "Write (wd @ ''/'' @ name) p data w1 = (None, set_file p data w)"
    using c(2) by (simp add: Write_def no_faults_def set_file_def)
  with parsed name(2) c(1) show ?thesis
    by (simp add: serve_file_def handleRequest_def handlePost_def go_slice_def)
qed

lemma serve_get:
  assumes h: "plain_host host" and name: "list_all plain_path_char name"
    and hs: "list_all plain_header headers"
    and r: "ReadFile (wd @ ''/'' @ name) w = Inr d"
  shows "serve_file wd date (bytes_of (get_text ''HTTP/1.0'' (http_url host (''/'' @ name)) host headers)) w
     = Some (makeResponse date 200 ''text/plain'' (''attachment; filename='' @ name) d, w)"
proof -
  have path: "''/'' @ name = [] \<or> take 1 (''/'' @ name) = ''/''" "list_all plain_path_char (''/'' @ name)"
    using name(1) by (simp_all add: plain_path_char_def is_ctl_def)
  with get_parsed [OF h path hs] r show ?thesis
    by (simp add: serve_file_def handleRequest_def handleGet_def)
qed

lemma path_ok:
  assumes "list_all plain_path_char name"
  shows "''/'' @ name = [] \<or> take 1 (''/'' @ name) = ''/''" "list_all plain_path_char (''/'' @ name)"
  using assms by (simp_all add: plain_path_char_def is_ctl_def)

subsection \<open>Properties\<close>

text \<open>
  C21. The server reads exactly the request the client meant: for a URL of the usual form and
  headers that are single fields, the bytes the client's \<open>get\<close> writes are parsed into a GET of the
  URL's path with these headers and no body, and those of \<open>post\<close> into a POST with these headers and
  the length, whose body is the data, byte for byte, even if the data itself contains blank lines.
  The one field that is added is what \<open>net/http\<close> makes of a \<open>Pragma: no-cache\<close> among the headers.
\<close>

theorem requests_understood:
  assumes "plain_host host" "path = [] \<or> take 1 path = ''/''" "list_all plain_path_char path"
    and "list_all plain_header headers" "length data < 2 ^ 63"
  shows "parseHttpRequest (bytes_of (get_text ''HTTP/1.0'' (http_url host path) host headers)) =
      Inr (Inr \<lparr>Method = ''GET'', URL = \<lparr>Scheme = ''http'', Host = host, Path = path, Opaque = []\<rparr>,
                Header = fixPragmaCacheControl (map field_of headers), Body = NoBody\<rparr>)
    \<and> parseHttpRequest (bytes_of (post_text ''HTTP/1.0'' (http_url host path) host headers data)) =
      Inr (Inr \<lparr>Method = ''POST'', URL = \<lparr>Scheme = ''http'', Host = host, Path = path, Opaque = []\<rparr>,
                Header = fixPragmaCacheControl
                  (map field_of headers @ [(''Content-Length'', itoa (length data))]),
                Body = Whole data\<rparr>)"
  using get_parsed [OF assms(1-4)] post_parsed [OF assms] by blast

lemma example_host: "plain_host ''127.0.0.1:8007''"
  unfolding plain_host_def
  by (intro exI [of _ "''127.0.0.1''"] exI [of _ "''8007''"]) (simp add: is_digit_def)

lemma example_header: "plain_header ''Content-Type: text/plain''"
  using value_field [OF _ tokens(6) text_plain_value]
  by (simp add: plain_header_def canonical_simps)

lemma example_fields_kept:
  "fixPragmaCacheControl (map field_of [''Content-Type: text/plain''] @ [(''Content-Length'', n)]) =
     map field_of [''Content-Type: text/plain''] @ [(''Content-Length'', n)]"
  using value_field [OF _ tokens(6) text_plain_value]
  by (intro fixPragma_none) (simp add: canonical_simps)

lemma itoa_6: "itoa 6 = ''6''"
  by code_simp

theorem requests_understood_witness:
  "parseHttpRequest (bytes_of (post_text ''HTTP/1.0'' (http_url ''127.0.0.1:8007'' ''/x'') ''127.0.0.1:8007''
       [''Content-Type: text/plain''] (''a'' @ HttpRequestHeaderEnd @ ''b''))) =
     Inr (Inr \<lparr>Method = ''POST'', URL = example_url ''/x'',
               Header = map field_of [''Content-Type: text/plain''] @ [(''Content-Length'', ''6'')],
               Body = Whole (''a'' @ HttpRequestHeaderEnd @ ''b'')\<rparr>)"
  using requests_understood [OF example_host, of "''/x''" "[''Content-Type: text/plain'']"
      "''a'' @ HttpRequestHeaderEnd @ ''b''"] example_header
    itoa_6 example_fields_kept [of "''6''"]
  by (simp add: example_url_def plain_path_char_def is_ctl_def)

text \<open>
  C22. The client reads exactly the response the server meant: what \<open>makeResponse\<close> prints, with a
  final status code, is parsed into that status and, when there is a body, exactly that body.
  With an empty body no length is printed and the header ends one line too late, so the client
  takes the extra CRLF for the body.
\<close>

theorem responses_understood:
  assumes "200 \<le> code" "code < 1000" "code \<noteq> 204" "code \<noteq> 304"
    and "plain_value date" "plain_value ctype" "cdisp = [] \<or> plain_value cdisp"
    and "length body < 2 ^ 63"
  shows "\<exists>r. paresHttpResponse (makeResponse date code ctype cdisp body) = Inr r
     \<and> StatusCode r = code \<and> ReadAll (res_Body r) = Inr (if body = [] then CRLF else body)"
  using response_parsed [OF assms] by auto

theorem responses_understood_witness:
  "\<exists>r. paresHttpResponse (makeResponse ''now'' 200 ''text/plain'' [] ''hello'') = Inr r
     \<and> StatusCode r = 200 \<and> ReadAll (res_Body r) = Inr ''hello''"
  using responses_understood [of 200 "''now''" "''text/plain''" "[]" "''hello''"]
  by (simp add: plain_value_def is_blank_def)

text \<open>
  C14. Upload and download.  A client posts data to a URL of the usual form whose path the server
  accepts and can create, then gets the same URL into an output file, and no operation of either
  file system fails.  Then the first command logs the 201 response, the server's file holds
  exactly the data and nothing else changed there, and the second command leaves exactly the data
  in the client's output file, provided the data is not empty.
\<close>

theorem upload_download:
  assumes h: "plain_host host" and name: "name \<noteq> []" "list_all plain_path_char name" "verifyFilePath name"
    and hs: "list_all plain_header headers" "list_all plain_header headers'"
    and data: "data \<noteq> []" "length data < 2 ^ 63"
    and dates: "plain_value date" "plain_value date'"
    and server: "Create (wd @ ''/'' @ name) w = Inr (p, w1)" "faults w = no_faults"
    and client: "out \<noteq> []" "Create out s = Inr (q, s1)" "faults s = no_faults"
    and c: "c_proto c = ''HTTP/1.0''"
  shows "HandlePostRequest (direct_send wd date) c (http_url host (''/'' @ name)) headers data [] [] s w =
       Inr (s, Some (''[paresHttpResponse] '' @ response_text date 201 [] [] []), set_file p data w)
     \<and> HandleGetRequest (direct_send wd date') c (http_url host (''/'' @ name)) headers' out s (set_file p data w) =
       Inr (set_file q data s, None, set_file p data w)"
proof
  note url = Parse_http_url [OF h path_ok [OF name(2)]]
  obtain r where r: "paresHttpResponse (makeResponse date 201 [] [] []) = Inr r" "StatusCode r = 201"
  proof -
    have "makeResponse date 201 [] [] [] = makeResponse date 201 ''text/plain'' [] []"
      by (simp add: makeResponse_def response_text_def)
    with response_parsed [of 201 date "''text/plain''" "[]" "[]"] dates(1) text_plain_value that
    show ?thesis by auto
  qed
  have post: "serve_file wd date (bytes_of (post_text (c_proto c) (http_url host (''/'' @ name)) host headers data)) w
     = Some (makeResponse date 201 [] [] [], set_file p data w)"
    unfolding c by (rule serve_post [OF h name(2,3) hs(1) data(2) server])
  show "HandlePostRequest (direct_send wd date) c (http_url host (''/'' @ name)) headers data [] [] s w =
       Inr (s, Some (''[paresHttpResponse] '' @ response_text date 201 [] [] []), set_file p data w)"
    using url post r direct.post_answered [OF url(1), of data "[]" s data wd date c headers w _ _ r]
    by (simp add: processHttpResponse_def makeResponse_def)
  obtain r' where r': "paresHttpResponse (makeResponse date' 200 ''text/plain'' (''attachment; filename='' @ name) data) = Inr r'"
    "StatusCode r' = 200" "ReadAll (res_Body r') = Inr data"
    using response_parsed [of 200 date' "''text/plain''" "''attachment; filename='' @ name" data]
      dates(2) text_plain_value attachment_value [OF name(1,2)] data by auto
  have get: "serve_file wd date' (bytes_of (get_text (c_proto c) (http_url host (''/'' @ name)) host headers')) (set_file p data w)
     = Some (makeResponse date' 200 ''text/plain'' (''attachment; filename='' @ name) data, set_file p data w)"
    unfolding c by (rule serve_get [OF h name(2) hs(2) ReadFile_created [OF server]])
  have "s1 = set_file q [] s" by (rule Create_frame(1) [OF client(2)])
  then have written: "WriteFile out data s = (None, set_file q data s)"
    using client(2,3) by (simp add: WriteFile_def Write_def no_faults_def set_file_def)
  show "HandleGetRequest (direct_send wd date') c (http_url host (''/'' @ name)) headers' out s (set_file p data w) =
       Inr (set_file q data s, None, set_file p data w)"
    using url get r' client(1) written
      direct.get_answered [OF url(1), of wd date' c headers' "set_file p data w" _ _ r' out s]
    by (simp add: processHttpResponse_def)
qed

text \<open>A client file system with nothing in it.\<close>

definition example_client_os :: os where
  "example_client_os = \<lparr>tree = [(FPath [''home''], Directory)], cwd = ''/home'', faults = no_faults\<rparr>"

lemma example_creates:
  "Create (''/srv'' @ ''/'' @ ''x'') example_os = Inr ([''srv'', ''x''], set_file [''srv'', ''x''] [] example_os)"
  "Create ''out'' example_client_os = Inr ([''home'', ''out''], set_file [''home'', ''out''] [] example_client_os)"
  by (simp_all add: Create_def example_os_def example_client_os_def resolve_def absolute_def
      path_comps_def lookup_def no_faults_def trailing_slash_def)

theorem upload_download_witness:
  "\<exists>log s' w'. HandlePostRequest (direct_send ''/srv'' ''now'') example_client
        (http_url ''127.0.0.1:8007'' ''/x'') [] ''data'' [] [] example_client_os example_os
      = Inr (example_client_os, Some log, w')
    \<and> HandleGetRequest (direct_send ''/srv'' ''now'') example_client
        (http_url ''127.0.0.1:8007'' ''/x'') [] ''out'' example_client_os w' = Inr (s', None, w')
    \<and> lookup s' [''home'', ''out''] = Some (File ''data'')"
proof -
  have p: "list_all plain_path_char ''x''" by (simp add: plain_path_char_def is_ctl_def)
  have v: "verifyFilePath ''x''" by (simp add: verifyFilePath_def str_contains_def)
  have d: "plain_value ''now''" by (simp add: plain_value_def is_blank_def)
  have f: "faults example_client_os = no_faults" by (simp add: example_client_os_def)
  have c: "c_proto example_client = ''HTTP/1.0''" by (simp add: example_client_def initHttpClient_def)
  have x: "''x'' \<noteq> []" "''data'' \<noteq> []" "length ''data'' < 2 ^ 63" "''out'' \<noteq> []" by simp_all
  note u = upload_download [OF example_host x(1) p v _ _ x(2,3) d d example_creates(1) example_os_facts(7)
      x(4) example_creates(2) f c, of "[]" "[]"]
  show ?thesis using u by (auto simp: lookup_set_file)
qed

text \<open>
  C36. Downloading an empty file: the response to a GET of a file of length 0 has no
  \<open>Content-Length\<close> and ends with one CRLF too many, so the client's output file holds two bytes
  where the server's holds none.
\<close>

theorem empty_file_download:
  assumes "plain_host host" "list_all plain_path_char name" "name \<noteq> []" "list_all plain_header headers"
    and "plain_value date" "ReadFile (wd @ ''/'' @ name) w = Inr []"
    and "out \<noteq> []" "Create out s = Inr (q, s1)" "faults s = no_faults" "c_proto c = ''HTTP/1.0''"
  shows "HandleGetRequest (direct_send wd date) c (http_url host (''/'' @ name)) headers out s w =
       Inr (set_file q CRLF s, None, w)"
proof -
  note url = Parse_http_url [OF assms(1) path_ok [OF assms(2)]]
  obtain r where r: "paresHttpResponse (makeResponse date 200 ''text/plain'' (''attachment; filename='' @ name) []) = Inr r"
    "StatusCode r = 200" "ReadAll (res_Body r) = Inr CRLF"
    using response_parsed [of 200 date "''text/plain''" "''attachment; filename='' @ name" "[]"]
      assms(5) text_plain_value attachment_value [OF assms(3,2)] by auto
  have get: "serve_file wd date (bytes_of (get_text (c_proto c) (http_url host (''/'' @ name)) host headers)) w
     = Some (makeResponse date 200 ''text/plain'' (''attachment; filename='' @ name) [], w)"
    unfolding assms(10) by (rule serve_get [OF assms(1,2,4,6)])
  have "s1 = set_file q [] s" by (rule Create_frame(1) [OF assms(8)])
  then have "WriteFile out CRLF s = (None, set_file q CRLF s)"
    using assms(8,9) by (simp add: WriteFile_def Write_def no_faults_def set_file_def)
  then show ?thesis
    using url get r assms(7)
      direct.get_answered [OF url(1), of wd date c headers w _ _ r out s]
    by (simp add: processHttpResponse_def)
qed

theorem empty_file_download_witness:
  "\<exists>s'. HandleGetRequest (direct_send ''/srv'' ''now'') example_client
        (http_url ''127.0.0.1:8007'' ''/x'') [] ''out'' example_client_os (set_file [''srv'', ''x''] [] example_os)
      = Inr (s', None, set_file [''srv'', ''x''] [] example_os)
    \<and> lookup s' [''home'', ''out''] = Some (File CRLF)"
proof -
  have p: "list_all plain_path_char ''x''" by (simp add: plain_path_char_def is_ctl_def)
  have d: "plain_value ''now''" by (simp add: plain_value_def is_blank_def)
  have f: "faults example_client_os = no_faults" by (simp add: example_client_os_def)
  have c: "c_proto example_client = ''HTTP/1.0''" by (simp add: example_client_def initHttpClient_def)
  have x: "''x'' \<noteq> []" "''out'' \<noteq> []" by simp_all
  note e = empty_file_download [OF example_host p x(1) _ d
      ReadFile_created [OF example_creates(1) example_os_facts(7)] x(2) example_creates(2) f c, of "[]"]
  show ?thesis using e by (auto simp: lookup_set_file)
qed

lemma client_setup_Inr:
  assumes "client_setup resolver args = Inr (c, words, fl, requestUrl)"
  shows "3 \<le> length args" and "requestUrl = last args"
    and "\<exists>u. Parse requestUrl = Some u \<and> resolver (Host u) = Inr (the (c_serverAddr c))"
proof -
  obtain ws f rest where args: "read_args args = Inr (ws, f, rest)"
    using assms by (cases "read_args args") (auto simp: client_setup_def)
  obtain url where url: "last_arg rest = Inr url"
    using assms args by (cases "last_arg rest") (auto simp: client_setup_def)
  obtain u where u: "Parse url = Some u"
    using assms args url by (cases "Parse url") (auto simp: client_setup_def address_constants)
  obtain server where server: "resolver (Host u) = Inr server"
    using assms args url u by (cases "resolver (Host u)") (auto simp: client_setup_def address_constants)
  have eq: "url = requestUrl" "ws = words" "f = fl" "c_serverAddr c = Some server"
    using assms args url u server by (auto simp: client_setup_def address_constants initHttpClient_def)
  have r: "read_args args = Inr (words, fl, rest)" "last_arg rest = Inr requestUrl"
    and addr: "\<exists>u. Parse requestUrl = Some u \<and> resolver (Host u) = Inr (the (c_serverAddr c))"
    using args url u server eq by auto
  show "\<exists>u. Parse requestUrl = Some u \<and> resolver (Host u) = Inr (the (c_serverAddr c))"
    by (rule addr)
  from r(1) have p: "2 \<le> length args" "parse_flags (drop 2 args) default_flags = Some fl" "rest = fl_args fl"
    by (auto simp: read_args_def go_bind_Inr_iff go_slice_def split: option.splits if_splits)
  from parse_flags_rest [OF p(2)] p(3) obtain pre where pre: "drop 2 args = pre @ rest" by blast
  from r(2) have ne: "rest \<noteq> []" "requestUrl = last rest"
    by (cases rest rule: rev_cases; simp add: last_arg_def go_index_def)+
  from pre ne(1) have "drop 2 args \<noteq> []" by simp
  then show "3 \<le> length args" by simp
  have "last (drop 2 args) = requestUrl" using pre ne by simp
  with \<open>drop 2 args \<noteq> []\<close> show "requestUrl = last args" by (simp add: last_drop)
qed

text \<open>
  C37. The usage text of the lab 3 client cannot be asked for alone.  \<open>main\<close> reads the URL, the last
  argument, before it looks at the words: it gets past its command line only when there are at
  least three arguments and the last of them is a URL whose host resolves.  A bare command line
  stops at \<open>os.Args[2:]\<close>, and one word, be it \<open>help\<close>, with any number of headers and nothing
  after them stops at the last of an empty list.
\<close>

theorem client_usage_panics:
  "(client_setup resolver args = Inr (c, words, fl, requestUrl) \<longrightarrow>
      3 \<le> length args \<and> requestUrl = last args
      \<and> (\<exists>u. Parse requestUrl = Some u \<and> resolver (Host u) = Inr (the (c_serverAddr c))))
   \<and> client_setup resolver [prog] = Inl Slice_bounds
   \<and> (\<not> is_flag word \<longrightarrow>
      client_setup resolver ([prog, word] @ concat (map (\<lambda>h. [''-h'', h]) hs)) = Inl Index_range)"
proof (intro conjI impI)
  assume "\<not> is_flag word"
  then have "command_words (word # concat (map (\<lambda>h. [''-h'', h]) hs)) = Some (word # concat (map (\<lambda>h. [''-h'', h]) hs))"
    by (simp add: command_words_def)
  then show "client_setup resolver ([prog, word] @ concat (map (\<lambda>h. [''-h'', h]) hs)) = Inl Index_range"
    using parse_only_headers [of hs default_flags]
    by (simp add: client_setup_def read_args_def go_slice_def last_arg_def)
qed (use client_setup_Inr in \<open>auto simp: client_setup_def read_args_def command_words_def go_slice_def\<close>)

text \<open>
  The command line of the client: a command word, any number of \<open>-h\<close> headers and a URL that does
  not look like a flag give the request for that URL with exactly these headers in this order,
  from a client with empty windows and number 0.
\<close>

theorem client_command_line:
  assumes "word = ''get'' \<or> word = ''post''" "\<not> is_flag requestUrl" "Parse requestUrl = Some u"
    and "resolver (Host u) = Inr server"
  shows "\<exists>words fl. client_setup resolver ([prog, word] @ concat (map (\<lambda>h. [''-h'', h]) hs) @ [requestUrl]) =
      Inr (initHttpClient False RouterAddr server, words, fl, requestUrl)
    \<and> client_command words = (if word = ''get'' then Get_request else Post_request)
    \<and> fl_headers fl = hs \<and> fl_data fl = [] \<and> fl_file fl = [] \<and> fl_output fl = []"
proof -
  let ?rest = "concat (map (\<lambda>h. [''-h'', h]) hs) @ [requestUrl]"
  have "command_words (word # ?rest) = Some (word # ?rest)"
    using assms(1) by (auto simp: command_words_def is_flag_def)
  moreover have "go_slice ([prog, word] @ ?rest) 2 (length ([prog, word] @ ?rest)) = Inr ?rest"
    by (simp add: go_slice_def)
  ultimately show ?thesis
    using assms parse_headers [OF assms(2), of hs default_flags]
    by (auto simp: client_setup_def read_args_def last_arg_def address_constants client_command_def
        default_flags_def)
qed

theorem client_command_line_witness:
  "\<exists>words fl. client_setup ResolveUDPAddr [''httpc'', ''get'', ''-h'', ''A:b'', http_url ''127.0.0.1:8007'' ''/x''] =
      Inr (initHttpClient False RouterAddr ServerAddr, words, fl, http_url ''127.0.0.1:8007'' ''/x'')
    \<and> client_command words = Get_request \<and> fl_headers fl = [''A:b'']"
proof -
  have p: "list_all plain_path_char ''x''" by (simp add: plain_path_char_def is_ctl_def)
  note url = Parse_http_url(1) [OF example_host path_ok [OF p]]
  have f: "\<not> is_flag (http_url ''127.0.0.1:8007'' (''/'' @ ''x''))"
    by (simp add: is_flag_def http_url_def)
  from client_command_line [OF _ f url, of "''get''" ResolveUDPAddr ServerAddr "''httpc''" "[''A:b'']"]
  show ?thesis by (simp add: address_constants) blast
qed

theorem client_usage_panics_witness:
  "client_setup ResolveUDPAddr [''httpc'', ''help''] = Inl Index_range
   \<and> 3 \<le> length [''httpc'', ''get'', ''-h'', ''A:b'', http_url ''127.0.0.1:8007'' ''/x'']
   \<and> (\<exists>u. Parse (http_url ''127.0.0.1:8007'' ''/x'') = Some u \<and> ResolveUDPAddr (Host u) = Inr ServerAddr)"
proof -
  have w: "\<not> is_flag ''help''" "\<not> is_flag ''get''" by (simp_all add: is_flag_def)
  have p: "list_all plain_path_char ''x''" by (simp add: plain_path_char_def is_ctl_def)
  have f: "\<not> is_flag (http_url ''127.0.0.1:8007'' (''/'' @ ''x''))"
    by (simp add: is_flag_def http_url_def)
  obtain words fl where r: "client_setup ResolveUDPAddr
      [''httpc'', ''get'', ''-h'', ''A:b'', http_url ''127.0.0.1:8007'' ''/x''] =
        Inr (initHttpClient False RouterAddr ServerAddr, words, fl, http_url ''127.0.0.1:8007'' ''/x'')"
    using client_command_line [OF _ f Parse_http_url(1) [OF example_host path_ok [OF p]],
        of "''get''" ResolveUDPAddr ServerAddr "''httpc''" "[''A:b'']"]
    by (auto simp: address_constants)
  have "c_serverAddr (initHttpClient False RouterAddr ServerAddr) = Some ServerAddr"
    by (simp add: initHttpClient_def)
  with client_usage_panics [of ResolveUDPAddr _ _ words fl _ "''httpc''" "''help''" "[]"] w(1) r
  show ?thesis by fastforce
qed

end
