(* ===== verification/Session_Http.thy ===== *)
theory Session_Http
  imports Session_Ends Http_Exchange
begin

section \<open>Files over the packet transport\<close>

text \<open>
  The session with the file server's \<open>handleRequest\<close> in it: what the response to a GET and to a POST
  is in every state the system can reach, however often the router makes the server handle it.
\<close>

subsection \<open>The handler\<close>

text \<open>
  The clock chooses the text after \<open>Date:\<close> each time.  A response that does not fit the window is
  not answered here: \<open>send\<close> panics on it (see theory Httpfs).
\<close>

definition file_handler :: "string \<Rightarrow> os handler" where
  "file_handler wd q w r w' \<longleftrightarrow>
     (\<exists>date. plain_value date \<and> serve_file wd date q w = Some (r, w')) \<and> fits r"

lemma file_handler_fits: "fits req \<Longrightarrow> session_fits (file_handler wd) req"
  by (auto simp: session_fits_def file_handler_def)

subsection \<open>Handling a request again\<close>

text \<open>Where every answer to \<open>req\<close> keeps \<open>Q\<close> true of the world, it holds after any history of it.\<close>

lemma served_keeps:
  assumes "served handles w0 h w" "\<forall>(q, r) \<in> set h. q = req"
    and "\<And>w r w'. w = w0 \<or> Q w \<Longrightarrow> handles req w r w' \<Longrightarrow> Q w' \<and> R r"
  shows "(h = [] \<longrightarrow> w = w0) \<and> (h \<noteq> [] \<longrightarrow> Q w) \<and> (\<forall>(q, r) \<in> set h. R r)"
  using assms(1,2)
proof (induction rule: served.induct)
  case (more h w q r w')
  then have "w = w0 \<or> Q w" by (cases "h = []") auto
  moreover have "handles req w r w'" using more by auto
  ultimately have "Q w' \<and> R r" by (rule assms(3))
  with more show ?case by auto
qed simp

lemma set_file_again: "set_file p d (set_file p d' s) = set_file p d s"
  by (simp add: set_file_def)

text \<open>A file that could be created can be created again, and is the same file.\<close>

lemma Create_again:
  assumes "Create path w = Inr (p, w1)" "faults w = no_faults"
  shows "Create path (set_file p d w) = Inr (p, set_file p [] w)"
proof -
  note c = Create_frame [OF assms(1)]
  have "lookup w q = Some Directory \<Longrightarrow> lookup (set_file p d w) q = Some Directory" for q
    using c(4) by (auto simp: lookup_set_file)
  with c(2) have "resolve (set_file p d w) path = Inr p"
    by (auto simp: resolve_def absolute_def intro: walk_keeps split: if_splits)
  moreover have "\<not> trailing_slash path"
    using assms(1) c(2,4) by (auto simp: Create_def split: option.splits if_splits)
  ultimately show ?thesis
    using c(3) assms(2) by (simp add: Create_def lookup_set_file no_faults_def set_file_again)
qed

subsection \<open>What a session leaves behind\<close>

lemma session_history:
  assumes "hosts cl sv" "session_fits handles req"
    and "session_reachable f gate cl sv handles req w0 x"
  shows "(\<forall>(q, r) \<in> set (handled x). q = req) \<and> served handles w0 (handled x) (world x)
     \<and> (\<forall>raw. cpc x = C_Done raw \<longrightarrow> handled x \<noteq> [] \<and> raw = snd (hd (handled x)))"
proof -
  have ok: "sys_ok cl sv handles req w0 x" by (rule session_ok [OF assms])
  then have "\<forall>(q, r) \<in> set (handled x). q = req" by (auto simp: sys_ok_def server_ok_def)
  moreover have "served handles w0 (handled x) (world x)" using ok by (simp add: sys_ok_def)
  moreover have "handled x \<noteq> [] \<and> raw = snd (hd (handled x))" if "cpc x = C_Done raw" for raw
    using ok that by (auto simp: sys_ok_def client_ok_def client_rx_ok_def responses_def first_complete_def hd_map)
  ultimately show ?thesis by blast
qed

lemma session_served:
  assumes "hosts cl sv" "session_fits handles req"
    and "session_reachable f gate cl sv handles req w0 x"
    and "\<And>w r w'. w = w0 \<or> Q w \<Longrightarrow> handles req w r w' \<Longrightarrow> Q w' \<and> R r"
  shows "(handled x = [] \<longrightarrow> world x = w0) \<and> (handled x \<noteq> [] \<longrightarrow> Q (world x))
     \<and> (\<forall>raw. cpc x = C_Done raw \<longrightarrow> handled x \<noteq> [] \<and> R raw)"
proof -
  note h = session_history [OF assms(1-3)]
  from h have k: "(handled x = [] \<longrightarrow> world x = w0) \<and> (handled x \<noteq> [] \<longrightarrow> Q (world x))
      \<and> (\<forall>(q, r) \<in> set (handled x). R r)"
    by (intro served_keeps [where handles = handles and req = req] assms(4)) blast+
  moreover have "R raw" if "cpc x = C_Done raw" for raw
    using that h k list.set_sel(1) [of "handled x"] by (auto simp: case_prod_unfold)
  ultimately show ?thesis using h by blast
qed

text \<open>The two requests in any world that agrees on the file.\<close>

text \<open>
  What a client has after a download of a file with contents \<open>d\<close>: a 200 response with these
  contents.  For an empty file the response has one line end too many, which the client reads as
  its body.
\<close>

definition downloaded :: "string \<Rightarrow> bytes \<Rightarrow> bool" where
  "downloaded d raw \<longleftrightarrow>
     (\<exists>r. paresHttpResponse raw = Inr r \<and> StatusCode r = 200
        \<and> ReadAll (res_Body r) = Inr (if d = [] then CRLF else d))"

definition created :: "bytes \<Rightarrow> bool" where
  "created raw \<longleftrightarrow> (\<exists>r. paresHttpResponse raw = Inr r \<and> StatusCode r = 201)"

lemma get_answer:
  assumes "plain_host host" "name \<noteq> []" "list_all plain_path_char name" "list_all plain_header headers"
    and "ReadFile (wd @ ''/'' @ name) w = Inr d" "length d < 2 ^ 63"
    and "file_handler wd (bytes_of (get_text ''HTTP/1.0'' (http_url host (''/'' @ name)) host headers)) w r w'"
  shows "w' = w \<and> downloaded d r"
proof -
  from assms(7) obtain date where date: "plain_value date"
    "serve_file wd date (bytes_of (get_text ''HTTP/1.0'' (http_url host (''/'' @ name)) host headers)) w = Some (r, w')"
    by (auto simp: file_handler_def)
  with serve_get [OF assms(1,3,4,5)] have
    r: "r = makeResponse date 200 ''text/plain'' (''attachment; filename='' @ name) d" "w' = w"
    by simp_all
  with response_parsed [of 200 date "''text/plain''" "''attachment; filename='' @ name" d]
    date(1) text_plain_value attachment_value [OF assms(2,3)] assms(6)
  show ?thesis by (auto simp: downloaded_def)
qed

lemma post_answer:
  assumes "plain_host host" "list_all plain_path_char name" "verifyFilePath name" "list_all plain_header headers"
    and "length data < 2 ^ 63" "Create (wd @ ''/'' @ name) w0 = Inr (p, w1)" "faults w0 = no_faults"
    and w: "w = w0 \<or> w = set_file p data w0"
    and "file_handler wd (bytes_of (post_text ''HTTP/1.0'' (http_url host (''/'' @ name)) host headers data)) w r w'"
  shows "w' = set_file p data w0 \<and> created r"
proof -
  from assms(9) obtain date where date: "plain_value date"
    "serve_file wd date (bytes_of (post_text ''HTTP/1.0'' (http_url host (''/'' @ name)) host headers data)) w = Some (r, w')"
    by (auto simp: file_handler_def)
  have "\<exists>w2. Create (wd @ ''/'' @ name) w = Inr (p, w2)" "faults w = no_faults"
    using w assms(6,7) Create_again [OF assms(6,7)] by auto
  then obtain w2 where "Create (wd @ ''/'' @ name) w = Inr (p, w2)" "faults w = no_faults" by blast
  from serve_post [OF assms(1-5) this] date have
    r: "r = makeResponse date 201 [] [] []" "w' = set_file p data w"
    by simp_all
  have "makeResponse date 201 [] [] [] = makeResponse date 201 ''text/plain'' [] []"
    by (simp add: makeResponse_def response_text_def)
  with response_parsed [of 201 date "''text/plain''" "[]" "[]"] date(1) text_plain_value r(1)
  have "created r" by (auto simp: created_def)
  moreover have "w' = set_file p data w0" using r(2) w set_file_again by auto
  ultimately show ?thesis by blast
qed

text \<open>Such a session can be completed.\<close>

lemma file_session:
  assumes "hosts cl sv" "fits req" "forwards f" "plain_value date"
    and "serve_file wd date req w0 = Some (r, w1)" "fits r"
  shows "\<exists>x. session_reachable f gate cl sv (file_handler wd) req w0 x \<and> cpc x = C_Done r"
proof -
  have "file_handler wd req w0 r w1" using assms(4-6) unfolding file_handler_def by blast
  from run_done [OF assms(1) file_handler_fits [OF assms(2)] assms(3) this, of True gate]
  obtain x where "runs f cl sv (file_handler wd) req (sys_init True gate sv w0) x" "cpc x = C_Done r"
    by blast
  then show ?thesis using reachable_runs [of f cl sv "file_handler wd" req True gate w0 x] by blast
qed

end
