(* ===== verification/Tcp_Httpfs.thy ===== *)
theory Tcp_Httpfs
  imports Http_Exchange
begin

section \<open>The file server over TCP (lab1-2/httpfs/httpfs.go)\<close>

text \<open>
  The earlier file server: one goroutine per connection reads until a whole request is there and
  answers it on the connection.  A connection is the list of what its \<open>Read\<close>s return, each at most
  a buffer of bytes and an error (the deadline's time-out among them); the responses are what
  \<open>conn.Write\<close> is given (its error is only printed).
\<close>

subsection \<open>Responses and handlers\<close>

definition DefaultBufferSize :: nat where "DefaultBufferSize = 1024"

definition tcp_makeResponse :: "string \<Rightarrow> nat \<Rightarrow> string \<Rightarrow> string \<Rightarrow> string \<Rightarrow> bytes" where
  "tcp_makeResponse date httpCode contentType contentDisposition body =
     (let res = ''HTTP/1.1 '' @ itoa httpCode @ '' '' @ StatusText httpCode @ CRLF
                @ ''Date: '' @ date @ CRLF
      in bytes_of
        (if body \<noteq> [] then
           res @ ''Content-Type: '' @ contentType @ CRLF
           @ (if contentDisposition \<noteq> [] then ''Content-Disposition: '' @ contentDisposition @ CRLF else [])
           @ ''Content-Length: '' @ itoa (length body) @ HttpRequestHeaderEnd @ body
         else res @ HttpRequestHeaderEnd))"

definition tcp_handleError :: "string \<Rightarrow> nat \<Rightarrow> go_error \<Rightarrow> bytes" where
  "tcp_handleError date httpStatusCode err =
     tcp_makeResponse date httpStatusCode ''application/json'' [] (marshal_error \<lparr>error_text = Error err\<rparr>)"

definition tcp_handleGet :: "string \<Rightarrow> string \<Rightarrow> request \<Rightarrow> os \<Rightarrow> bytes" where
  "tcp_handleGet wd date req s =
     (if Path (URL req) = [] then
        (case list_files wd s of
           Inl err \<Rightarrow> tcp_handleError date 500 err
         | Inr fs \<Rightarrow> tcp_makeResponse date 200 ''application/json'' [] (marshal_files \<lparr>Files = fs\<rparr>))
      else
        (case ReadFile (wd @ ''/'' @ drop 1 (Path (URL req))) s of
           Inl err \<Rightarrow> if IsNotExist err then tcp_handleError date 404 err else tcp_handleError date 500 err
         | Inr file \<Rightarrow>
             tcp_makeResponse date 200 ''text/plain''
               (''attachment; filename='' @ drop 1 (Path (URL req))) file))"

text \<open>Only a path that starts with two dots is refused.\<close>

definition tcp_verifyFilePath :: "string \<Rightarrow> bool" where
  "tcp_verifyFilePath s = (if take 2 s = ''..'' then False else True)"

definition tcp_handlePost :: "string \<Rightarrow> string \<Rightarrow> request \<Rightarrow> os \<Rightarrow> (os \<times> bytes) go" where
  "tcp_handlePost wd date req s =
     (case ReadAll (Body req) of
        Inl e \<Rightarrow> Inr (s, tcp_handleError date 500 (Errorf e))
      | Inr b \<Rightarrow>
          go_bind (go_slice (Path (URL req)) 1 (length (Path (URL req)))) (\<lambda>name.
            if \<not> tcp_verifyFilePath name then
              Inr (s, tcp_handleError date 500 (Errorf (''invalid file path: '' @ name)))
            else
              (case Create (wd @ ''/'' @ name) s of
                 Inl err \<Rightarrow> Inr (s, tcp_handleError date 500 err)
               | Inr (f, s1) \<Rightarrow>
                   (case Write (wd @ ''/'' @ name) f b s1 of
                      (Some err, s2) \<Rightarrow> Inr (s2, tcp_handleError date 500 err)
                    | (None, s2) \<Rightarrow> Inr (s2, tcp_makeResponse date 201 [] [] [])))))"

subsection \<open>A connection\<close>

datatype read_error = No_error | EOF | Read_error string

datatype conn_state =
    Waiting
  | Closed
  | Request request

text \<open>
  What a read does to the text so far and the request: the header is parsed again whenever it is
  there; an error of the parser ends the connection (\<open>None\<close>).
\<close>

definition conn_parse :: "string \<Rightarrow> request option \<Rightarrow> request option option" where
  "conn_parse tmp request =
     (case str_index tmp HttpRequestHeaderEnd of
        None \<Rightarrow> Some request
      | Some i \<Rightarrow>
          (case ReadRequest (take i tmp @ HttpRequestHeaderEnd) of
             Inl e \<Rightarrow> None
           | Inr req \<Rightarrow> Some (Some req)))"

text \<open>The test after it: is the request complete?  (\<open>strings.Index\<close> is -1 without a header end.)\<close>

definition conn_body :: "string \<Rightarrow> string" where
  "conn_body tmp =
     (case str_index tmp HttpRequestHeaderEnd of
        None \<Rightarrow> drop 3 tmp
      | Some i \<Rightarrow> drop (i + length HttpRequestHeaderEnd) tmp)"

definition conn_complete :: "string \<Rightarrow> request option \<Rightarrow> request option" where
  "conn_complete tmp request =
     (case request of
        None \<Rightarrow> None
      | Some r \<Rightarrow>
          if header_get ''Content-Length'' (Header r) = [] then Some r
          else if header_get ''Content-Length'' (Header r) = itoa (length (conn_body tmp))
          then Some (r\<lparr>Body := Whole (conn_body tmp)\<rparr>)
          else None)"

fun conn_loop :: "(bytes \<times> read_error) list \<Rightarrow> string \<Rightarrow> request option \<Rightarrow> conn_state" where
  "conn_loop [] tmp request = Waiting"
| "conn_loop ((buf, re) # reads) tmp request =
     (if buf \<noteq> [] then
        (let tmp' = tmp @ string_of buf in
         case conn_parse tmp' request of
           None \<Rightarrow> Closed
         | Some request' \<Rightarrow>
             (case conn_complete tmp' request' of
                Some r \<Rightarrow> Request r
              | None \<Rightarrow> if re \<noteq> No_error then Closed else conn_loop reads tmp' request'))
      else if re \<noteq> No_error then Closed
      else conn_loop reads tmp request)"

text \<open>\<open>handleConn\<close>: the file system and what is written before the connection is closed; \<open>None\<close>
  while it waits for more.\<close>

definition handleConn ::
    "string \<Rightarrow> string \<Rightarrow> (bytes \<times> read_error) list \<Rightarrow> os \<Rightarrow> (os \<times> bytes) go option" where
  "handleConn wd date reads s =
     (case conn_loop reads [] None of
        Waiting \<Rightarrow> None
      | Closed \<Rightarrow> Some (Inr (s, []))
      | Request r \<Rightarrow>
          Some (if Method r = ''GET'' then Inr (s, tcp_handleGet wd date r s)
                else if Method r = ''POST'' then tcp_handlePost wd date r s
                else Inr (s, [])))"

subsection \<open>Requests in pieces\<close>

lemma str_index_extend:
  "str_index s sub = Some i \<Longrightarrow> str_index (s @ t) sub = Some i"
proof (induction s arbitrary: i)
  case Nil
  then show ?case by (cases t) (auto split: if_splits)
next
  case (Cons x s)
  show ?case
  proof (cases "take (length sub) (x # s) = sub")
    case True
    then have "length sub \<le> length (x # s)" by (metis length_take min.cobounded1)
    then have "take (length sub) ((x # s) @ t) = take (length sub) (x # s)" by (simp only: take_append) simp
    with True Cons.prems show ?thesis by simp
  next
    case False
    then obtain j where j: "str_index s sub = Some j" "i = Suc j" using Cons.prems by auto
    then have "j + length sub \<le> length s" using str_index_SomeD by blast
    then have "take (length sub) ((x # s) @ t) = take (length sub) (x # s)" by (simp only: take_append) simp
    with False j Cons.IH show ?thesis by simp
  qed
qed

lemma str_index_prefix:
  assumes "str_index (s @ t) sub = Some i"
  shows "str_index s sub = (if i + length sub \<le> length s then Some i else None)"
proof (cases "str_index s sub")
  case (Some j)
  with str_index_extend [OF Some] assms str_index_SomeD [OF Some] show ?thesis by simp
next
  case None
  have "\<not> i + length sub \<le> length s"
  proof
    assume le: "i + length sub \<le> length s"
    have "take (length sub) (drop i (s @ t)) = sub" using str_index_SomeD [OF assms] by blast
    with le have "take (length sub) (drop i s) = sub" by simp
    then have "s = take i s @ sub @ drop (length sub) (drop i s)"
      by (metis append_take_drop_id)
    with str_index_NoneD [OF None] show False by blast
  qed
  with None show ?thesis by simp
qed

lemma conn_loop_pieces:
  assumes "concat cs = rest" "\<forall>c \<in> set cs. c \<noteq> []" "rest \<noteq> []"
    and m: "tmp @ string_of rest = m"
    and i: "str_index m HttpRequestHeaderEnd = Some i"
    and r: "ReadRequest (take i m @ HttpRequestHeaderEnd) = Inr r"
    and cl: "header_get ''Content-Length'' (Header r) = itoa (length (drop (i + 4) m))"
    and req: "request = (if i + 4 \<le> length tmp then Some r else None)"
  shows "conn_loop (map (\<lambda>c. (c, No_error)) cs @ later) tmp request
     = Request (r\<lparr>Body := Whole (drop (i + 4) m)\<rparr>)"
  using assms
proof (induction cs arbitrary: tmp rest request)
  case (Cons c cs)
  define tmp' where "tmp' = tmp @ string_of c"
  have split: "m = tmp' @ string_of (concat cs)"
    using Cons.prems(1,4) by (auto simp: tmp'_def string_of_def)
  have idx: "str_index tmp' HttpRequestHeaderEnd = (if i + 4 \<le> length tmp' then Some i else None)"
    using str_index_prefix [of tmp' "string_of (concat cs)"] Cons.prems(5) split by simp
  have head: "take i tmp' = take i m" if "i + 4 \<le> length tmp'"
    using that split by simp
  have parse: "conn_parse tmp' request = Some (if i + 4 \<le> length tmp' then Some r else None)"
  proof (cases "i + 4 \<le> length tmp'")
    case True
    with idx head Cons.prems(6) show ?thesis by (simp add: conn_parse_def)
  next
    case False
    then have "request = None" using Cons.prems(8) by (simp add: tmp'_def)
    with False idx show ?thesis by (simp add: conn_parse_def)
  qed
  have body: "conn_body tmp' = drop (i + 4) tmp'" if "i + 4 \<le> length tmp'"
    using that idx by (simp add: conn_body_def)
  have len: "length (drop (i + 4) m) = length (drop (i + 4) tmp') + length (concat cs)"
    if "i + 4 \<le> length tmp'" using that split by simp
  have c: "c \<noteq> []" using Cons.prems(2) by simp
  show ?case
  proof (cases "concat cs = []")
    case True
    then have m': "m = tmp'" using split by (simp add: string_of_def)
    have le: "i + 4 \<le> length tmp'"
      using str_index_SomeD [OF Cons.prems(5)] by (simp add: m')
    have "conn_complete tmp' (Some r) = Some (r\<lparr>Body := Whole (drop (i + 4) m)\<rparr>)"
      using Cons.prems(7) body [OF le] by (simp add: conn_complete_def m')
    with c parse le show ?thesis by (simp add: tmp'_def Let_def)
  next
    case False
    have incomplete: "conn_complete tmp' (if i + 4 \<le> length tmp' then Some r else None) = None"
    proof (cases "i + 4 \<le> length tmp'")
      case True
      have "length (drop (i + 4) tmp') \<noteq> length (drop (i + 4) m)"
        using False len [OF True] by (simp del: length_drop concat_eq_Nil_conv)
      with True Cons.prems(7) body [OF True] show ?thesis
        by (simp add: conn_complete_def del: length_drop)
    qed (simp add: conn_complete_def)
    have "conn_loop (map (\<lambda>c. (c, No_error)) cs @ later) tmp' (if i + 4 \<le> length tmp' then Some r else None)
        = Request (r\<lparr>Body := Whole (drop (i + 4) m)\<rparr>)"
      using Cons.prems(2,5-7) False split
      by (intro Cons.IH [OF refl]) (auto simp del: concat_eq_Nil_conv)
    with c parse incomplete show ?thesis by (simp add: tmp'_def Let_def)
  qed
qed simp

lemma makeResponse_agree: "tcp_makeResponse = makeResponse"
  by (intro ext) (simp add: tcp_makeResponse_def makeResponse_def response_text_def Let_def)

lemma handleError_agree: "tcp_handleError = packetErrorReponse"
  by (intro ext) (simp add: tcp_handleError_def packetErrorReponse_def makeResponse_agree)

subsection \<open>Properties\<close>

text \<open>
  C25. A request may arrive in any pieces: however the bytes of a message with a correct
  \<open>Content-Length\<close> are cut into non-empty reads, and whatever follows, the connection loop goes on
  until the last byte and then has exactly the request that the packet server's
  \<open>parseHttpRequest\<close> makes of the whole message.
\<close>

theorem request_in_pieces:
  assumes "concat cs = req" "\<forall>c \<in> set cs. c \<noteq> []"
    and "str_index (string_of req) HttpRequestHeaderEnd = Some i"
    and "ReadRequest (take i (string_of req) @ HttpRequestHeaderEnd) = Inr r"
    and "header_get ''Content-Length'' (Header r) = itoa (length (drop (i + 4) (string_of req)))"
  shows "\<exists>r'. conn_loop (map (\<lambda>c. (c, No_error)) cs @ later) [] None = Request r'
     \<and> parseHttpRequest req = Inr (Inr r') \<and> Body r' = Whole (drop (i + 4) (string_of req))"
proof -
  have "req \<noteq> []"
    using assms(3) by (auto simp: string_of_def HttpRequestHeaderEnd_def CRLF_def)
  moreover have "(None :: request option) = (if i + 4 \<le> length ([] :: string) then Some r else None)" by simp
  ultimately have "conn_loop (map (\<lambda>c. (c, No_error)) cs @ later) [] None =
      Request (r\<lparr>Body := Whole (drop (i + 4) (string_of req))\<rparr>)"
    using conn_loop_pieces [OF assms(1,2) _ _ assms(3-5)] by simp
  moreover have "parseHttpRequest req = Inr (Inr (r\<lparr>Body := Whole (drop (i + 4) (string_of req))\<rparr>))"
    using assms(3-5) by (simp add: parseHttpRequest_def Let_def)
  ultimately show ?thesis by auto
qed

theorem request_in_pieces_witness:
  "\<exists>r. conn_loop (map (\<lambda>b. ([b], No_error))
        (bytes_of (post_text ''HTTP/1.0'' (http_url ''127.0.0.1:8007'' ''/x'') ''127.0.0.1:8007'' [] ''hi''))) [] None
      = Request r \<and> Body r = Whole ''hi''"
proof -
  let ?t = "post_text ''HTTP/1.0'' (http_url ''127.0.0.1:8007'' ''/x'') ''127.0.0.1:8007'' [] ''hi''"
  have p: "''/x'' = [] \<or> take 1 ''/x'' = ''/''" "list_all plain_path_char ''/x''" "list_all plain_header []"
    "length ''hi'' < 2 ^ 63"
    by (simp_all add: plain_path_char_def is_ctl_def)
  note post = post_header [OF example_host p refl]
  let ?ls = "(''POST '' @ http_url ''127.0.0.1:8007'' ''/x'' @ '' HTTP/1.0'') # (''Host: '' @ ''127.0.0.1:8007'')
      # [] @ [''Content-Length: '' @ itoa (length ''hi'')]"
  let ?i = "length (concat (map (\<lambda>l. l @ CRLF) ?ls)) - 2"
  have t: "string_of (bytes_of ?t) = message ?ls ''hi''" unfolding post(1) by simp
  have i: "str_index (message ?ls ''hi'') HttpRequestHeaderEnd = Some ?i"
    by (rule message_end [OF _ post(2)]) simp
  obtain r where r: "ReadRequest (take ?i (message ?ls ''hi'') @ HttpRequestHeaderEnd) = Inr r"
    "header_get ''Content-Length'' (Header r) = itoa (length ''hi'')"
    using post(3,4) unfolding message_head(1) [of ?ls "''hi''", OF list.simps(3)] by auto
  have d: "drop (?i + 4) (message ?ls ''hi'') = ''hi''"
    by (rule message_head(2)) simp
  have cs: "concat (map (\<lambda>b. [b]) (bytes_of ?t)) = bytes_of ?t" "\<forall>c \<in> set (map (\<lambda>b. [b]) (bytes_of ?t)). c \<noteq> []"
    by simp_all
  from request_in_pieces [OF cs, unfolded t, OF i r(1), of "[]", unfolded d, OF r(2)]
  show ?thesis by (auto simp: comp_def)
qed

text \<open>
  C26. The request handlers of the two file servers agree: on the same parsed request and file
  system the TCP server's \<open>handleGet\<close> writes exactly the response the packet server's returns, and
  its \<open>handlePost\<close> gives the same response and the same files, unless two dots occur in the path and
  not at its start (there the checks of the path differ, and with them the servers).
\<close>

theorem servers_agree:
  "tcp_handleGet wd date req s = fst (handleGet wd date req s)
   \<and> ((str_contains (drop 1 (Path (URL req))) ''..'' \<longrightarrow> take 2 (drop 1 (Path (URL req))) = ''..'') \<longrightarrow>
      tcp_handlePost wd date req s =
         map_sum id (\<lambda>(s', response, err). (s', response)) (handlePost wd date req s))"
proof (intro conjI impI)
  show "tcp_handleGet wd date req s = fst (handleGet wd date req s)"
    by (simp add: tcp_handleGet_def handleGet_def makeResponse_agree handleError_agree split: sum.split)
next
  assume dots: "str_contains (drop 1 (Path (URL req))) ''..'' \<longrightarrow> take 2 (drop 1 (Path (URL req))) = ''..''"
  have "tcp_verifyFilePath (drop 1 (Path (URL req))) = verifyFilePath (drop 1 (Path (URL req)))"
  proof (cases "take 2 (drop 1 (Path (URL req))) = ''..''")
    case True
    then have "str_contains (drop 1 (Path (URL req))) ''..''"
      by (cases "drop 1 (Path (URL req))") (auto simp: str_contains_def)
    with True show ?thesis by (simp add: tcp_verifyFilePath_def verifyFilePath_def)
  qed (use dots in \<open>auto simp: tcp_verifyFilePath_def verifyFilePath_def\<close>)
  then show "tcp_handlePost wd date req s =
         map_sum id (\<lambda>(s', response, err). (s', response)) (handlePost wd date req s)"
    by (auto simp: tcp_handlePost_def handlePost_def makeResponse_agree handleError_agree go_slice_def
        split: sum.split option.split prod.split)
qed

definition example_post :: request where
  "example_post =
     \<lparr>Method = ''POST'', URL = example_url ''/x'', Header = [(''Content-Length'', ''2'')], Body = Whole ''hi''\<rparr>"

theorem servers_agree_witness:
  "tcp_handleGet ''/srv'' ''now'' example_post example_os = fst (handleGet ''/srv'' ''now'' example_post example_os)
   \<and> tcp_handlePost ''/srv'' ''now'' example_post example_os =
       map_sum id (\<lambda>(s', response, err). (s', response)) (handlePost ''/srv'' ''now'' example_post example_os)"
  using servers_agree [of "''/srv''" "''now''" example_post example_os]
  by (simp add: example_post_def example_url_def str_contains_def)

text \<open>
  C35. The TCP server's POST is not confined: its check looks at the first two characters only, so
  with a directory \<open>sub\<close> in the working directory a POST to \<open>/sub/../../name\<close> writes the file
  \<open>name\<close> next to the working directory, which the packet server refuses.
\<close>

theorem tcp_post_escapes:
  assumes "resolve s wd = Inr (up @ [x])" "lookup s (up @ [x]) = Some Directory"
    and "lookup s (up @ [x, sub]) = Some Directory" "lookup s up = Some Directory"
    and "lookup s (up @ [name]) = None"
    and "sub \<noteq> []" "take 2 sub \<noteq> ''..''" "sub \<noteq> ''.''" "CHR ''/'' \<notin> set sub" "CHR 0x00 \<notin> set sub"
    and "name \<noteq> []" "name \<noteq> ''.''" "name \<noteq> ''..''" "CHR ''/'' \<notin> set name" "CHR 0x00 \<notin> set name"
    and "faults s = no_faults" "Path (URL req) = ''/'' @ sub @ ''/../../'' @ name" "ReadAll (Body req) = Inr d"
  shows "\<not> below (up @ [x]) (FPath (up @ [name]))
     \<and> tcp_handlePost wd date req s =
         Inr (set_file (up @ [name]) d s, tcp_makeResponse date 201 [] [] [])
     \<and> (\<exists>response. handlePost wd date req s = Inr (s, response, None))"
proof -
  let ?p = "sub @ ''/../../'' @ name"
  have wd: "wd \<noteq> []" "CHR 0x00 \<notin> set wd" and walk: "walk s [] (path_comps (absolute s wd)) = Inr (up @ [x])"
    using assms(1) by (auto simp: resolve_def split: if_splits)
  have "absolute s (wd @ ''/'' @ ?p) =
      absolute s wd @ CHR ''/'' # sub @ CHR ''/'' # ''..'' @ CHR ''/'' # ''..'' @ CHR ''/'' # name"
    using wd(1) by (cases wd) (simp_all add: absolute_def)
  then have "path_comps (absolute s (wd @ ''/'' @ ?p)) = path_comps (absolute s wd) @ path_comps sub
      @ path_comps ''..'' @ path_comps ''..'' @ path_comps name"
    by (simp only: path_comps_append)
  then have comps: "path_comps (absolute s (wd @ ''/'' @ ?p)) =
      path_comps (absolute s wd) @ [sub, ''..'', ''..'', name]"
    using path_comps_single [OF assms(9,6)] path_comps_single [OF assms(14,11)]
    by (simp add: path_comps_def)
  have "sub \<noteq> ''..''" using assms(7) by auto
  then have res: "resolve s (wd @ ''/'' @ ?p) = Inr (up @ [name])"
    using assms wd walk comps by (simp add: resolve_def walk_append butlast_append)
  have "last name \<noteq> CHR ''/''" using assms(14) last_in_set [OF assms(11)] by metis
  then have "\<not> trailing_slash (wd @ ''/'' @ ?p)"
    using assms(11) by (simp add: trailing_slash_def)
  then have "Create (wd @ ''/'' @ ?p) s = Inr (up @ [name], set_file (up @ [name]) [] s)"
    using res assms(4,5,16) by (simp add: Create_def no_faults_def)
  moreover have "Write (wd @ ''/'' @ ?p) (up @ [name]) d (set_file (up @ [name]) [] s)
      = (None, set_file (up @ [name]) d s)"
    using assms(16) by (simp add: Write_def no_faults_def set_file_def)
  moreover have "tcp_verifyFilePath ?p"
    using assms(6,7) by (cases sub; cases "tl sub") (auto simp: tcp_verifyFilePath_def)
  moreover have "\<not> verifyFilePath ?p"
  proof -
    have "str_contains ?p ''..''"
      unfolding str_contains_iff by (intro exI [of _ "sub @ ''/''"] exI [of _ "''/../'' @ name"]) simp
    then show ?thesis by (simp add: verifyFilePath_def)
  qed
  ultimately show ?thesis
    using assms(17,18) by (simp add: tcp_handlePost_def handlePost_def go_slice_def below_def)
qed

theorem tcp_post_escapes_witness:
  "\<exists>response. tcp_handlePost ''/srv'' ''now''
      \<lparr>Method = ''POST'', URL = example_url ''/a/../../new'', Header = [], Body = Whole ''data''\<rparr> example_os
    = Inr (set_file [''new''] ''data'' example_os, response)"
proof -
  have l: "lookup example_os [''srv'', ''a''] = Some Directory" "lookup example_os [''new''] = None"
    by (simp_all add: lookup_def example_os_def)
  show ?thesis
    using tcp_post_escapes [of example_os "''/srv''" "[]" "''srv''" "''a''" "''new''"
        "\<lparr>Method = ''POST'', URL = example_url ''/a/../../new'', Header = [], Body = Whole ''data''\<rparr>"
        "''data''" "''now''"] l
    by (simp add: example_url_def)
qed

end
