(* ===== verification/Tcp_Httpc.thy ===== *)
theory Tcp_Httpc
  imports Tcp_Httpfs
begin

section \<open>The client over TCP (lab1-2/httpc/httpc.go)\<close>

text \<open>
  The earlier client: one connection per request, and redirects followed by calling \<open>get\<close> or
  \<open>post\<close> again.  The network is an argument \<open>web\<close>: given a host, the bytes written and the state
  \<open>'w\<close> of the world, the bytes read until the other side closes, or the error of \<open>Dial\<close>, \<open>Write\<close>
  or \<open>ReadAll\<close>.  Nothing bounds the redirects, so the operations are partial functions: \<open>None\<close>
  is a call that never returns.
\<close>

type_synonym 'w web = "string \<Rightarrow> bytes \<Rightarrow> 'w \<Rightarrow> (string + bytes) \<times> 'w"

record tcp_client =
  Proto :: string
  Verbose :: bool

definition checkError :: "(string + 'a) \<Rightarrow> 'a go" where
  "checkError r = (case r of Inl err \<Rightarrow> Inl (Fatal err) | Inr x \<Rightarrow> Inr x)"

lemma checkError_simps [simp]:
  "checkError (Inl err) = Inl (Fatal err)" "checkError (Inr x) = Inr x"
  by (simp_all add: checkError_def)

definition tcp_validateUrl :: "string \<Rightarrow> bool go" where
  "tcp_validateUrl inputUrl =
     go_bind (checkError (case ParseRequestURI inputUrl of None \<Rightarrow> Inl (''parse '' @ inputUrl) | Some u \<Rightarrow> Inr u))
       (\<lambda>u. Inr True)"

subsection \<open>One request\<close>

definition tcp_get_text :: "tcp_client \<Rightarrow> string \<Rightarrow> string \<Rightarrow> httpHeaderFlags \<Rightarrow> string" where
  "tcp_get_text c inputUrl host headers =
     ''GET '' @ inputUrl @ '' '' @ Proto c @ CRLF @ ''Host: '' @ host @ CRLF
     @ concat (map (\<lambda>header. header @ CRLF) headers) @ HttpRequestHeaderEnd"

definition tcp_post_text :: "tcp_client \<Rightarrow> string \<Rightarrow> string \<Rightarrow> httpHeaderFlags \<Rightarrow> string \<Rightarrow> string" where
  "tcp_post_text c inputUrl host headers data =
     ''POST '' @ inputUrl @ '' '' @ Proto c @ CRLF @ ''Host: '' @ host @ CRLF
     @ concat (map (\<lambda>header. header @ CRLF) headers)
     @ ''Content-Length: '' @ itoa (length data) @ HttpRequestHeaderEnd @ data"

text \<open>From the URL to the parsed response: the part \<open>get\<close> and \<open>post\<close> have in common.\<close>

definition tcp_fetch ::
    "'w web \<Rightarrow> (string \<Rightarrow> string) \<Rightarrow> string \<Rightarrow> 'w \<Rightarrow> (response \<times> bytes \<times> 'w) go" where
  "tcp_fetch web text inputUrl w =
     go_bind (checkError (case Parse inputUrl of None \<Rightarrow> Inl (''parse '' @ inputUrl) | Some u \<Rightarrow> Inr u)) (\<lambda>u.
       case web (Host u) (bytes_of (text (Host u))) w of
         (answer, w') \<Rightarrow>
           go_bind (checkError answer) (\<lambda>res.
           go_bind (checkError (ReadResponse (string_of res))) (\<lambda>httpRes.
             Inr (httpRes, res, w'))))"

text \<open>The branch for status 200, with what it prints.\<close>

definition tcp_show_ok ::
    "tcp_client \<Rightarrow> response \<Rightarrow> bytes \<Rightarrow> string \<Rightarrow> os \<Rightarrow> (os \<times> string list) go" where
  "tcp_show_ok c httpRes res output s =
     (if Verbose c then Inr (s, [string_of res])
      else
        (case ReadAll (res_Body httpRes) of
           Inl err \<Rightarrow> Inl (Fatal err)
         | Inr body \<Rightarrow>
             if output \<noteq> [] then
               (case WriteFile output body s of
                  (Some err, s') \<Rightarrow> Inl (Fatal (Error err))
                | (None, s') \<Rightarrow> Inr (s', []))
             else Inr (s, [body])))"

definition is_redirect :: "response \<Rightarrow> bool" where
  "is_redirect r \<longleftrightarrow> StatusCode r = 301 \<or> StatusCode r = 302"

definition redirectUrl :: "response \<Rightarrow> string" where
  "redirectUrl r = header_get ''Location'' (res_Header r)"

text \<open>The two error branches, and the answer when there is nothing to follow.\<close>

definition tcp_finish ::
    "tcp_client \<Rightarrow> response \<Rightarrow> bytes \<Rightarrow> string \<Rightarrow> os \<Rightarrow> 'w \<Rightarrow> (response \<times> os \<times> string list \<times> 'w) go" where
  "tcp_finish c httpRes res output s w =
     (if StatusCode httpRes = 200 then
        go_bind (tcp_show_ok c httpRes res output s) (\<lambda>(s', printed). Inr (httpRes, s', printed, w))
      else if is_redirect httpRes
      then Inr (httpRes, s, [''redirct error: missing Location in header''], w)
      else Inr (httpRes, s, [string_of res], w))"

definition after_redirect ::
    "response \<Rightarrow> (response \<times> os \<times> string list \<times> 'w) go \<Rightarrow> (response \<times> os \<times> string list \<times> 'w) go" where
  "after_redirect httpRes again =
     go_bind again (\<lambda>(r, s, printed, w).
       Inr (httpRes, s, (''redirect to '' @ redirectUrl httpRes) # printed, w))"

subsection \<open>get and post\<close>

partial_function (option) tcp_get ::
    "'w web \<Rightarrow> tcp_client \<Rightarrow> string \<Rightarrow> httpHeaderFlags \<Rightarrow> string \<Rightarrow> os \<Rightarrow> 'w
       \<Rightarrow> (response \<times> os \<times> string list \<times> 'w) go option" where
  "tcp_get web c inputUrl headers output s w =
     (case tcp_fetch web (\<lambda>host. tcp_get_text c inputUrl host headers) inputUrl w of
        Inl e \<Rightarrow> Some (Inl e)
      | Inr (httpRes, res, w') \<Rightarrow>
          if is_redirect httpRes \<and> redirectUrl httpRes \<noteq> [] then
            Option.bind (tcp_get web c (redirectUrl httpRes) [] output s w')
              (\<lambda>again. Some (after_redirect httpRes again))
          else Some (tcp_finish c httpRes res output s w'))"

partial_function (option) tcp_post ::
    "'w web \<Rightarrow> tcp_client \<Rightarrow> string \<Rightarrow> httpHeaderFlags \<Rightarrow> string \<Rightarrow> string \<Rightarrow> os \<Rightarrow> 'w
       \<Rightarrow> (response \<times> os \<times> string list \<times> 'w) go option" where
  "tcp_post web c inputUrl headers data output s w =
     (case tcp_fetch web (\<lambda>host. tcp_post_text c inputUrl host headers data) inputUrl w of
        Inl e \<Rightarrow> Some (Inl e)
      | Inr (httpRes, res, w') \<Rightarrow>
          if is_redirect httpRes \<and> redirectUrl httpRes \<noteq> [] then
            Option.bind (tcp_post web c (redirectUrl httpRes) headers data output s w')
              (\<lambda>again. Some (after_redirect httpRes again))
          else Some (tcp_finish c httpRes res output s w'))"

subsection \<open>Commands\<close>

definition tcp_loadDataFile :: "string \<Rightarrow> os \<Rightarrow> string go" where
  "tcp_loadDataFile file s =
     (case ReadFile file s of Inl err \<Rightarrow> Inl (Fatal (Error err)) | Inr contents \<Rightarrow> Inr contents)"

definition tcp_HandleGetRequest ::
    "'w web \<Rightarrow> tcp_client \<Rightarrow> string \<Rightarrow> httpHeaderFlags \<Rightarrow> string \<Rightarrow> os \<Rightarrow> 'w
       \<Rightarrow> (response \<times> os \<times> string list \<times> 'w) go option" where
  "tcp_HandleGetRequest web c url headers output s w =
     (case tcp_validateUrl url of
        Inl e \<Rightarrow> Some (Inl e)
      | Inr valid \<Rightarrow> tcp_get web c url headers output s w)"

definition tcp_HandlePostRequest ::
    "'w web \<Rightarrow> tcp_client \<Rightarrow> string \<Rightarrow> httpHeaderFlags \<Rightarrow> string \<Rightarrow> string \<Rightarrow> string \<Rightarrow> os \<Rightarrow> 'w
       \<Rightarrow> (response \<times> os \<times> string list \<times> 'w) go option" where
  "tcp_HandlePostRequest web c url headers data file output s w =
     (if data \<noteq> [] \<and> file \<noteq> [] then Some (Inl (Fatal ''cannot use [-d] and [-f] at same time''))
      else
        (case tcp_validateUrl url of
           Inl e \<Rightarrow> Some (Inl e)
         | Inr valid \<Rightarrow>
             (case (if data = [] \<and> file \<noteq> [] then tcp_loadDataFile file s else Inr data) of
                Inl e \<Rightarrow> Some (Inl e)
              | Inr d \<Rightarrow> tcp_post web c url headers d output s w)))"

text \<open>The loop of \<open>main\<close> over the words; one that is no command is skipped.\<close>

datatype tcp_command =
    Tcp_help string
  | Tcp_get string
  | Tcp_post string
  | Tcp_panics
  | Tcp_nothing

definition tcp_HelpMsg :: string where
  "tcp_HelpMsg = join_lines
     [[], ''httpc help '',
      ''httpc is a curl-like application but supports HTTP protocol only. '',
      ''Usage: '',
      HT # ''httpc command [arguments] '',
      ''The commands are: '',
      HT # ''get     executes a HTTP GET request and prints the response. '',
      HT # ''post'' @ [HT] @ ''executes a HTTP POST request and prints the response.   '',
      HT # ''help'' @ [HT] @ ''prints this screen. '',
      ''Use '' @ [CHR 0x22] @ ''httpc help [command]'' @ [CHR 0x22] @ '' for more information about a command.'']"

fun tcp_dispatch :: "string list \<Rightarrow> string list \<Rightarrow> string list \<Rightarrow> tcp_command" where
  "tcp_dispatch commandLineInput args [] = Tcp_nothing"
| "tcp_dispatch commandLineInput args (word # words) =
     (if word = ''help'' then
        Tcp_help (if contains commandLineInput ''get'' then HelpGetMsg
                  else if contains commandLineInput ''post'' then HelpPostMsg else tcp_HelpMsg)
      else if word = ''get'' then
        (case last_arg args of Inl e \<Rightarrow> Tcp_panics | Inr url \<Rightarrow> Tcp_get url)
      else if word = ''post'' then
        (case last_arg args of Inl e \<Rightarrow> Tcp_panics | Inr url \<Rightarrow> Tcp_post url)
      else tcp_dispatch commandLineInput args words)"

definition tcp_main :: "string list \<Rightarrow> (tcp_client \<times> flags \<times> tcp_command) go" where
  "tcp_main args =
     go_bind (read_args args) (\<lambda>(commandLineInput, fl, rest).
       Inr (\<lparr>Proto = ''HTTP/1.0'', Verbose = fl_verbose fl\<rparr>, fl,
            if commandLineInput = [] then Tcp_help tcp_HelpMsg
            else tcp_dispatch commandLineInput rest commandLineInput))"

subsection \<open>Redirects\<close>

text \<open>One redirect of a GET, from a URL, its headers and a world to the next.\<close>

inductive redirects ::
    "'w web \<Rightarrow> tcp_client \<Rightarrow> string \<times> httpHeaderFlags \<times> 'w \<Rightarrow> string \<times> httpHeaderFlags \<times> 'w \<Rightarrow> bool"
  for web :: "'w web" and c :: tcp_client where
  hop: "tcp_fetch web (\<lambda>host. tcp_get_text c url host headers) url w = Inr (httpRes, res, w') \<Longrightarrow>
        is_redirect httpRes \<Longrightarrow> redirectUrl httpRes \<noteq> [] \<Longrightarrow>
        redirects web c (url, headers, w) (redirectUrl httpRes, [], w')"

inductive_cases redirects_elim: "redirects web c (url, headers, w) x"

lemma tcp_get_hop:
  assumes "redirects web c (url, headers, w) (url', headers', w')"
  obtains httpRes where "redirectUrl httpRes = url'"
    "\<And>out s. tcp_get web c url headers out s w =
       Option.bind (tcp_get web c url' headers' out s w') (\<lambda>again. Some (after_redirect httpRes again))"
proof -
  from assms obtain httpRes res where f:
    "tcp_fetch web (\<lambda>host. tcp_get_text c url host headers) url w = Inr (httpRes, res, w')"
    "is_redirect httpRes" "redirectUrl httpRes \<noteq> []" "url' = redirectUrl httpRes" "headers' = []"
    by (auto elim: redirects_elim)
  then have "tcp_get web c url headers out s w =
       Option.bind (tcp_get web c url' headers' out s w') (\<lambda>again. Some (after_redirect httpRes again))"
    for out s
    by (subst tcp_get.simps) simp
  with f(4) show ?thesis by (intro that [of httpRes]) simp_all
qed

lemma tcp_get_final:
  assumes "tcp_fetch web (\<lambda>host. tcp_get_text c url host headers) url w = Inr (httpRes, res, w')"
    and "\<not> (is_redirect httpRes \<and> redirectUrl httpRes \<noteq> [])"
  shows "tcp_get web c url headers output s w = Some (tcp_finish c httpRes res output s w')"
  using assms by (subst tcp_get.simps) auto

text \<open>If \<open>get\<close> returns, the chain of redirects it followed ends.\<close>

lemma tcp_get_returns_ends:
  assumes "tcp_get web c url headers out s w = Some y"
  shows "\<exists>x. (redirects web c)\<^sup>*\<^sup>* (url, headers, w) x \<and> (\<forall>z. \<not> redirects web c x z)"
proof (rule tcp_get.raw_induct [OF _ assms, where P = "\<lambda>web c url headers out s w y.
      \<exists>x. (redirects web c)\<^sup>*\<^sup>* (url, headers, w) x \<and> (\<forall>z. \<not> redirects web c x z)"])
  fix get web c url headers out s w and y :: "(response \<times> os \<times> string list \<times> 'a) go"
  assume IH: "\<And>web c url headers out s w (y :: (response \<times> os \<times> string list \<times> 'a) go).
      get web c url headers out s w = Some y \<Longrightarrow>
      \<exists>x. (redirects web c)\<^sup>*\<^sup>* (url, headers, w) x \<and> (\<forall>z. \<not> redirects web c x z)"
    and eq: "(case tcp_fetch web (\<lambda>host. tcp_get_text c url host headers) url w of
        Inl e \<Rightarrow> Some (Inl e)
      | Inr (httpRes, res, w') \<Rightarrow>
          if is_redirect httpRes \<and> redirectUrl httpRes \<noteq> [] then
            Option.bind (get web c (redirectUrl httpRes) [] out s w')
              (\<lambda>again. Some (after_redirect httpRes again))
          else Some (tcp_finish c httpRes res out s w')) = Some y"
  show "\<exists>x. (redirects web c)\<^sup>*\<^sup>* (url, headers, w) x \<and> (\<forall>z. \<not> redirects web c x z)"
  proof (cases "\<exists>z. redirects web c (url, headers, w) z")
    case True
    then obtain z where z: "redirects web c (url, headers, w) z" by blast
    then obtain httpRes res w' where f:
      "tcp_fetch web (\<lambda>host. tcp_get_text c url host headers) url w = Inr (httpRes, res, w')"
      "is_redirect httpRes" "redirectUrl httpRes \<noteq> []" "z = (redirectUrl httpRes, [], w')"
      by (rule redirects_elim) auto
    with eq obtain y' where "get web c (redirectUrl httpRes) [] out s w' = Some y'"
      by (auto simp: bind_eq_Some_conv)
    from IH [OF this] f(4) z show ?thesis by (meson converse_rtranclp_into_rtranclp)
  qed blast
qed

lemma redirects_unique:
  assumes "redirects web c x y" "redirects web c x z"
  shows "y = z"
proof -
  obtain url headers w where "x = (url, headers, w)" by (cases x)
  with assms show ?thesis by (auto elim!: redirects_elim)
qed

lemma cycle_returns:
  assumes "(redirects web c)\<^sup>*\<^sup>* x y" "(redirects web c)\<^sup>+\<^sup>+ x x"
  shows "(redirects web c)\<^sup>+\<^sup>+ y y"
  using assms
proof (induction rule: rtranclp_induct)
  case (step y z)
  then have "(redirects web c)\<^sup>+\<^sup>+ y y" by blast
  then obtain u where u: "redirects web c y u" "(redirects web c)\<^sup>*\<^sup>* u y"
    by (meson tranclpD)
  then have "u = z" using step.hyps(2) redirects_unique by metis
  with u(2) step.hyps(2) show ?case by (meson rtranclp_into_tranclp1)
qed

subsection \<open>Against the TCP server\<close>

text \<open>A request without a length is taken as soon as its header is there.\<close>

lemma conn_loop_no_length:
  assumes "concat cs = rest" "\<forall>c \<in> set cs. c \<noteq> []" "\<not> i + 4 \<le> length tmp"
    and "tmp @ string_of rest = m" "str_index m HttpRequestHeaderEnd = Some i"
    and "ReadRequest (take i m @ HttpRequestHeaderEnd) = Inr r"
    and "header_get ''Content-Length'' (Header r) = []"
  shows "conn_loop (map (\<lambda>c. (c, No_error)) cs @ later) tmp None = Request r"
  using assms
proof (induction cs arbitrary: tmp rest)
  case Nil
  then show ?case using str_index_SomeD [of m HttpRequestHeaderEnd i] by (simp add: string_of_def)
next
  case (Cons c cs)
  define tmp' where "tmp' = tmp @ string_of c"
  have split: "m = tmp' @ string_of (concat cs)"
    using Cons.prems(1,4) by (auto simp: tmp'_def string_of_append)
  have idx: "str_index tmp' HttpRequestHeaderEnd = (if i + 4 \<le> length tmp' then Some i else None)"
    using str_index_prefix [of tmp' "string_of (concat cs)"] Cons.prems(5) split by simp
  have c: "c \<noteq> []" using Cons.prems(2) by simp
  show ?case
  proof (cases "i + 4 \<le> length tmp'")
    case True
    then have "take i tmp' = take i m" using split by simp
    with idx True Cons.prems(6) have "conn_parse tmp' None = Some (Some r)" by (simp add: conn_parse_def)
    with c Cons.prems(7) show ?thesis by (simp add: tmp'_def [symmetric] conn_complete_def Let_def)
  next
    case False
    with idx have "conn_parse tmp' None = Some None" by (simp add: conn_parse_def)
    moreover have "conn_loop (map (\<lambda>c. (c, No_error)) cs @ later) tmp' None = Request r"
      using Cons.prems(2,5-7) False split by (intro Cons.IH [OF refl]) auto
    ultimately show ?thesis using c by (simp add: tmp'_def [symmetric] conn_complete_def Let_def)
  qed
qed

text \<open>The world of one file server whose connections cut what they carry with \<open>pieces\<close>.\<close>

definition tcp_web :: "(bytes \<Rightarrow> bytes list) \<Rightarrow> string \<Rightarrow> string \<Rightarrow> os web" where
  "tcp_web pieces wd date host req w =
     (case handleConn wd date (map (\<lambda>c. (c, No_error)) (pieces req)) w of
        Some (Inr (w', out)) \<Rightarrow> (Inr out, w')
      | _ \<Rightarrow> (Inl ''connection reset'', w))"

lemma get_header:
  assumes h: "plain_host host" and p: "path = [] \<or> take 1 path = ''/''" "list_all plain_path_char path"
    and hs: "list_all plain_header headers"
    and ls: "ls = (''GET '' @ http_url host path @ '' HTTP/1.0'') # (''Host: '' @ host) # headers"
  shows "get_text ''HTTP/1.0'' (http_url host path) host headers = message ls CRLF"
    and "\<forall>l \<in> set ls. plain_line l"
    and "ReadRequest (message ls []) =
      Inr \<lparr>Method = ''GET'', URL = \<lparr>Scheme = ''http'', Host = host, Path = path, Opaque = []\<rparr>,
           Header = fixPragmaCacheControl (map field_of headers), Body = NoBody\<rparr>"
    and "header_get ''Content-Length'' (fixPragmaCacheControl (map field_of headers)) = []"
proof -
  note keys = plain_headers_keys [OF hs]
  have "read_transfer False False (fixPragmaCacheControl (map field_of headers)) [] =
      Inr (fixPragmaCacheControl (map field_of headers), NoBody)"
    using header_values_none [OF keys] header_del_none [OF fixPragma_absent [OF keys]]
    by (simp add: read_transfer_def fixLength_def)
  then show "ReadRequest (message ls []) =
      Inr \<lparr>Method = ''GET'', URL = \<lparr>Scheme = ''http'', Host = host, Path = path, Opaque = []\<rparr>,
           Header = fixPragmaCacheControl (map field_of headers), Body = NoBody\<rparr>"
    using ReadRequest_message [OF h p _ tokens(1) _ plain_headers_lines(1) [OF hs]] keys
    by (simp add: ls)
  show "header_get ''Content-Length'' (fixPragmaCacheControl (map field_of headers)) = []"
    using header_values_none [OF keys] by (simp add: header_get_def)
  show "\<forall>l \<in> set ls. plain_line l"
    using plain_headers_lines(2) [OF hs] request_line_plain [OF h p(2) _ tokens(1)] host_line(1) [OF h]
    by (auto simp: field_line_def ls)
  show "get_text ''HTTP/1.0'' (http_url host path) host headers = message ls CRLF"
    unfolding get_text_message ls by simp
qed

subsection \<open>Examples\<close>

text \<open>A server that answers everything with a redirect, and a world where the host
  \<open>127.0.0.1:1\<close> does so and every other host answers.\<close>

definition redirect_to :: "string \<Rightarrow> bytes" where
  "redirect_to target = bytes_of (message [''HTTP/1.1 '' @ itoa 302 @ '' '' @ StatusText 302, ''Location: '' @ target] [])"

definition looping_web :: "string \<Rightarrow> unit web" where
  "looping_web target host req w = (Inr (redirect_to target), w)"

definition two_hosts :: "unit web" where
  "two_hosts host req w =
     (if host = ''127.0.0.1:1'' then Inr (redirect_to (http_url ''127.0.0.1:2'' ''/x''))
      else Inr (makeResponse ''now'' 200 ''text/plain'' [] ''data''), w)"

definition quiet_client :: tcp_client where
  "quiet_client = \<lparr>Proto = ''HTTP/1.0'', Verbose = False\<rparr>"

lemma redirect_read:
  assumes "plain_value target"
  shows "\<exists>r. ReadResponse (string_of (redirect_to target)) = Inr r \<and> is_redirect r \<and> redirectUrl r = target"
proof -
  have tok: "list_all token_char ''Location''" by (simp add: token_char_def is_letter_def Let_def)
  have f: "field_line (''Location: '' @ target)" "field_of (''Location: '' @ target) = (''Location'', target)"
    using value_field [OF _ tok assms] by (simp_all add: canonical_simps)
  have "read_transfer True True [(''Location'', target)] [] = Inr ([(''Location'', target)], Whole [])"
    by (simp add: read_transfer_def header_values_def header_del_def fixLength_def)
  moreover have "fixPragmaCacheControl [(''Location'', target)] = [(''Location'', target)]"
    by (rule fixPragma_none) simp
  ultimately show ?thesis
    using ReadResponse_message [of 302 "[''Location: '' @ target]" "[]"] f
    by (simp add: redirect_to_def is_redirect_def redirectUrl_def header_get_def header_values_def)
qed

lemma example_urls:
  assumes "h \<in> {''127.0.0.1:1'', ''127.0.0.1:2''}"
  shows "Parse (http_url h ''/x'') = Some \<lparr>Scheme = ''http'', Host = h, Path = ''/x'', Opaque = []\<rparr>"
    and "plain_value (http_url h ''/x'')"
proof -
  have p: "list_all plain_path_char ''x''" by (simp add: plain_path_char_def is_ctl_def)
  have "plain_host h"
    unfolding plain_host_def
    by (intro exI [of _ "''127.0.0.1''"] exI [of _ "[last h]"]) (use assms in \<open>auto simp: is_digit_def\<close>)
  from Parse_http_url(1) [OF this path_ok [OF p]]
  show "Parse (http_url h ''/x'') = Some \<lparr>Scheme = ''http'', Host = h, Path = ''/x'', Opaque = []\<rparr>" by simp
  show "plain_value (http_url h ''/x'')"
    using assms by (auto simp: plain_value_def http_url_def is_blank_def)
qed

lemma looping_redirects:
  "redirects (looping_web (http_url ''127.0.0.1:1'' ''/x'')) c (http_url ''127.0.0.1:1'' ''/x'', headers, w)
     (http_url ''127.0.0.1:1'' ''/x'', [], w)"
proof -
  let ?u = "http_url ''127.0.0.1:1'' ''/x''"
  have h: "''127.0.0.1:1'' \<in> {''127.0.0.1:1'', ''127.0.0.1:2''}" by simp
  obtain r where r: "ReadResponse (string_of (redirect_to ?u)) = Inr r" "is_redirect r" "redirectUrl r = ?u"
    using redirect_read [OF example_urls(2) [OF h]] by blast
  then have "tcp_fetch (looping_web ?u) (\<lambda>host. tcp_get_text c ?u host headers) ?u w = Inr (r, redirect_to ?u, w)"
    using example_urls(1) [OF h] by (simp add: tcp_fetch_def looping_web_def)
  from redirects.hop [OF this r(2)] r(3) show ?thesis by (simp add: http_url_def)
qed

subsection \<open>Properties\<close>

text \<open>
  C27. A GET follows its redirects to the end: when the redirects from a URL lead to one whose
  response is not followed further, \<open>get\<close> returns, and it has done with that last response what it
  does with a direct one (the same files, the same world, the same failure), printing one line per
  redirect before.
\<close>

theorem get_follows_redirects:
  assumes "(redirects web c)\<^sup>*\<^sup>* (url, headers, w) (url', headers', w')"
    and "tcp_fetch web (\<lambda>host. tcp_get_text c url' host headers') url' w' = Inr (httpRes, res, w'')"
    and "\<not> (is_redirect httpRes \<and> redirectUrl httpRes \<noteq> [])"
  shows "\<exists>y. tcp_get web c url headers out s w = Some y
     \<and> (case tcp_finish c httpRes res out s w'' of
          Inl e \<Rightarrow> y = Inl e
        | Inr (r, s', printed, w3) \<Rightarrow> \<exists>first hops. y = Inr (first, s', hops @ printed, w3))"
proof -
  have "\<exists>y. tcp_get web c (fst x) (fst (snd x)) out s (snd (snd x)) = Some y
     \<and> (case tcp_finish c httpRes res out s w'' of
          Inl e \<Rightarrow> y = Inl e
        | Inr (r, s', printed, w3) \<Rightarrow> \<exists>first hops. y = Inr (first, s', hops @ printed, w3))"
    if "(redirects web c)\<^sup>*\<^sup>* x (url', headers', w')" for x
    using that
  proof (induction rule: converse_rtranclp_induct)
    case base
    show ?case
      using tcp_get_final [OF assms(2,3)] by (auto split: sum.split)
  next
    case (step x z)
    obtain u h v u' h' v' where xz: "x = (u, h, v)" "z = (u', h', v')" by (cases x, cases z)
    from step.hyps(1) obtain hr where hr: "\<And>out s. tcp_get web c u h out s v =
        Option.bind (tcp_get web c u' h' out s v') (\<lambda>again. Some (after_redirect hr again))"
      unfolding xz by (rule tcp_get_hop) blast
    from step.IH obtain y where y: "tcp_get web c u' h' out s v' = Some y"
      "case tcp_finish c httpRes res out s w'' of
          Inl e \<Rightarrow> y = Inl e
        | Inr (r, s', printed, w3) \<Rightarrow> \<exists>first hops. y = Inr (first, s', hops @ printed, w3)"
      by (auto simp: xz)
    have "tcp_get web c u h out s v = Some (after_redirect hr y)" using hr y(1) by simp
    with y(2) show ?case
      by (auto simp: xz after_redirect_def split: sum.splits intro: exI [of _ "_ # _"])
  qed
  from this [OF assms(1)] show ?thesis by simp
qed

theorem get_follows_redirects_witness:
  "\<exists>first hops. tcp_get two_hosts quiet_client (http_url ''127.0.0.1:1'' ''/x'') [''A: b''] [] example_client_os () =
     Some (Inr (first, example_client_os, hops @ [''data''], ()))"
proof -
  let ?u1 = "http_url ''127.0.0.1:1'' ''/x''" and ?u2 = "http_url ''127.0.0.1:2'' ''/x''"
  have h: "''127.0.0.1:1'' \<in> {''127.0.0.1:1'', ''127.0.0.1:2''}" "''127.0.0.1:2'' \<in> {''127.0.0.1:1'', ''127.0.0.1:2''}"
    by simp_all
  obtain r where r: "ReadResponse (string_of (redirect_to ?u2)) = Inr r" "is_redirect r" "redirectUrl r = ?u2"
    using redirect_read [OF example_urls(2) [OF h(2)]] by blast
  have "tcp_fetch two_hosts (\<lambda>host. tcp_get_text quiet_client ?u1 host [''A: b'']) ?u1 () = Inr (r, redirect_to ?u2, ())"
    using example_urls(1) [OF h(1)] r(1) by (simp add: tcp_fetch_def two_hosts_def)
  from redirects.hop [OF this r(2)] r(3)
  have hop: "(redirects two_hosts quiet_client)\<^sup>*\<^sup>* (?u1, [''A: b''], ()) (?u2, [], ())"
    by (simp add: http_url_def r_into_rtranclp)
  obtain r2 where r2: "paresHttpResponse (makeResponse ''now'' 200 ''text/plain'' [] ''data'') = Inr r2"
    "StatusCode r2 = 200" "ReadAll (res_Body r2) = Inr ''data''"
    using response_parsed [of 200 "''now''" "''text/plain''" "[]" "''data''"] text_plain_value
    by (auto simp: plain_value_def is_blank_def)
  have f: "tcp_fetch two_hosts (\<lambda>host. tcp_get_text quiet_client ?u2 host []) ?u2 () =
      Inr (r2, makeResponse ''now'' 200 ''text/plain'' [] ''data'', ())"
    using example_urls(1) [OF h(2)] r2(1) by (simp add: tcp_fetch_def two_hosts_def paresHttpResponse_def)
  have n: "\<not> (is_redirect r2 \<and> redirectUrl r2 \<noteq> [])" using r2(2) by (simp add: is_redirect_def)
  from get_follows_redirects [OF hop f n, of "[]" example_client_os] r2(2,3) show ?thesis
    by (auto simp: tcp_finish_def tcp_show_ok_def quiet_client_def)
qed

text \<open>
  C28. Nothing bounds the redirects: when they come back to where they were, \<open>get\<close> never returns.
\<close>

theorem redirect_cycle_diverges:
  assumes "(redirects web c)\<^sup>+\<^sup>+ (url, headers, w) (url, headers, w)"
  shows "tcp_get web c url headers out s w = None"
proof (cases "tcp_get web c url headers out s w")
  case (Some y)
  then obtain x where x: "(redirects web c)\<^sup>*\<^sup>* (url, headers, w) x" "\<forall>z. \<not> redirects web c x z"
    using tcp_get_returns_ends [OF Some] by blast
  with cycle_returns [OF x(1) assms] show ?thesis by (meson tranclpD)
qed

theorem redirect_cycle_diverges_witness:
  "tcp_get (looping_web (http_url ''127.0.0.1:1'' ''/x'')) quiet_client (http_url ''127.0.0.1:1'' ''/x'') [] [] example_client_os () = None"
  by (rule redirect_cycle_diverges) (rule tranclp.r_into_trancl, rule looping_redirects)

text \<open>
  A download over TCP: from a server that has a non-empty file at the path, whatever way the
  connection cuts the request, the client's \<open>get\<close> of a URL of the usual form returns, and leaves in
  the output file exactly the contents of the server's file, and the server's files as they were.
\<close>

theorem tcp_download:
  assumes h: "plain_host host" and name: "name \<noteq> []" "list_all plain_path_char name"
    and hs: "list_all plain_header headers" and date: "plain_value date"
    and server: "ReadFile (wd @ ''/'' @ name) w = Inr data" "data \<noteq> []" "length data < 2 ^ 63"
    and pieces: "concat (pieces req) = req" "\<forall>c \<in> set (pieces req). c \<noteq> []"
      "req = bytes_of (get_text ''HTTP/1.0'' (http_url host (''/'' @ name)) host headers)"
    and client: "out \<noteq> []" "Create out s = Inr (q, s1)" "faults s = no_faults"
    and c: "c = \<lparr>Proto = ''HTTP/1.0'', Verbose = False\<rparr>"
  shows "\<exists>r. tcp_get (tcp_web pieces wd date) c (http_url host (''/'' @ name)) headers out s w
     = Some (Inr (r, set_file q data s, [], w))"
proof -
  let ?u = "http_url host (''/'' @ name)"
  let ?ls = "(''GET '' @ ?u @ '' HTTP/1.0'') # (''Host: '' @ host) # headers"
  let ?i = "length (concat (map (\<lambda>l. l @ CRLF) ?ls)) - 2"
  let ?r = "\<lparr>Method = ''GET'', URL = \<lparr>Scheme = ''http'', Host = host, Path = ''/'' @ name, Opaque = []\<rparr>,
      Header = fixPragmaCacheControl (map field_of headers), Body = NoBody\<rparr>"
  let ?cd = "''attachment; filename='' @ name"
  note url = Parse_http_url [OF h path_ok [OF name(2)]]
  note get = get_header [OF h path_ok [OF name(2)] hs refl]
  have m: "string_of req = message ?ls CRLF" unfolding pieces(3) get(1) by simp
  have "conn_loop (map (\<lambda>c. (c, No_error)) (pieces req) @ []) [] None = Request ?r"
  proof (rule conn_loop_no_length [OF pieces(1,2), where i = ?i and m = "message ?ls CRLF"])
    show "str_index (message ?ls CRLF) HttpRequestHeaderEnd = Some ?i"
      by (rule message_end [OF _ get(2)]) simp
    show "ReadRequest (take ?i (message ?ls CRLF) @ HttpRequestHeaderEnd) = Inr ?r"
      unfolding message_head(1) [of ?ls CRLF, OF list.simps(3)] by (rule get(3))
  qed (use get(4) m in simp_all)
  then have answer: "tcp_web pieces wd date host req w =
      (Inr (makeResponse date 200 ''text/plain'' ?cd data), w)"
    using server(1) by (simp add: tcp_web_def handleConn_def tcp_handleGet_def makeResponse_agree)
  obtain r where r: "paresHttpResponse (makeResponse date 200 ''text/plain'' ?cd data) = Inr r"
    "StatusCode r = 200" "ReadAll (res_Body r) = Inr data"
    using response_parsed [of 200 date "''text/plain''" ?cd data]
      date text_plain_value attachment_value [OF name] server(2,3) by auto
  have "tcp_get_text c ?u host headers = get_text ''HTTP/1.0'' ?u host headers"
    by (simp add: tcp_get_text_def get_text_def header_lines_def c)
  then have fetch: "tcp_fetch (tcp_web pieces wd date) (\<lambda>host. tcp_get_text c ?u host headers) ?u w =
      Inr (r, makeResponse date 200 ''text/plain'' ?cd data, w)"
    using url(1) answer r(1) pieces(3) by (simp add: tcp_fetch_def paresHttpResponse_def)
  have written: "WriteFile out data s = (None, set_file q data s)"
  proof -
    have "s1 = set_file q [] s" by (rule Create_frame(1) [OF client(2)])
    with client(2,3) show ?thesis by (simp add: WriteFile_def Write_def no_faults_def set_file_def)
  qed
  have "\<not> (is_redirect r \<and> redirectUrl r \<noteq> [])" using r(2) by (simp add: is_redirect_def)
  from tcp_get_final [OF fetch this] r(2,3) written client(1) show ?thesis
    by (simp add: tcp_finish_def tcp_show_ok_def c)
qed

theorem tcp_download_witness:
  "\<exists>r s'. tcp_get (tcp_web (map (\<lambda>b. [b])) ''/srv'' ''now'') quiet_client
        (http_url ''127.0.0.1:8007'' ''/b.txt'') [] ''out'' example_client_os example_os = Some (Inr (r, s', [], example_os))
     \<and> lookup s' [''home'', ''out''] = Some (File ''bee'')"
proof -
  have p: "list_all plain_path_char ''b.txt''" by (simp add: plain_path_char_def is_ctl_def)
  have d: "plain_value ''now''" by (simp add: plain_value_def is_blank_def)
  have r: "ReadFile (''/srv'' @ ''/'' @ ''b.txt'') example_os = Inr ''bee''"
    by (simp add: ReadFile_def open_read_def example_os_def resolve_def absolute_def path_comps_def lookup_def
        no_faults_def trailing_slash_def)
  have x: "''b.txt'' \<noteq> []" "''bee'' \<noteq> []" "length ''bee'' < 2 ^ 63" "''out'' \<noteq> []" by simp_all
  have f: "faults example_client_os = no_faults" by (simp add: example_client_os_def)
  have hs: "list_all plain_header []" by simp
  have cs: "concat (map (\<lambda>b. [b]) bs) = bs" "\<forall>c \<in> set (map (\<lambda>b. [b]) bs). c \<noteq> []" for bs :: bytes
    by simp_all
  from tcp_download [where pieces = "map (\<lambda>b. [b])", OF example_host x(1) p hs d r x(2,3) cs refl x(4) example_creates(2) f quiet_client_def]
  show ?thesis by (auto simp: lookup_set_file)
qed

end
