(* ===== verification/Go_Flag.thy ===== *)
theory Go_Flag
  imports Command_Line Complex_Main
begin

section \<open>Typed flags (what the servers use of flag, strconv and time)\<close>

text \<open>
  \<open>flag.Parse\<close> on a table of typed flags, as the servers, the router and the handout programs declare
  them, with the number formats it reads: \<open>strconv.ParseInt\<close> in base 0, \<open>strconv.ParseFloat\<close> and
  \<open>time.ParseDuration\<close>.  Floating-point numbers are rationals (no rounding, no infinities, no NaN and
  no hexadecimal form); underscores between digits are not read.
\<close>

subsection \<open>Numbers\<close>

definition hex_value :: "char \<Rightarrow> nat option" where
  "hex_value c =
     (let n = of_char c in
      if 48 \<le> n \<and> n \<le> 57 then Some (n - 48)
      else if 97 \<le> n \<and> n \<le> 102 then Some (n - 87)
      else if 65 \<le> n \<and> n \<le> 70 then Some (n - 55)
      else None)"

fun parse_base :: "nat \<Rightarrow> nat \<Rightarrow> string \<Rightarrow> nat option" where
  "parse_base b acc [] = Some acc"
| "parse_base b acc (c # cs) =
     (case hex_value c of
        None \<Rightarrow> None
      | Some d \<Rightarrow> if d < b then parse_base b (b * acc + d) cs else None)"

text \<open>Base 0: the prefix chooses the base, and a leading zero alone means octal.\<close>

definition parse_prefixed :: "string \<Rightarrow> nat option" where
  "parse_prefixed s =
     (if take 1 s \<noteq> ''0'' then parse_base 10 0 s
      else if 3 \<le> length s \<and> s ! 1 \<in> set ''bB'' then parse_base 2 0 (drop 2 s)
      else if 3 \<le> length s \<and> s ! 1 \<in> set ''oO'' then parse_base 8 0 (drop 2 s)
      else if 3 \<le> length s \<and> s ! 1 \<in> set ''xX'' then parse_base 16 0 (drop 2 s)
      else parse_base 8 0 (drop 1 s))"

text \<open>An optional sign; \<open>True\<close> is minus.\<close>

definition split_sign :: "string \<Rightarrow> bool \<times> string" where
  "split_sign s =
     (if take 1 s = ''-'' then (True, drop 1 s)
      else if take 1 s = ''+'' then (False, drop 1 s)
      else (False, s))"

definition ParseInt64 :: "string \<Rightarrow> int option" where
  "ParseInt64 s =
     (case split_sign s of
        (neg, s') \<Rightarrow>
          if s' = [] then None
          else
            (case parse_prefixed s' of
               None \<Rightarrow> None
             | Some n \<Rightarrow>
                 if neg then (if n \<le> 2 ^ 63 then Some (- int n) else None)
                 else (if n < 2 ^ 63 then Some (int n) else None)))"

text \<open>Digits and the rest, and a fraction after the point: its digits as a number, and the scale.\<close>

definition leading_digits :: "string \<Rightarrow> string \<times> string" where
  "leading_digits s = (takeWhile is_digit s, dropWhile is_digit s)"

definition digits_value :: "string \<Rightarrow> nat" where
  "digits_value ds = (case parse_dec 0 ds of None \<Rightarrow> 0 | Some n \<Rightarrow> n)"

text \<open>\<open>(integer digits, fraction digits, rest)\<close>; \<open>None\<close> without any digit.\<close>

definition leading_decimal :: "string \<Rightarrow> (string \<times> string \<times> string) option" where
  "leading_decimal s =
     (case leading_digits s of
        (ip, rest) \<Rightarrow>
          (case (if take 1 rest = ''.'' then leading_digits (drop 1 rest) else ([], rest)) of
             (fp, rest') \<Rightarrow> if ip = [] \<and> fp = [] then None else Some (ip, fp, rest')))"

definition ParseFloat :: "string \<Rightarrow> rat option" where
  "ParseFloat s =
     (case split_sign s of
        (neg, s') \<Rightarrow>
          (case leading_decimal s' of
             None \<Rightarrow> None
           | Some (ip, fp, rest) \<Rightarrow>
               (let v = of_nat (digits_value (ip @ fp)) / 10 ^ length fp;
                    signed = (if neg then - v else v)
                in if rest = [] then Some signed
                   else if take 1 rest = ''e'' \<or> take 1 rest = ''E'' then
                     (case split_sign (drop 1 rest) of
                        (eneg, e) \<Rightarrow>
                          if e = [] \<or> \<not> list_all is_digit e then None
                          else if eneg then Some (signed / 10 ^ digits_value e)
                          else Some (signed * 10 ^ digits_value e))
                   else None)))"

subsection \<open>Durations\<close>

definition unit_map :: "string \<Rightarrow> nat option" where
  "unit_map = map_of
     [(''ns'', 1), (''us'', 1000), ([CHR 0xC2, CHR 0xB5, CHR ''s''], 1000),
      ([CHR 0xCE, CHR 0xBC, CHR ''s''], 1000), (''ms'', 1000000), (''s'', 1000000000),
      (''m'', 60000000000), (''h'', 3600000000000)]"

definition unit_char :: "char \<Rightarrow> bool" where
  "unit_char c \<longleftrightarrow> c \<noteq> CHR ''.'' \<and> \<not> is_digit c"

lemma leading_decimal_shrinks:
  assumes "leading_decimal s = Some (ip, fp, rest)"
  shows "length rest < length s"
proof -
  define r where "r = dropWhile is_digit s"
  have split: "length (takeWhile is_digit s) + length r = length s"
    unfolding r_def by (metis length_append takeWhile_dropWhile_id)
  show ?thesis
  proof (cases "take 1 r = ''.''")
    case True
    then have "r \<noteq> []" by auto
    have "rest = dropWhile is_digit (drop 1 r)"
      using assms True by (simp add: leading_decimal_def leading_digits_def r_def split: if_splits)
    moreover have "length (dropWhile is_digit (drop 1 r)) \<le> length (drop 1 r)" by (rule length_dropWhile_le)
    moreover have "length (drop 1 r) < length r" using \<open>r \<noteq> []\<close> by simp
    ultimately have "length rest < length r" by simp
    with split show ?thesis by linarith
  next
    case False
    then have "rest = r" "takeWhile is_digit s \<noteq> []"
      using assms by (auto simp: leading_decimal_def leading_digits_def r_def split: if_splits)
    then have "length rest = length r" "0 < length (takeWhile is_digit s)" by simp_all
    with split show ?thesis by linarith
  qed
qed

text \<open>A sequence of decimals with units; nanoseconds, at most \<open>2 ^ 63\<close> at every point.\<close>

function parse_units :: "nat \<Rightarrow> string \<Rightarrow> nat option" where
  "parse_units d s =
     (if s = [] then Some d
      else
        (case leading_decimal s of
           None \<Rightarrow> None
         | Some (ip, fp, rest) \<Rightarrow>
             (case unit_map (takeWhile unit_char rest) of
                None \<Rightarrow> None
              | Some u \<Rightarrow>
                  (let v = digits_value ip * u + digits_value fp * u div 10 ^ length fp in
                   if digits_value ip > 2 ^ 63 div u \<or> v > 2 ^ 63 \<or> d + v > 2 ^ 63 then None
                   else parse_units (d + v) (dropWhile unit_char rest)))))"
  by pat_completeness auto

termination
proof (relation "measure (\<lambda>(d, s). length s)", goal_cases)
  case (2 d s a ip b fp rest u v)
  then have "length rest < length s" using leading_decimal_shrinks by blast
  moreover have "length (dropWhile unit_char rest) \<le> length rest" by (rule length_dropWhile_le)
  ultimately show ?case by simp
qed simp

declare parse_units.simps [simp del]

definition ParseDuration :: "string \<Rightarrow> 64 word option" where
  "ParseDuration s =
     (case split_sign s of
        (neg, s') \<Rightarrow>
          if s' = ''0'' then Some 0
          else if s' = [] then None
          else
            (case parse_units 0 s' of
               None \<Rightarrow> None
             | Some d \<Rightarrow>
                 if neg then Some (- word_of_nat d)
                 else if d > 2 ^ 63 - 1 then None
                 else Some (word_of_nat d)))"

subsection \<open>Tables of flags\<close>

datatype flag_value =
    Bool_value bool
  | String_value string
  | Int_value int
  | Float_value rat
  | Duration_value "64 word"

type_synonym flag_table = "(string \<times> flag_value) list"

fun set_value :: "flag_value \<Rightarrow> string \<Rightarrow> flag_value option" where
  "set_value (Bool_value b) s = map_option Bool_value (parse_bool s)"
| "set_value (String_value v) s = Some (String_value s)"
| "set_value (Int_value n) s = map_option Int_value (ParseInt64 s)"
| "set_value (Float_value r) s = map_option Float_value (ParseFloat s)"
| "set_value (Duration_value d) s = map_option Duration_value (ParseDuration s)"

definition set_in :: "string \<Rightarrow> flag_value \<Rightarrow> flag_table \<Rightarrow> flag_table" where
  "set_in name v = map (\<lambda>(n, w). if n = name then (n, v) else (n, w))"

text \<open>
  \<open>flag.Parse\<close>: the values and the remaining words, or the exit status after an error (2) or after a
  request for help that no flag answers (0).
\<close>

datatype parsed = Parsed flag_table "string list" | Exit_status nat

function parse_table :: "string list \<Rightarrow> flag_table \<Rightarrow> parsed" where
  "parse_table [] t = Parsed t []"
| "parse_table (s # rest) t =
     (if \<not> is_flag s then Parsed t (s # rest)
      else if s = ''--'' then Parsed t rest
      else
        (let name = (if s ! 1 = CHR ''-'' then drop 2 s else drop 1 s) in
         if name = [] \<or> hd name = CHR ''-'' \<or> hd name = CHR ''='' then Exit_status 2
         else
           (let (n, given) = (case cut_at CHR ''='' name of None \<Rightarrow> (name, None) | Some (n, v) \<Rightarrow> (n, Some v)) in
            case map_of t n of
              None \<Rightarrow> if n = ''help'' \<or> n = ''h'' then Exit_status 0 else Exit_status 2
            | Some v \<Rightarrow>
                (case (given, v) of
                   (Some x, _) \<Rightarrow>
                     (case set_value v x of
                        None \<Rightarrow> Exit_status 2
                      | Some v' \<Rightarrow> parse_table rest (set_in n v' t))
                 | (None, Bool_value b) \<Rightarrow> parse_table rest (set_in n (Bool_value True) t)
                 | (None, _) \<Rightarrow>
                     (case rest of
                        [] \<Rightarrow> Exit_status 2
                      | x # rest' \<Rightarrow>
                          (case set_value v x of
                             None \<Rightarrow> Exit_status 2
                           | Some v' \<Rightarrow> parse_table rest' (set_in n v' t)))))))"
  by pat_completeness auto
termination
  by (relation "measure (length \<circ> fst)") auto

declare parse_table.simps(2) [simp del]

text \<open>Reading a value; the type of a flag never changes.\<close>

fun bool_of :: "flag_value option \<Rightarrow> bool" where
  "bool_of (Some (Bool_value b)) = b"
| "bool_of _ = False"

fun text_of :: "flag_value option \<Rightarrow> string" where
  "text_of (Some (String_value s)) = s"
| "text_of _ = []"

fun int_of :: "flag_value option \<Rightarrow> int" where
  "int_of (Some (Int_value n)) = n"
| "int_of _ = 0"

fun float_of :: "flag_value option \<Rightarrow> rat" where
  "float_of (Some (Float_value r)) = r"
| "float_of _ = 0"

fun duration_of :: "flag_value option \<Rightarrow> 64 word" where
  "duration_of (Some (Duration_value d)) = d"
| "duration_of _ = 0"

text \<open>\<open>fmt\<close>'s \<open>%d\<close>.\<close>

definition int_string :: "int \<Rightarrow> string" where
  "int_string n = (if n < 0 then CHR ''-'' # itoa (nat (- n)) else itoa (nat n))"

end
