(* ===== verification/Handout.thy ===== *)
theory Handout
  imports Tcp_Httpfs
begin

section \<open>The handout programs (handout/echo*.go, handout/time*.go)\<close>

text \<open>
  The course's examples: an echo server and its client, and a time server and its client (RFC 868).
  Connections are streams of bytes; a read is at most a buffer of bytes and an error.
\<close>

subsection \<open>Time\<close>

text \<open>\<open>reportTime\<close> for the current \<open>time.Now().Unix()\<close>, a signed 64-bit number, and \<open>printTime\<close>: the
  seconds since 1970 it prints, from the bytes the connection delivers before it is closed.\<close>

definition server_time1970 :: "64 word" where "server_time1970 = 2208988800"

definition client_time1970 :: "32 word" where "client_time1970 = 2208988800"

definition reportTime :: "64 word \<Rightarrow> bytes" where
  "reportTime unix =
     (let now = unix + server_time1970 in PutUint32 (ucast now))"

definition ReadFull :: "nat \<Rightarrow> bytes \<Rightarrow> string + bytes" where
  "ReadFull n stream =
     (if length stream < n then Inl (if stream = [] then ''EOF'' else ''unexpected EOF'')
      else Inr (take n stream))"

definition printTime :: "bytes \<Rightarrow> string + 64 word" where
  "printTime stream =
     (case ReadFull 4 stream of
        Inl err \<Rightarrow> Inl err
      | Inr buf \<Rightarrow>
          (let seconds = BE_Uint32 buf - client_time1970 in Inr (ucast seconds)))"

lemma ucast_word_of_int: "(ucast (word_of_int k :: 64 word) :: 32 word) = word_of_int k"
  by (simp add: unsigned_of_int word_of_int_eq_iff)

lemma ucast_plus:
  "(ucast (word_of_int i + word_of_int k :: 64 word) :: 32 word) = word_of_int i + word_of_int k"
  by (simp only: wi_hom_add ucast_word_of_int)

lemma seconds_back: "(ucast (u + word_of_int k :: 64 word) :: 32 word) - word_of_int k = ucast u"
  using ucast_plus [of "uint u" k] ucast_word_of_int [of "uint u"] by simp

subsection \<open>Echo\<close>

text \<open>
  The server's \<open>handleConn\<close>: each round is what \<open>Read\<close> returns and whether the \<open>Write\<close> that
  follows succeeds; the result is what was written.
\<close>

fun echo_handleConn :: "(bytes \<times> read_error \<times> bool) list \<Rightarrow> bytes" where
  "echo_handleConn [] = []"
| "echo_handleConn ((buf, re, write_ok) # rounds) =
     (if buf \<noteq> [] \<and> \<not> write_ok then []
      else if re \<noteq> No_error then buf
      else buf @ echo_handleConn rounds)"

text \<open>
  The client's \<open>repl\<close>: \<open>ReadSlice\<close> on a reader of 4096 bytes, the line written, as many bytes read
  back.  \<open>peer\<close> is the other end: what it sends after it was written a line.  Fewer bytes than
  written leave the client waiting.
\<close>

datatype repl_end = Repl_done | Repl_error string | Repl_waits

definition reader_size :: nat where "reader_size = 4096"

definition newline :: byte where "newline = 10"

definition ReadSlice :: "bytes \<Rightarrow> (string \<times> bytes) + bytes \<times> bytes" where
  "ReadSlice stdin =
     (let line = takeWhile (\<lambda>b. b \<noteq> newline) (take reader_size stdin) in
      if length line < length (take reader_size stdin)
      then Inr (line @ [newline], drop (Suc (length line)) stdin)
      else if reader_size \<le> length stdin then Inl (''bufio: buffer full'', take reader_size stdin)
      else Inl (''EOF'', stdin))"

function repl ::
    "(bytes \<Rightarrow> 'w \<Rightarrow> bytes \<times> 'w) \<Rightarrow> bytes \<Rightarrow> bytes \<Rightarrow> 'w \<Rightarrow> bytes \<Rightarrow> repl_end \<times> bytes" where
  "repl peer stdin incoming w out =
     (case ReadSlice stdin of
        Inl (err, line) \<Rightarrow> (if err = ''EOF'' then Repl_done else Repl_error err, out)
      | Inr (line, stdin') \<Rightarrow>
          (case peer line w of
             (reply, w') \<Rightarrow>
               if length (incoming @ reply) < length line then (Repl_waits, out)
               else repl peer stdin' (drop (length line) (incoming @ reply)) w'
                      (out @ bytes_of ''Replied: '' @ take (length line) (incoming @ reply))))"
  by pat_completeness auto
termination
  by (relation "measure (\<lambda>(peer, stdin, _). length stdin)")
    (auto simp: ReadSlice_def Let_def split: if_splits)

declare repl.simps [simp del]

lemma ReadSlice_line:
  assumes "newline \<notin> set l" "length l < reader_size"
  shows "ReadSlice (l @ newline # rest) = Inr (l @ [newline], rest)"
proof -
  let ?buf = "take reader_size (l @ newline # rest)"
  have "\<exists>k. reader_size - length l = Suc k" using assms(2) by (cases "reader_size - length l") auto
  then obtain k where k: "?buf = l @ newline # take k rest" using assms(2) by auto
  have "takeWhile (\<lambda>b. b \<noteq> newline) ?buf = l"
    unfolding k using assms(1) by (induction l) auto
  then show ?thesis unfolding ReadSlice_def Let_def by (simp only: k) simp
qed

lemma ReadSlice_EOF:
  assumes "newline \<notin> set l" "length l < reader_size"
  shows "ReadSlice l = Inl (''EOF'', l)"
proof -
  have "takeWhile (\<lambda>b. b \<noteq> newline) l = l" using assms(1) by (auto simp: takeWhile_eq_all_conv)
  then show ?thesis using assms(2) by (simp add: ReadSlice_def Let_def del: takeWhile_eq_all_conv)
qed

text \<open>The echo server as the peer, over a connection that cuts what was written with \<open>pieces\<close>.\<close>

definition echo_peer :: "(bytes \<Rightarrow> bytes list) \<Rightarrow> bytes \<Rightarrow> unit \<Rightarrow> bytes \<times> unit" where
  "echo_peer pieces line w = (echo_handleConn (map (\<lambda>b. (b, No_error, True)) (pieces line)), w)"

lemma echo_handleConn_all: "echo_handleConn (map (\<lambda>b. (b, No_error, True)) bs) = concat bs"
  by (induction bs) auto

subsection \<open>Properties\<close>

text \<open>
  C38. The two time programs: what the client prints is what the server's clock says, in seconds, up to
  the last 32 bits; so it is exactly the server's time from 1970 to the beginning of 2106 and
  never before or after.  A connection closed early is an error.
\<close>

theorem time_exchange:
  "printTime (reportTime unix @ rest) = Inr (ucast (ucast unix :: 32 word))
   \<and> (printTime (reportTime unix @ rest) = Inr unix) = (unat unix < 2 ^ 32)
   \<and> (\<exists>err. printTime (take 3 rest) = Inl err)"
proof -
  have "(ucast (unix + server_time1970) :: 32 word) - client_time1970 = ucast unix"
    using seconds_back [of unix 2208988800] by (simp add: server_time1970_def client_time1970_def)
  then have eq: "printTime (reportTime unix @ rest) = Inr (ucast (ucast unix :: 32 word))"
    by (simp add: printTime_def reportTime_def ReadFull_def Let_def)
  have "ucast (ucast unix :: 32 word) = unix \<longleftrightarrow> unat unix < 2 ^ 32"
    by (simp add: word_unat_eq_iff unsigned_ucast_eq unsigned_take_bit_eq take_bit_nat_eq_self_iff)
  with eq show ?thesis by (auto simp: printTime_def ReadFull_def)
qed

text \<open>
  An echo session: against the echo server, however the connection cuts the lines, the client
  answers every line of its input that ends in a newline and is at most 4096 bytes long with exactly
  that line, in order, and ends without an error; input after the last newline is dropped.
\<close>

theorem echo_session:
  assumes "\<forall>l \<in> set ls. newline \<notin> set l \<and> length l < reader_size"
    and "newline \<notin> set rest" "length rest < reader_size"
    and "\<And>b. concat (pieces b) = b"
  shows "repl (echo_peer pieces) (concat (map (\<lambda>l. l @ [newline]) ls) @ rest) [] () out =
     (Repl_done, out @ concat (map (\<lambda>l. bytes_of ''Replied: '' @ l @ [newline]) ls))"
proof -
  have peer: "echo_peer pieces = Pair"
    by (intro ext) (simp add: echo_peer_def echo_handleConn_all assms(4))
  show ?thesis
    unfolding peer using assms(1)
  proof (induction ls arbitrary: out)
    case Nil
    then show ?case using ReadSlice_EOF [OF assms(2,3)] by (subst repl.simps) simp
  next
    case (Cons l ls)
    have "ReadSlice (l @ newline # concat (map (\<lambda>l. l @ [newline]) ls) @ rest) =
        Inr (l @ [newline], concat (map (\<lambda>l. l @ [newline]) ls) @ rest)"
      using Cons.prems by (intro ReadSlice_line) auto
    then show ?case using Cons by (subst repl.simps) simp
  qed
qed

theorem echo_session_witness:
  "repl (echo_peer (map (\<lambda>b. [b]))) [104, 105, 10, 111] [] () [] = (Repl_done, bytes_of ''Replied: '' @ [104, 105, 10])"
  using echo_session [of "[[104, 105]]" "[111]" "map (\<lambda>b. [b])" "[]"]
  by (simp add: newline_def reader_size_def)

end
