(* ===== verification/Startup.thy ===== *)
theory Startup
  imports Go_Flag Router Httpfs Httpfs_Handler Handout
begin

section \<open>The main functions of the servers and the handout programs\<close>

text \<open>
  From the command line to the point where a program serves: flags, the working directory, the
  address it listens on, and the loop that accepts connections.  What only the machine decides is an
  argument: whether a log file opens, a socket can be bound, or a peer can be dialled.
\<close>

subsection \<open>Outcomes\<close>

text \<open>
  \<open>flag.Parse\<close> exits (the router prints its own text first), a message is printed and \<open>main\<close>
  returns, \<open>log.Fatal\<close> or a panic ends the process, or the program runs with what it set up.
\<close>

datatype 'a start =
    Exits string nat
  | Prints string
  | Stops string
  | Runs 'a

subsection \<open>The file servers\<close>

definition server_flags :: flag_table where
  "server_flags = [(''v'', Bool_value False), (''d'', String_value []), (''p'', Int_value 8007)]"

text \<open>
  \<open>main\<close> of lab3/httpfs up to its loop: verbose mode, the working directory, the address it
  listens on, and the server.  \<open>bind\<close> is what \<open>net.ListenUDP\<close> answers.
\<close>

definition httpfs_main ::
    "(udp_addr \<Rightarrow> string option) \<Rightarrow> string list \<Rightarrow> os \<Rightarrow> (bool \<times> string \<times> udp_addr \<times> HttpServer) start" where
  "httpfs_main bind args s =
     (case parse_table (drop 1 args) server_flags of
        Exit_status n \<Rightarrow> Exits [] n
      | Parsed t rest \<Rightarrow>
          (case start_directory (text_of (map_of t ''d'')) s of
             Inl msg \<Rightarrow> Prints msg
           | Inr wd \<Rightarrow>
               (case ResolveUDPAddr (''127.0.0.1'' @ '':'' @ int_string (int_of (map_of t ''p''))) of
                  Inl err \<Rightarrow> Stops err
                | Inr addr \<Rightarrow>
                    (case bind addr of
                       Some err \<Rightarrow> Stops err
                     | None \<Rightarrow>
                         (case ResolveUDPAddr ''127.0.0.1:3000'' of
                            Inl err \<Rightarrow> Stops err
                          | Inr routerAddr \<Rightarrow>
                              Runs (bool_of (map_of t ''v''), wd, addr, initHttpServer routerAddr))))))"

text \<open>\<open>main\<close> of lab1-2/httpfs up to its loop; \<open>listen\<close> is what \<open>net.Listen\<close> answers for an address.\<close>

definition tcp_httpfs_main ::
    "(string \<Rightarrow> bool) \<Rightarrow> string list \<Rightarrow> os \<Rightarrow> (bool \<times> string \<times> string) start" where
  "tcp_httpfs_main listen args s =
     (case parse_table (drop 1 args) server_flags of
        Exit_status n \<Rightarrow> Exits [] n
      | Parsed t rest \<Rightarrow>
          (case start_directory (text_of (map_of t ''d'')) s of
             Inl msg \<Rightarrow> Prints msg
           | Inr wd \<Rightarrow>
               (let port = int_string (int_of (map_of t ''p'')) in
                if listen ('':'' @ port) then Runs (bool_of (map_of t ''v''), wd, '':'' @ port)
                else Prints (''failed to listen on '' @ port))))"

subsection \<open>Accept loops\<close>

text \<open>
  What \<open>Accept\<close> returns, one after the other; an error is printed and the loop goes on.  A
  connection's goroutine is run in one piece at the point where it takes effect, so the order of the
  list is that order; \<open>serve\<close> is the goroutine, and a panic in it ends the process.
\<close>

datatype 'c accepted = Accept_error string | Connection 'c

fun accept_loop ::
    "('c \<Rightarrow> 'w \<Rightarrow> ('w \<times> bytes) go) \<Rightarrow> 'c accepted list \<Rightarrow> 'w \<Rightarrow> ('w \<times> bytes list) go" where
  "accept_loop serve [] w = Inr (w, [])"
| "accept_loop serve (Accept_error err # rest) w = accept_loop serve rest w"
| "accept_loop serve (Connection c # rest) w =
     go_bind (serve c w) (\<lambda>(w1, out).
     go_bind (accept_loop serve rest w1) (\<lambda>(w2, outs). Inr (w2, out # outs)))"

text \<open>The goroutines: a connection of the TCP server with its reads and the time of its response, one
  of the echo server, and one of the time server with the clock when it is served.\<close>

definition tcp_connection ::
    "string \<Rightarrow> string \<times> (bytes \<times> read_error) list \<Rightarrow> os \<Rightarrow> (os \<times> bytes) go" where
  "tcp_connection wd c s =
     (case c of (date, reads) \<Rightarrow>
        (case handleConn wd date reads s of None \<Rightarrow> Inr (s, []) | Some r \<Rightarrow> r))"

definition echo_connection :: "(bytes \<times> read_error \<times> bool) list \<Rightarrow> unit \<Rightarrow> (unit \<times> bytes) go" where
  "echo_connection rounds w = Inr (w, echo_handleConn rounds)"

definition time_connection :: "64 word \<Rightarrow> unit \<Rightarrow> (unit \<times> bytes) go" where
  "time_connection unix w = Inr (w, reportTime unix)"

definition port_flag :: "int \<Rightarrow> flag_table" where
  "port_flag p = [(''port'', Int_value p)]"

definition echo_server_main ::
    "(string \<Rightarrow> bool) \<Rightarrow> string list \<Rightarrow> (bytes \<times> read_error \<times> bool) list accepted list \<Rightarrow> bytes list start" where
  "echo_server_main listen args conns =
     (case parse_table (drop 1 args) (port_flag 8007) of
        Exit_status n \<Rightarrow> Exits [] n
      | Parsed t rest \<Rightarrow>
          (let port = int_string (int_of (map_of t ''port'')) in
           if \<not> listen ('':'' @ port) then Prints (''failed to listen on '' @ port)
           else
             (case accept_loop echo_connection conns () of
                Inl e \<Rightarrow> Stops []
              | Inr (w, outs) \<Rightarrow> Runs outs)))"

definition time_server_main ::
    "(string \<Rightarrow> string option) \<Rightarrow> string list \<Rightarrow> 64 word accepted list \<Rightarrow> bytes list start" where
  "time_server_main listen args conns =
     (case parse_table (drop 1 args) (port_flag 8037) of
        Exit_status n \<Rightarrow> Exits [] n
      | Parsed t rest \<Rightarrow>
          (let addr = '':'' @ int_string (int_of (map_of t ''port'')) in
           case listen addr of
             Some err \<Rightarrow> Prints (''failed to listen '' @ addr @ '' with '' @ err)
           | None \<Rightarrow>
               (case accept_loop time_connection conns () of
                  Inl e \<Rightarrow> Stops []
                | Inr (w, outs) \<Rightarrow> Runs outs)))"

subsection \<open>The handout clients\<close>

definition client_flags :: "int \<Rightarrow> flag_table" where
  "client_flags p = [(''host'', String_value ''localhost''), (''port'', Int_value p)]"

text \<open>\<open>dial\<close> is what the connection to an address delivers before it is closed, if there is one.\<close>

definition time_client_main :: "(string \<Rightarrow> bytes option) \<Rightarrow> string list \<Rightarrow> 64 word start" where
  "time_client_main dial args =
     (case parse_table (drop 1 args) (client_flags 8037) of
        Exit_status n \<Rightarrow> Exits [] n
      | Parsed t rest \<Rightarrow>
          (let addr = text_of (map_of t ''host'') @ '':'' @ int_string (int_of (map_of t ''port'')) in
           case dial addr of
             None \<Rightarrow> Prints (''failed to connect to '' @ addr)
           | Some stream \<Rightarrow>
               (case printTime stream of
                  Inl err \<Rightarrow> Prints (''failed to retrieve time '' @ err)
                | Inr seconds \<Rightarrow> Runs seconds)))"

text \<open>\<open>dial\<close> gives the peer and its state; the rest is standard input and what \<open>repl\<close> printed.\<close>

definition echo_client_main ::
    "(string \<Rightarrow> ((bytes \<Rightarrow> 'w \<Rightarrow> bytes \<times> 'w) \<times> 'w) option) \<Rightarrow> string list \<Rightarrow> bytes \<Rightarrow> (repl_end \<times> bytes) start" where
  "echo_client_main dial args stdin =
     (case parse_table (drop 1 args) (client_flags 8007) of
        Exit_status n \<Rightarrow> Exits [] n
      | Parsed t rest \<Rightarrow>
          (let addr = text_of (map_of t ''host'') @ '':'' @ int_string (int_of (map_of t ''port'')) in
           case dial addr of
             None \<Rightarrow> Prints (''failed to connect to '' @ addr)
           | Some (peer, w) \<Rightarrow> Runs (repl peer stdin [] w [])))"

subsection \<open>The router\<close>

text \<open>The package variables, with \<open>time.Now().UnixNano()\<close> as the default seed.\<close>

definition router_table :: "int \<Rightarrow> flag_table" where
  "router_table now =
     [(''drop-rate'', Float_value 0), (''max-delay'', Duration_value 0),
      (''seed'', Int_value now), (''port'', Int_value 3000)]"

definition router_usage :: string where
  "router_usage = join_lines
     [[],
      ''Router is a logical router dispatches UDP packets between applications.'',
      ''It receives UDP packets, then dispatches to the associated destination of the packet.'',
      ''During the delivery the value of a peer address will be changed from '' @ [CHR 0x27] @ ''toAddr'' @ [CHR 0x27] @ '' to '' @ [CHR 0x27] @ ''fromAddr'' @ [CHR 0x27] @ ''.'',
      [],
      ''Usage: '',
      ''    router --port int --drop-rate float --max-delay duration --seed int'',
      [HT] @ [HT],
      ''    --port int-number'',
      ''        port number that the router is listening for the incoming packet.'',
      ''        default value is 3000.'',
      [HT],
      ''    --drop-rate float-number'',
      ''        drop rate is the probability of packets will be dropped during on the way.'',
      ''        use 0 to disable the drop feature.'',
      [],
      ''    --max-delay duration (eg. 5ms, 4s, or 1m)'',
      ''        max delay the maximum duration that any packet can be delayed. '',
      [HT] @ [HT] @ ''any packet will be subject to a delay duration between 0 and this value.'',
      ''        the duration is in format 5s, 10ms. Uses 0 to route packets immediately.'',
      [],
      ''    --seed int'',
      ''        seed is used to initialize the random generator.'',
      ''        if the same seed is provided, the random behaviors are expected to repeat.'',
      [],
      ''Example: '',
      ''    router --port=3000 --drop-rate=0.2 --max-delay=10ms --seed=1'']"

text \<open>\<open>net.ResolveUDPAddr\<close> of a port alone.\<close>

definition ResolvePort :: "int \<Rightarrow> string + udp_addr" where
  "ResolvePort n =
     (if 0 \<le> n \<and> n \<le> 65535 then Inr \<lparr>IP = [], Port = n\<rparr>
      else Inl (''address '' @ int_string n @ '': invalid port''))"

text \<open>
  \<open>init\<close> and \<open>main\<close> up to the loop (each round of which is \<open>router_receive\<close> in theory Router): the
  drop rate and delay, the seed, the address and the router.
\<close>

definition router_main ::
    "string option \<Rightarrow> (udp_addr \<Rightarrow> string option) \<Rightarrow> int \<Rightarrow> string list
       \<Rightarrow> (router_flags \<times> int \<times> udp_addr \<times> router) start" where
  "router_main log_error bind now args =
     (case log_error of
        Some err \<Rightarrow> Stops (''failed to open log file: '' @ err)
      | None \<Rightarrow>
          (case parse_table (drop 1 args) (router_table now) of
             Exit_status n \<Rightarrow> Exits router_usage n
           | Parsed t rest \<Rightarrow>
               (case ResolvePort (int_of (map_of t ''port'')) of
                  Inl err \<Rightarrow> Stops (''failed to resolve address: '' @ err)
                | Inr addr \<Rightarrow>
                    (case bind addr of
                       Some err \<Rightarrow> Stops (''failed to listen on port '' @ err)
                     | None \<Rightarrow>
                         Runs (\<lparr>dropRate = float_of (map_of t ''drop-rate''),
                                maxDelay = duration_of (map_of t ''max-delay'')\<rparr>,
                               int_of (map_of t ''seed''), addr, router_init)))))"

subsection \<open>What the loops do\<close>

lemma accept_loop_errors:
  "accept_loop serve conns w = accept_loop serve (filter (\<lambda>a. \<exists>c. a = Connection c) conns) w"
  by (induction serve conns w rule: accept_loop.induct) (auto intro: go_bind_cong)

lemma echo_accept_loop:
  "accept_loop echo_connection (map Connection rs) () = Inr ((), map echo_handleConn rs)"
  by (induction rs) (auto simp: echo_connection_def)

lemma time_accept_loop:
  "accept_loop time_connection (map Connection us) () = Inr ((), map reportTime us)"
  by (induction us) (auto simp: time_connection_def)

subsection \<open>Reading numbers\<close>

lemma hex_value_digit: "is_digit c \<Longrightarrow> hex_value c = Some (digit_val c) \<and> digit_val c < 10"
  by (auto simp: hex_value_def is_digit_def digit_val_def Let_def)

lemma parse_base_dec: "list_all is_digit s \<Longrightarrow> parse_base 10 acc s = parse_dec acc s"
  by (induction s arbitrary: acc) (auto simp: hex_value_digit)

lemma itoa_all_digits: "list_all is_digit (itoa n)"
  using itoa_digits [of _ n] by (auto simp: list_all_iff)

lemma parse_prefixed_itoa: "parse_prefixed (itoa n) = Some n"
proof (cases "n = 0")
  case True
  have "itoa 0 = ''0''" by code_simp
  with True show ?thesis by (simp add: parse_prefixed_def)
next
  case False
  then have "take 1 (itoa n) \<noteq> ''0''"
    using itoa_hd [of n] by (cases "itoa n") auto
  then show ?thesis
    using parse_base_dec [OF itoa_all_digits [of n], of 0] by (simp add: parse_prefixed_def)
qed

lemma digits_no_sign: "list_all is_digit s \<Longrightarrow> split_sign (s @ t) = (if s = [] then split_sign t else (False, s @ t))"
  by (cases s) (auto simp: split_sign_def is_digit_def)

lemma ParseInt64_itoa: "n < 2 ^ 63 \<Longrightarrow> ParseInt64 (itoa n) = Some (int n)"
  using digits_no_sign [OF itoa_all_digits [of n], of "[]"] parse_prefixed_itoa [of n]
  by (simp add: ParseInt64_def)

lemma digits_value_itoa [simp]: "digits_value (itoa n) = n"
  by (simp add: digits_value_def)

lemma leading_digits_append:
  assumes "list_all is_digit s" "t = [] \<or> \<not> is_digit (hd t)"
  shows "leading_digits (s @ t) = (s, t)"
proof -
  have "takeWhile is_digit (s @ t) = s @ takeWhile is_digit t" "dropWhile is_digit (s @ t) = dropWhile is_digit t"
    using assms(1) by (simp_all add: takeWhile_append2 dropWhile_append2 list_all_iff)
  with assms(2) show ?thesis by (cases t) (auto simp: leading_digits_def)
qed

lemma ParseDuration_seconds:
  assumes "n * 1000000000 < 2 ^ 63"
  shows "ParseDuration (itoa n @ ''s'') = Some (word_of_nat (n * 1000000000))"
proof -
  have dec: "leading_decimal (itoa n @ ''s'') = Some (itoa n, [], ''s'')"
    using leading_digits_append [OF itoa_all_digits [of n], of "''s''"]
    by (simp add: leading_decimal_def is_digit_def)
  have "n \<le> 2 ^ 63 div 1000000000" using assms by simp
  with dec assms have "parse_units 0 (itoa n @ ''s'') = Some (n * 1000000000)"
    by (subst parse_units.simps)
      (simp add: unit_char_def is_digit_def unit_map_def digits_value_def Let_def parse_units.simps)
  moreover have "split_sign (itoa n @ ''s'') = (False, itoa n @ ''s'')"
    using digits_no_sign [OF itoa_all_digits [of n], of "''s''"] by simp
  ultimately show ?thesis
    using assms by (simp add: ParseDuration_def)
qed

lemma sint_seconds:
  assumes "n * 1000000000 < 2 ^ 63"
  shows "sint (word_of_nat (n * 1000000000) :: 64 word) = int n * 1000000000"
proof -
  have "int (n * 1000000000) < 2 ^ 63" using assms by simp
  then have "signed_take_bit 63 (int (n * 1000000000)) = int (n * 1000000000)"
    by (intro signed_take_bit_int_eq_self) auto
  then have "sint (word_of_int (int (n * 1000000000)) :: 64 word) = int (n * 1000000000)"
    by (simp only: signed_of_int) simp
  moreover have "(word_of_nat (n * 1000000000) :: 64 word) = word_of_int (int (n * 1000000000))"
    by (rule of_int_of_nat_eq [symmetric])
  ultimately have "sint (word_of_nat (n * 1000000000) :: 64 word) = int (n * 1000000000)" by (simp only:)
  then show ?thesis by (simp only: of_nat_mult of_nat_numeral)
qed

lemma ParseFloat_fraction:
  assumes "list_all is_digit ds"
  shows "ParseFloat (''0.'' @ ds) = Some (of_nat (digits_value (CHR ''0'' # ds)) / 10 ^ length ds)"
proof -
  have zero: "list_all is_digit ''0''" by (simp add: is_digit_def)
  have "leading_digits (''0'' @ CHR ''.'' # ds) = (''0'', CHR ''.'' # ds)"
    by (rule leading_digits_append [OF zero]) (simp add: is_digit_def)
  moreover have "leading_digits ds = (ds, [])"
    using leading_digits_append [OF assms, of "[]"] by simp
  ultimately have "leading_decimal (''0.'' @ ds) = Some (''0'', ds, [])"
    by (simp add: leading_decimal_def)
  moreover have "split_sign (''0.'' @ ds) = (False, ''0.'' @ ds)" by (simp add: split_sign_def)
  ultimately show ?thesis by (simp add: ParseFloat_def Let_def)
qed

subsection \<open>Reading command lines\<close>

text \<open>A flag whose value follows an equals sign, and one whose value is the next word.\<close>

lemma parse_table_equals:
  assumes "name \<noteq> []" "hd name \<noteq> CHR ''-''" "CHR ''='' \<notin> set name"
    and "map_of t name = Some v" "set_value v x = Some v'"
  shows "parse_table ((''--'' @ name @ CHR ''='' # x) # args) t = parse_table args (set_in name v' t)"
proof -
  have "hd (name @ CHR ''='' # x) = hd name" using assms(1) by (cases name) simp_all
  moreover have "hd name \<noteq> CHR ''=''" using assms(1,3) by (cases name) auto
  ultimately show ?thesis
    using assms by (simp add: parse_table.simps(2) is_flag_def Let_def split: flag_value.splits)
qed

lemma parse_table_next:
  assumes "name \<noteq> []" "hd name \<noteq> CHR ''-''" "CHR ''='' \<notin> set name"
    and "map_of t name = Some v" "\<And>b. v \<noteq> Bool_value b" "set_value v x = Some v'"
  shows "parse_table ((CHR ''-'' # name) # x # args) t = parse_table args (set_in name v' t)"
proof -
  obtain c cs where name: "name = c # cs" using assms(1) by (cases name) auto
  with assms show ?thesis
    by (cases v) (auto simp: parse_table.simps(2) [of "CHR ''-'' # c # cs"] is_flag_def Let_def)
qed

lemma resolve_host_port:
  assumes "n \<le> 65535"
  shows "ResolveUDPAddr (''127.0.0.1'' @ '':'' @ int_string (int n)) = Inr \<lparr>IP = IPv4 [127, 0, 0, 1], Port = int n\<rparr>"
proof -
  have "split_on CHR '':'' (''127.0.0.1'' @ CHR '':'' # itoa n) = [''127.0.0.1'', itoa n]"
    by (simp add: split_on_field split_on_single)
  moreover have "parseIPv4 ''127.0.0.1'' = Some (IPv4 [127, 0, 0, 1])"
    by (simp add: parseIPv4_def parse_octet_def is_digit_def digit_val_def)
  ultimately show ?thesis using assms by (simp add: ResolveUDPAddr_def int_string_def parsePort_def)
qed

subsection \<open>Properties\<close>

text \<open>
  C40. The server's command line: \<open>httpfs -d dir -p n\<close> with a port number, in a working directory
  where \<open>dir\<close> can be looked up, and a port that is free, runs the server in its initial state, for
  that directory, at that port of the loopback address, with the router at port 3000.  The
  directory is the current one and \<open>dir\<close>, one after the other without a slash, and if that does not
  exist, \<open>main\<close> prints a message and returns before any socket is opened.
\<close>

theorem httpfs_command_line:
  assumes "n \<le> 65535" and "Getwd s = Inr wd" and "dir \<noteq> []"
    and "bind \<lparr>IP = IPv4 [127, 0, 0, 1], Port = int n\<rparr> = None"
  shows "httpfs_main bind [prog, ''-d'', dir, ''-p'', itoa n] s =
     (case Stat (wd @ dir) s of
        Inl err \<Rightarrow>
          if IsNotExist err then Prints (''failed to use working directory '' @ Error err)
          else Runs (False, wd @ dir, \<lparr>IP = IPv4 [127, 0, 0, 1], Port = int n\<rparr>, initHttpServer RouterAddr)
      | Inr node \<Rightarrow>
          Runs (False, wd @ dir, \<lparr>IP = IPv4 [127, 0, 0, 1], Port = int n\<rparr>, initHttpServer RouterAddr))"
proof -
  have "ParseInt64 (itoa n) = Some (int n)" using assms(1) by (intro ParseInt64_itoa) simp
  then have "parse_table [''-d'', dir, ''-p'', itoa n] server_flags =
      Parsed [(''v'', Bool_value False), (''d'', String_value dir), (''p'', Int_value (int n))] []"
    using parse_table_next [of "''d''" server_flags "String_value []" dir "String_value dir" "[''-p'', itoa n]"]
      parse_table_next [of "''p''" "set_in ''d'' (String_value dir) server_flags" "Int_value 8007" "itoa n"
        "Int_value (int n)" "[]"]
    by (simp add: server_flags_def set_in_def)
  moreover have "ResolveUDPAddr (''127.0.0.1'' @ '':'' @ int_string (int n)) =
      Inr \<lparr>IP = IPv4 [127, 0, 0, 1], Port = int n\<rparr>"
    by (rule resolve_host_port [OF assms(1)])
  ultimately show ?thesis
    using assms(2-4) address_constants(1)
    by (simp add: httpfs_main_def start_directory_def split: sum.splits)
qed

lemma digits_example:
  "digit_char 0 = CHR ''0''" "digit_char (Suc 0) = CHR ''1''" "digit_char 2 = CHR ''2''"
  "digit_char 3 = CHR ''3''" "digit_char 8 = CHR ''8''"
  by code_simp+

lemma numbers_example:
  "itoa 8080 = ''8080''" "itoa 3000 = ''3000''" "itoa 2 = ''2''" "itoa (Suc 0) = ''1''"
  by (simp_all add: itoa.simps digits_example)

text \<open>In the example tree, with and without the slash.\<close>

theorem httpfs_command_line_witness:
  "httpfs_main (\<lambda>a. None) [''httpfs'', ''-d'', ''/a'', ''-p'', ''8080''] example_os =
     Runs (False, ''/srv/a'', \<lparr>IP = IPv4 [127, 0, 0, 1], Port = 8080\<rparr>, initHttpServer RouterAddr)
   \<and> (\<exists>msg. httpfs_main (\<lambda>a. None) [''httpfs'', ''-d'', ''a'', ''-p'', ''8080''] example_os = Prints msg)"
proof -
  have wd: "Getwd example_os = Inr ''/srv''"
    by (simp add: Getwd_def example_os_def no_faults_def)
  have stat: "\<exists>node. Stat (''/srv'' @ ''/a'') example_os = Inr node"
    "\<exists>err. Stat (''/srv'' @ ''a'') example_os = Inl err \<and> IsNotExist err"
    by (simp_all add: Stat_def example_os_def resolve_def absolute_def path_comps_def lookup_def
        no_faults_def trailing_slash_def IsNotExist_def)
  let ?addr = "\<lparr>IP = IPv4 [127, 0, 0, 1], Port = 8080\<rparr>"
  obtain err where err: "Stat (''/srv'' @ ''a'') example_os = Inl err" "IsNotExist err" using stat(2) by blast
  obtain node where node: "Stat (''/srv'' @ ''/a'') example_os = Inr node" using stat(1) by blast
  have "httpfs_main (\<lambda>a. None) [''httpfs'', ''-d'', ''/a'', ''-p'', itoa 8080] example_os =
      Runs (False, ''/srv'' @ ''/a'', ?addr, initHttpServer RouterAddr)"
    by (subst httpfs_command_line [OF _ wd]) (simp_all only: node sum.case, simp_all)
  moreover have "httpfs_main (\<lambda>a. None) [''httpfs'', ''-d'', ''a'', ''-p'', itoa 8080] example_os =
      Prints (''failed to use working directory '' @ Error err)"
    by (subst httpfs_command_line [OF _ wd]) (simp_all only: err sum.case if_True, simp_all)
  ultimately show ?thesis unfolding numbers_example by simp
qed

text \<open>
  C39. The router's command line, as the README writes it: \<open>--port=p --drop-rate=0.ds --max-delay=ns
  --seed=k\<close> runs the router with these values, the delay in nanoseconds, on every interface; so no
  packet is delayed by the full time or more, whatever is drawn.
\<close>

theorem router_command_line:
  assumes "port \<le> 65535" "k < 2 ^ 63" "list_all is_digit ds" "0 < n" "100 * (n * 1000000000) < 2 ^ 63"
    and "bind \<lparr>IP = [], Port = int port\<rparr> = None"
  shows "\<exists>f. router_main None bind now
        [prog, ''--port='' @ itoa port, ''--drop-rate=0.'' @ ds, ''--max-delay='' @ itoa n @ ''s'', ''--seed='' @ itoa k]
      = Runs (f, int k, \<lparr>IP = [], Port = int port\<rparr>, router_init)
    \<and> dropRate f = of_nat (digits_value (CHR ''0'' # ds)) / 10 ^ length ds
    \<and> sint (maxDelay f) = int n * 1000000000
    \<and> (\<forall>j < 100. 0 \<le> sint (router_delay f j) \<and> sint (router_delay f j) < int n * 1000000000)"
proof -
  let ?rate = "of_nat (digits_value (CHR ''0'' # ds)) / 10 ^ length ds :: rat"
  let ?delay = "word_of_nat (n * 1000000000) :: 64 word"
  let ?f = "\<lparr>dropRate = ?rate, maxDelay = ?delay\<rparr>"
  let ?t1 = "set_in ''port'' (Int_value (int port)) (router_table now)"
  let ?t2 = "set_in ''drop-rate'' (Float_value ?rate) ?t1"
  let ?t3 = "set_in ''max-delay'' (Duration_value ?delay) ?t2"
  have ints: "ParseInt64 (itoa port) = Some (int port)" "ParseInt64 (itoa k) = Some (int k)"
    using assms(1,2) by (intro ParseInt64_itoa; simp)+
  have dur: "ParseDuration (itoa n @ ''s'') = Some ?delay"
    using assms(5) by (intro ParseDuration_seconds) simp
  have flo: "ParseFloat (''0.'' @ ds) = Some ?rate" by (rule ParseFloat_fraction [OF assms(3)])
  have "parse_table [''--'' @ ''port'' @ CHR ''='' # itoa port, ''--'' @ ''drop-rate'' @ CHR ''='' # ''0.'' @ ds,
        ''--'' @ ''max-delay'' @ CHR ''='' # itoa n @ ''s'', ''--'' @ ''seed'' @ CHR ''='' # itoa k] (router_table now)
      = Parsed (set_in ''seed'' (Int_value (int k)) ?t3) []"
    using ints dur flo
      parse_table_equals [of "''port''" "router_table now" "Int_value 3000" "itoa port" "Int_value (int port)"]
      parse_table_equals [of "''drop-rate''" ?t1 "Float_value 0" "''0.'' @ ds" "Float_value ?rate"]
      parse_table_equals [of "''max-delay''" ?t2 "Duration_value 0" "itoa n @ ''s''" "Duration_value ?delay"]
      parse_table_equals [of "''seed''" ?t3 "Int_value now" "itoa k" "Int_value (int k)" "[]"]
    by (simp add: router_table_def set_in_def)
  then have "router_main None bind now
        [prog, ''--port='' @ itoa port, ''--drop-rate=0.'' @ ds, ''--max-delay='' @ itoa n @ ''s'', ''--seed='' @ itoa k]
      = Runs (?f, int k, \<lparr>IP = [], Port = int port\<rparr>, router_init)"
    using assms(1,6) by (simp add: router_main_def ResolvePort_def router_table_def set_in_def)
  moreover have delay: "sint (maxDelay ?f) = int n * 1000000000"
    using sint_seconds [of n] assms(5) by simp
  moreover have "0 \<le> sint (router_delay ?f j) \<and> sint (router_delay ?f j) < int n * 1000000000" if "j < 100" for j
    using router_delay_bounds [OF that, of ?f] assms(4,5) unfolding delay by simp
  ultimately show ?thesis by (intro exI [of _ ?f]) simp
qed

theorem router_command_line_witness:
  "\<exists>f. router_main None (\<lambda>a. None) 0
        [''router'', ''--port=3000'', ''--drop-rate=0.2'', ''--max-delay=2s'', ''--seed=1'']
      = Runs (f, 1, \<lparr>IP = [], Port = 3000\<rparr>, router_init)
    \<and> dropRate f = 1 / 5 \<and> sint (maxDelay f) = 2000000000 \<and> sint (router_delay f 99) < 2000000000"
proof -
  have "digits_value ''02'' = 2" by code_simp
  with router_command_line [of 3000 1 "''2''" 2 "\<lambda>a. None" 0 "''router''"]
  show ?thesis by (auto simp: numbers_example is_digit_def)
qed

end
