(* ===== verification/Spec2Isabelle.thy ===== *)
theory Spec2Isabelle
  imports Session_Http Tcp_Httpc Startup
begin

text \<open>
  A verification of the lab programs of a computer networks course, written in Go.

  \<^bold>\<open>The program.\<close>  \<^verbatim>\<open>src/lab3\<close> is an HTTP client (\<^verbatim>\<open>httpc\<close>) and a file server
  (\<^verbatim>\<open>httpfs\<close>) over a reliable transport of their own on UDP: a handshake (SYN, SYN-ACK, ACK), windows of
  1024 numbered packets, an acknowledgement and a retransmission timer for each, and a delivery
  notice (DELIVER) that ends a message.  Every packet goes through the router
  (\<^verbatim>\<open>src/handout/router\<close>), which drops packets, delays them and swaps the peer address.
  \<^verbatim>\<open>src/lab1-2\<close> are the same client and server over TCP, and \<^verbatim>\<open>src/handout\<close> has an echo and a time
  server with their clients.

  \<^bold>\<open>Theories.\<close>
  \<^item> \<^verbatim>\<open>Go_Prelude\<close>: what all of them use of the language.  A panic or \<open>log.Fatal\<close> is a value (\<open>go_stop\<close>),
    an operation returns \<open>'a go\<close>; indexing, slicing and nil pointers are checked as Go checks them;
    channels have a capacity, and an operation that would block is \<open>None\<close>; timers are armed or have
    ticked.
  \<^item> \<^verbatim>\<open>Net_Addr\<close>, \<^verbatim>\<open>Url\<close>, \<^verbatim>\<open>Http_Message\<close>, \<^verbatim>\<open>File_System\<close>, \<^verbatim>\<open>Command_Line\<close>, \<^verbatim>\<open>Go_Flag\<close>: what the sources use
    of the packages encoding/binary, net, net/url, net/http, os, io, path/filepath, flag, strconv and
    time.  Each says at its head which inputs it covers.
  \<^item> \<^verbatim>\<open>Packet_Wire\<close> (lab3/lib/packet.go), \<^verbatim>\<open>Window\<close> (lab3/lib/windownElement.go and the window loops that
    client and server share), \<^verbatim>\<open>Router\<close> (router.go).
  \<^item> \<^verbatim>\<open>Transport\<close>: contracts as locales (a sender of packets, a retransmitter, a receiver) with the
    lemmas that hold of both programs; \<^verbatim>\<open>Httpc\<close> and \<^verbatim>\<open>Httpfs\<close> hold \<open>HttpClient\<close> and \<open>HttpServer\<close> with
    one definition per function or goroutine round (\<open>client_receive\<close> is one round of
    \<open>HttpClient.receive\<close>, \<open>server_resend_at\<close> one slot of \<open>HttpServer.retransmission\<close>, and so on), and
    interpret the contracts on them.
  \<^item> \<^verbatim>\<open>Delivery\<close>: one message from \<open>send\<close> through the router to the other's \<open>getPackets\<close>.
  \<^item> \<^verbatim>\<open>Httpfs_Handler\<close> and \<^verbatim>\<open>Httpc_Handler\<close>: requests, responses, files and commands;
    \<^verbatim>\<open>Http_Exchange\<close>: the two together.
  \<^item> \<^verbatim>\<open>Tcp_Httpfs\<close>, \<^verbatim>\<open>Tcp_Httpc\<close> (lab1-2), \<^verbatim>\<open>Handout\<close> (echo and time), \<^verbatim>\<open>Startup\<close>: the \<open>main\<close> functions
    and accept loops of the servers, the router and the handout programs.
  \<^item> \<^verbatim>\<open>Session\<close>: the client, the router and the server as one transition system \<open>sys_step\<close>.
    \<^verbatim>\<open>Session_Parts\<close> and \<^verbatim>\<open>Session_Net\<close> are the parts of its invariant (one window, the datagrams under
    way), \<^verbatim>\<open>Session_Client\<close> and \<^verbatim>\<open>Session_Server\<close> the shares of the two programs with one preservation
    lemma per step, \<^verbatim>\<open>Session_System\<close> the invariant \<open>sys_ok\<close>, \<^verbatim>\<open>Session_Safety\<close> what follows from it,
    \<^verbatim>\<open>Session_Runs\<close>, \<^verbatim>\<open>Session_Complete\<close> and \<^verbatim>\<open>Session_Ends\<close> the runs that reach given states, and
    \<^verbatim>\<open>Session_Http\<close> the file server inside a session.  This theory states what holds of whole sessions.

  \<^bold>\<open>State and atomicity.\<close>  A state of \<open>sys_step\<close> is the client's and the server's variables, where their
  main goroutines stand (\<open>client_pc\<close>, \<open>server_pc\<close>), the router, and three histories: the datagrams ever
  written to the router, those it has written, and the requests handled.  A datagram that was
  written can be read any number of times at any later point or never, so loss, repetition and
  reordering need no steps of their own.  A step is one statement on shared state: one round of a
  receive loop, one slot of a retransmission pass, one round of \<open>checkForDeliver\<close>, the write and the
  store of \<open>sendPacket\<close> (apart), one channel operation.  Two scans are one step although the code's
  loops can be interrupted: the search of \<open>checkForDeliver\<close> and the last loop of the server's \<open>send\<close>;
  a slot that is filled or acknowledged stays so, which makes the interruption invisible.  \<open>reset\<close>
  is one step, although a datagram can arrive between its assignments.  Memory is sequentially
  consistent.  The main goroutine of the client ends with \<open>send\<close>; its other goroutines go on, as they
  do in the program, whose \<open>main\<close> spins.

  \<^bold>\<open>What is shown.\<close>  Of sessions: exactness of requests and results in every interleaving, the
  refinement of an abstract service, completion over a router that forwards, who can panic and when,
  sizes, and uploads and downloads of files end to end.  Of the parts: round trips of the packet
  format, of requests and of responses; reassembly, retransmission and acknowledgement; invariants of
  the windows and of the router's queue; the confinement of writes to the working directory and
  where it is missing; the exact conditions of every panic; agreement of the TCP and the packet
  server; redirects.

  \<^bold>\<open>Bounds.\<close>  A message fits (\<open>fits\<close>) when it has at most 1022 full payloads, 1035286 bytes: with its
  delivery notice it then fills the slots 1 to 1023 of the window.  Longer ones make \<open>send\<close> panic
  (\<open>client_send_outcome\<close>), so sessions are over messages that fit.  Sequence numbers are 32-bit words,
  sizes of bodies are below \<open>2 ^ 63\<close>.  No definition has fuel: the recursions are structural or have a
  measure, and \<open>tcp_get\<close>, which may never return, is a partial function with value \<open>None\<close>.

  \<^bold>\<open>Not modelled.\<close>  Log and console output, and \<open>String()\<close> of packets, which only logs.  Errors of
  \<open>WriteToUDP\<close>, which are only logged; a datagram that is never read stands for them.  Several clients
  in one session system (one server and one client with one request; stale packets of another
  client are treated in \<^verbatim>\<open>Httpfs\<close>).  The times of timers: that a timer runs out, or that a select times
  out, can happen at any point.  Random draws are arguments.  IPv6 addresses and host names.
  In the accept loops a connection's goroutine takes effect in one piece.  The Java handout, which is
  not part of the Go programs.

  \<^bold>\<open>Still to do.\<close>  A second client in \<open>sys_step\<close>; the two halves of \<open>reset\<close> as steps of their own;
  interleaved connections in the TCP server; a bound on the number of steps to completion under a
  fairness assumption.
\<close>

section \<open>Properties of whole sessions\<close>

text \<open>
  C1. A session is exact.  In every state that a client with request \<open>req\<close>, the router and the server
  can reach, in any interleaving and with any loss, repetition, delay and reordering of datagrams:
  whatever the server has handled is \<open>req\<close>, byte for byte; the world is what handling it that many
  times made of it; and if the client's \<open>send\<close> has returned, it has returned the server's first
  response, byte for byte.
\<close>

theorem session_exact:
  assumes "hosts cl sv" and "session_fits handles req"
    and "session_reachable f gate cl sv handles req w0 x"
  shows "(\<forall>(q, r) \<in> set (handled x). q = req) \<and> served handles w0 (handled x) (world x)
     \<and> (\<forall>raw. cpc x = C_Done raw \<longrightarrow> handled x \<noteq> [] \<and> raw = snd (hd (handled x)))"
  by (rule session_history [OF assms])

theorem session_exact_witness:
  "\<exists>x. session_reachable reliable RouterAddr ClientAddr ServerAddr ok_handler [71, 69, 84] True x
     \<and> cpc x = C_Done [79, 75] \<and> handled x \<noteq> [] \<and> snd (hd (handled x)) = [79, 75]
     \<and> (\<forall>(q, r) \<in> set (handled x). q = [71, 69, 84])"
proof -
  obtain x where x: "session_reachable reliable RouterAddr ClientAddr ServerAddr ok_handler [71, 69, 84] True x"
    "cpc x = C_Done [79, 75]" using example_session [of RouterAddr] by blast
  from session_exact [OF example_hosts ok_handler_fits [OF fits_GET] x(1)] x show ?thesis by auto
qed

text \<open>
  C2. The packet transport refines the abstract service: seen as the world, the list of answers
  given and the result of the client, a session starts with nothing done, and every step of any
  goroutine or of the router is either no step at all or one of the two of the service: one more
  answer to \<open>req\<close>, or, once, the client's taking of the first answer.
\<close>

theorem session_refines_service:
  assumes "hosts cl sv" and "session_fits handles req"
    and "session_reachable f gate cl sv handles req w0 x"
    and "sys_step f cl sv handles req x y"
  shows "service_of (sys_init verbose gate sv w0) = \<lparr>sv_world = w0, sv_answers = [], sv_result = None\<rparr>
     \<and> (service_of y = service_of x \<or> service_step handles req (service_of x) (service_of y))"
  using service_refined [OF assms(1,2) session_ok [OF assms(1-3)] assms(4)]
  by (simp add: service_of_def sys_init_def responses_def result_of_def)

theorem session_refines_service_witness:
  "\<exists>x. session_reachable reliable RouterAddr ClientAddr ServerAddr ok_handler [71, 69, 84] True x
     \<and> cpc x = C_Done [79, 75]
     \<and> (let y = x\<lparr>server := server_fire 1 (server x)\<rparr>
        in service_of y = service_of x \<or> service_step ok_handler [71, 69, 84] (service_of x) (service_of y))"
proof -
  obtain x where x: "session_reachable reliable RouterAddr ClientAddr ServerAddr ok_handler [71, 69, 84] True x"
    "cpc x = C_Done [79, 75]" using example_session [of RouterAddr] by blast
  have "sys_step reliable ClientAddr ServerAddr ok_handler [71, 69, 84] x (x\<lparr>server := server_fire 1 (server x)\<rparr>)"
    using sys_step.server_bg [OF server_bg.tick, of reliable ClientAddr ServerAddr ok_handler _ x 1] by simp
  from session_refines_service [OF example_hosts ok_handler_fits [OF fits_GET] x(1) this] x show ?thesis
    by (auto simp: Let_def)
qed

text \<open>
  C3. A session can be completed: over a router that neither drops nor delays, for every answer the
  handler can give, the client's \<open>send\<close> returns that answer, the server handles the request exactly
  once, its own \<open>send\<close> returns too, and it is back in its initial state, waiting for the next client.
\<close>

theorem session_completes:
  assumes "hosts cl sv" and "session_fits handles req" and "forwards f"
    and "handles req w0 resp w1"
  shows "\<exists>x. session_reachable f gate cl sv handles req w0 x
     \<and> cpc x = C_Done resp \<and> handled x = [(req, resp)] \<and> world x = w1
     \<and> spc x = S_Syn \<and> (\<exists>g. server x = initHttpServer g)"
  using run_complete [OF assms, of True gate] reachable_runs [of f cl sv handles req True gate w0] by blast

theorem session_completes_witness:
  "\<exists>x. session_reachable reliable RouterAddr ClientAddr ServerAddr ok_handler [71, 69, 84] True x
     \<and> cpc x = C_Done [79, 75] \<and> handled x = [([71, 69, 84], [79, 75])] \<and> spc x = S_Syn"
  using session_completes [OF example_hosts ok_handler_fits [OF fits_GET] forwards_reliable, of True "[79, 75]" True]
  by (fastforce simp: ok_handler_def)



text \<open>
  C5. That panic happens: \<open>sendPacket\<close> writes the packet first and stores the window element after
  it, so with every request, over a router that does nothing wrong, there is a run in which the
  acknowledgement is read before the store, and the client stops with a nil dereference.
\<close>

theorem ack_overtakes_store:
  assumes "hosts cl sv" and "session_fits handles req" and "forwards f"
  shows "\<exists>x. session_reachable f gate cl sv handles req w0 x \<and> client_panics cl req x"
proof -
  obtain x where "runs f cl sv handles req (sys_init True gate sv w0) x" "client_panics cl req x"
    using run_race [OF assms, of True gate w0] by blast
  then show ?thesis using reachable_runs [of f cl sv handles req True gate w0 x] by blast
qed

theorem ack_overtakes_store_witness:
  "\<exists>x. session_reachable reliable RouterAddr ClientAddr ServerAddr ok_handler [71, 69, 84] True x
     \<and> client_panics ClientAddr [71, 69, 84] x"
  by (rule ack_overtakes_store [OF example_hosts ok_handler_fits [OF fits_GET] forwards_reliable])

text \<open>
  C9. One request can be handled twice: packets carry no session, so after the reset a late copy of
  the client's SYN opens another session, the client's \<open>receive\<close>, which answers every SYN-ACK,
  completes it, and late copies of the old packets make the same request again.  The client still
  returns the first response.
\<close>

theorem request_handled_twice:
  assumes "hosts cl sv" and "session_fits handles req" and "forwards f"
    and "handles req w0 r1 w1" and "handles req w1 r2 w2"
  shows "\<exists>x. session_reachable f gate cl sv handles req w0 x
     \<and> cpc x = C_Done r1 \<and> handled x = [(req, r1), (req, r2)] \<and> world x = w2"
  using run_twice [OF assms, of True gate] reachable_runs [of f cl sv handles req True gate w0] by blast

text \<open>A handler that counts.\<close>

definition counting_handler :: "nat handler" where
  "counting_handler q w r w' \<longleftrightarrow> r = [79, 75] \<and> w' = Suc w"

theorem request_handled_twice_witness:
  "\<exists>x. session_reachable reliable RouterAddr ClientAddr ServerAddr counting_handler [71, 69, 84] 0 x
     \<and> cpc x = C_Done [79, 75] \<and> world x = 2"
proof -
  have "session_fits counting_handler [71, 69, 84]"
    by (auto simp: session_fits_def counting_handler_def fits_def)
  from request_handled_twice [OF example_hosts this forwards_reliable, of 0 "[79, 75]" 1 "[79, 75]" 2]
  show ?thesis by (fastforce simp: counting_handler_def)
qed

text \<open>
  C8. Bounds: in every reachable state every datagram ever written has between 11 and 1024 bytes and
  is accepted by \<open>ParsePacket\<close>, so neither the 2048-byte buffers nor the length check lose any, and
  neither sequence number exceeds the window size, so the 32-bit counters never wrap and no window
  is indexed outside.
\<close>

theorem session_bounds:
  assumes "hosts cl sv" and "session_fits handles req"
    and "session_reachable f gate cl sv handles req w0 x"
  shows "(\<forall>(src, b) \<in> wire x. (src = cl \<or> src = sv) \<and> minLen \<le> length b \<and> length b \<le> maxLen
        \<and> (\<exists>p. ParsePacket b = (Some p, None)))
     \<and> unat (c_seqNum (client x)) \<le> WindowSize \<and> unat (s_seqNum (server x)) \<le> WindowSize"
  by (rule sys_sizes [OF assms(1) session_ok [OF assms]])

theorem session_bounds_witness:
  "\<exists>x. session_reachable reliable RouterAddr ClientAddr ServerAddr ok_handler [71, 69, 84] True x
     \<and> cpc x = C_Done [79, 75] \<and> (\<forall>(src, b) \<in> wire x. length b \<le> 1024)"
proof -
  obtain x where x: "session_reachable reliable RouterAddr ClientAddr ServerAddr ok_handler [71, 69, 84] True x"
    "cpc x = C_Done [79, 75]" using example_session [of RouterAddr] by blast
  from session_bounds [OF example_hosts ok_handler_fits [OF fits_GET] x(1)] x show ?thesis by fastforce
qed

section \<open>Properties of file transfers\<close>

text \<open>
  C7. A download over the packet transport: when the client sends the GET of a URL of the usual form
  for a file the server can read, then in every reachable state the server's files are as they
  were, and if \<open>send\<close> has returned, the client parses what it returned as a 200 response, whose body
  is exactly the file's contents when the file is not empty, and the two bytes CRLF when it is.
\<close>

theorem session_download:
  assumes "hosts cl sv" and "plain_host host" "name \<noteq> []" "list_all plain_path_char name"
    and "list_all plain_header headers" and "ReadFile (wd @ ''/'' @ name) w0 = Inr d" "length d < 2 ^ 63"
    and req: "req = bytes_of (get_text ''HTTP/1.0'' (http_url host (''/'' @ name)) host headers)" "fits req"
    and "session_reachable f gate cl sv (file_handler wd) req w0 x"
  shows "world x = w0 \<and> (\<forall>raw. cpc x = C_Done raw \<longrightarrow> downloaded d raw)"
proof -
  have answer: "w' = w0 \<and> downloaded d r" if "file_handler wd req w0 r w'" for r w'
    using get_answer [OF assms(2-5), of wd w0 d r w'] that assms(6,7) req(1) by blast
  have "(handled x = [] \<longrightarrow> world x = w0) \<and> (handled x \<noteq> [] \<longrightarrow> world x = w0)
      \<and> (\<forall>raw. cpc x = C_Done raw \<longrightarrow> handled x \<noteq> [] \<and> downloaded d raw)"
    by (rule session_served [OF assms(1) file_handler_fits [OF req(2)] assms(10)]) (use answer in blast)
  then show ?thesis by blast
qed

text \<open>The example request and its answer.\<close>

definition example_get :: bytes where
  "example_get = bytes_of (get_text ''HTTP/1.0'' (http_url ''127.0.0.1:8007'' (''/'' @ ''b.txt'')) ''127.0.0.1:8007'' [])"

definition example_post :: bytes where
  "example_post =
     bytes_of (post_text ''HTTP/1.0'' (http_url ''127.0.0.1:8007'' (''/'' @ ''x'')) ''127.0.0.1:8007'' [] ''data'')"

lemma example_numbers: "itoa 3 = ''3''" "itoa 4 = ''4''" "itoa 200 = ''200''" "itoa 201 = ''201''"
  "itoa (length ''bee'') = ''3''" "itoa (length ''data'') = ''4''"
  by code_simp+

lemmas example_lengths = example_numbers(5,6) [simplified]

lemma example_fits:
  "fits example_get" "fits example_post"
  "fits (makeResponse ''now'' 200 ''text/plain'' (''attachment; filename='' @ ''b.txt'') ''bee'')"
  "fits (makeResponse ''now'' 201 [] [] [])"
  by (simp_all add: example_get_def example_post_def get_text_def post_text_def http_url_def makeResponse_def
      response_text_def fits_def example_numbers(1-4) example_lengths header_lines_def CRLF_def HttpRequestHeaderEnd_def StatusText_def
      bytes_of_def)

lemma example_read: "ReadFile (''/srv'' @ ''/'' @ ''b.txt'') example_os = Inr ''bee''"
  by (simp add: ReadFile_def open_read_def example_os_def resolve_def absolute_def path_comps_def lookup_def
      no_faults_def trailing_slash_def)

lemma example_plain:
  "list_all plain_path_char ''b.txt''" "list_all plain_path_char ''x''" "plain_value ''now''" "verifyFilePath ''x''"
  by (simp_all add: plain_path_char_def is_ctl_def plain_value_def is_blank_def verifyFilePath_def str_contains_def)

theorem session_download_witness:
  "\<exists>x raw. session_reachable reliable RouterAddr ClientAddr ServerAddr (file_handler ''/srv'') example_get example_os x
     \<and> cpc x = C_Done raw \<and> world x = example_os \<and> downloaded ''bee'' raw"
proof -
  let ?r = "makeResponse ''now'' 200 ''text/plain'' (''attachment; filename='' @ ''b.txt'') ''bee''"
  have "serve_file ''/srv'' ''now'' example_get example_os = Some (?r, example_os)"
    unfolding example_get_def by (rule serve_get [OF example_host example_plain(1) _ example_read]) simp
  from file_session [OF example_hosts example_fits(1) forwards_reliable example_plain(3) this example_fits(3), of RouterAddr]
  obtain x where x: "session_reachable reliable RouterAddr ClientAddr ServerAddr (file_handler ''/srv'') example_get example_os x"
    "cpc x = C_Done ?r" by (elim exE conjE)
  from session_download [OF example_hosts example_host _ example_plain(1) _ example_read _ example_get_def
      example_fits(1) x(1)] x show ?thesis by auto
qed

text \<open>
  C6. An upload over the packet transport: when the client sends the POST of data to a URL whose path
  the server accepts and can create, and no file operation fails, then in every reachable state
  the server's files are as they were, or the one file holds exactly the data and nothing else has
  changed, however often the router makes the server handle the request; and if \<open>send\<close> has
  returned, they are the latter and the client parses a 201 response.
\<close>

theorem session_upload:
  assumes "hosts cl sv" and "plain_host host" "list_all plain_path_char name" "verifyFilePath name"
    and "list_all plain_header headers" "length data < 2 ^ 63"
    and "Create (wd @ ''/'' @ name) w0 = Inr (p, w1)" "faults w0 = no_faults"
    and req: "req = bytes_of (post_text ''HTTP/1.0'' (http_url host (''/'' @ name)) host headers data)" "fits req"
    and "session_reachable f gate cl sv (file_handler wd) req w0 x"
  shows "(world x = w0 \<or> world x = set_file p data w0)
     \<and> (\<forall>raw. cpc x = C_Done raw \<longrightarrow> world x = set_file p data w0 \<and> created raw)"
proof -
  have answer: "w' = set_file p data w0 \<and> created r"
    if "w = w0 \<or> w = set_file p data w0" "file_handler wd req w r w'" for w r w'
    using post_answer [OF assms(2-8), of w r w'] that req(1) by blast
  have "(handled x = [] \<longrightarrow> world x = w0) \<and> (handled x \<noteq> [] \<longrightarrow> world x = set_file p data w0)
      \<and> (\<forall>raw. cpc x = C_Done raw \<longrightarrow> handled x \<noteq> [] \<and> created raw)"
    by (rule session_served [OF assms(1) file_handler_fits [OF req(2)] assms(11)]) (use answer in blast)
  then show ?thesis by blast
qed

theorem session_upload_witness:
  "\<exists>x raw. session_reachable reliable RouterAddr ClientAddr ServerAddr (file_handler ''/srv'') example_post example_os x
     \<and> cpc x = C_Done raw \<and> world x = set_file [''srv'', ''x''] ''data'' example_os \<and> created raw"
proof -
  let ?r = "makeResponse ''now'' 201 [] [] []" and ?w = "set_file [''srv'', ''x''] ''data'' example_os"
  have "serve_file ''/srv'' ''now'' example_post example_os = Some (?r, ?w)"
    unfolding example_post_def
    by (rule serve_post [OF example_host example_plain(2,4) _ _ example_creates(1)]) simp_all
  from file_session [OF example_hosts example_fits(2) forwards_reliable example_plain(3) this example_fits(4), of RouterAddr]
  obtain x where x: "session_reachable reliable RouterAddr ClientAddr ServerAddr (file_handler ''/srv'') example_post example_os x"
    "cpc x = C_Done ?r" by (elim exE conjE)
  from session_upload [OF example_hosts example_host example_plain(2,4) _ _ example_creates(1) _ example_post_def
      example_fits(2) x(1)] x show ?thesis by auto
qed

end
